(* ===== verification/Prelude.thy ===== *)
theory Prelude
  imports Main "HOL-Library.Word" "HOL-Library.AList" "HOL-Library.Multiset"
begin

text \<open>
  What every component of the development shares: the Go types the sources use
  (fixed-width integers, byte strings, maps), the outcome of a Go call (a value, a run-time
  panic, or a goroutine that blocks), and the library of lemmas about Go maps on which the
  component proofs rest.

  A Go map is an association list with distinct keys. The order of its entries has no meaning:
  a \<^verbatim>\<open>range\<close> statement visits them in an order chosen by the run time, which
  is an argument of every definition that ranges over a map (see \<open>order_ok\<close>).
\<close>

named_theorems gomap_simps \<open>equations and invariants of Go maps\<close>
named_theorems nested_simps \<open>equations and invariants of the two-level user maps\<close>
named_theorems int64_simps \<open>reading 64-bit counters as integers\<close>

section \<open>Machine integers\<close>

type_synonym int64 = "64 word"
type_synonym uint32 = "32 word"
type_synonym bytes = "8 word list"

text \<open>Go compares \<^verbatim>\<open>int64\<close> and \<^verbatim>\<open>int\<close> values as signed numbers.\<close>

abbreviation int64_le :: "int64 \<Rightarrow> int64 \<Rightarrow> bool" where
  "int64_le a b \<equiv> sint a \<le> sint b"

abbreviation int64_less :: "int64 \<Rightarrow> int64 \<Rightarrow> bool" where
  "int64_less a b \<equiv> sint a < sint b"

section \<open>Outcomes of a call\<close>

text \<open>
  A call returns, panics, or blocks (no case of a \<^verbatim>\<open>select\<close> is ready and nothing the
  goroutine itself does can make one ready).
\<close>

datatype 'a outcome = Return 'a | Panics | Blocks

fun bind_outcome :: "'a outcome \<Rightarrow> ('a \<Rightarrow> 'b outcome) \<Rightarrow> 'b outcome" where
  "bind_outcome (Return a) f = f a"
| "bind_outcome Panics f = Panics"
| "bind_outcome Blocks f = Blocks"

fun returns :: "'a outcome \<Rightarrow> bool" where
  "returns (Return a) = True"
| "returns Panics = False"
| "returns Blocks = False"

text \<open>
  A \<^verbatim>\<open>select\<close> statement without a default case: the run time picks one of the cases that are
  ready (the number \<open>choice\<close> stands for its pick), and blocks when none is.
\<close>

definition go_select :: "nat \<Rightarrow> 'a list \<Rightarrow> 'a option" where
  "go_select choice ready = (if ready = [] then None else Some (ready ! (choice mod length ready)))"

section \<open>Go maps\<close>

type_synonym ('k, 'v) gomap = "('k \<times> 'v) list"

definition gomap_ok :: "('k, 'v) gomap \<Rightarrow> bool" where
  "gomap_ok m \<longleftrightarrow> distinct (map fst m)"

abbreviation mapassign :: "'k \<Rightarrow> 'v \<Rightarrow> ('k, 'v) gomap \<Rightarrow> ('k, 'v) gomap" where
  "mapassign k v m \<equiv> AList.update k v m"

abbreviation mapdelete :: "'k \<Rightarrow> ('k, 'v) gomap \<Rightarrow> ('k, 'v) gomap" where
  "mapdelete k m \<equiv> AList.delete k m"

text \<open>
  The order in which the \<open>i\<close>-th \<^verbatim>\<open>range\<close> statement of a call visits the entries
  of a map. The language fixes no order, so the only thing the code may rely on is that each
  entry is visited exactly once.
\<close>

type_synonym 'a range_order = "nat \<Rightarrow> 'a list \<Rightarrow> 'a list"

definition order_ok :: "'a range_order \<Rightarrow> bool" where
  "order_ok ord \<longleftrightarrow> (\<forall>i xs. mset (ord i xs) = mset xs)"

section \<open>Two-level maps from users to their connections\<close>

text \<open>
  The hub and the three servers all keep \<^verbatim>\<open>userConns map[string]map[string]C\<close> (user ID to
  connection ID to connection) and maintain it with the same two code fragments: creating the
  inner map on the first binding of a user, and dropping it with its last connection.
\<close>

type_synonym ('u, 'k, 'v) nested = "('u, ('k, 'v) gomap) gomap"

definition bind_in :: "'u \<Rightarrow> 'k \<Rightarrow> 'v \<Rightarrow> ('u, 'k, 'v) nested \<Rightarrow> ('u, 'k, 'v) nested" where
  "bind_in u k v uc =
     (let uc' = (case map_of uc u of None \<Rightarrow> mapassign u [] uc | Some _ \<Rightarrow> uc)
      in mapassign u (mapassign k v (case map_of uc' u of None \<Rightarrow> [] | Some conns \<Rightarrow> conns)) uc')"

definition unbind_in :: "'u \<Rightarrow> 'k \<Rightarrow> ('u, 'k, 'v) nested \<Rightarrow> ('u, 'k, 'v) nested" where
  "unbind_in u k uc =
     (case map_of uc u of
        None \<Rightarrow> uc
      | Some conns \<Rightarrow>
          (let conns' = mapdelete k conns
           in if length conns' = 0 then mapdelete u uc else mapassign u conns' uc))"

definition conns_of :: "('u, 'k, 'v) nested \<Rightarrow> 'u \<Rightarrow> ('k, 'v) gomap" where
  "conns_of uc u = (case map_of uc u of None \<Rightarrow> [] | Some conns \<Rightarrow> conns)"

definition nested_ok :: "('u, 'k, 'v) nested \<Rightarrow> bool" where
  "nested_ok uc \<longleftrightarrow> gomap_ok uc \<and> (\<forall>conns \<in> set (map snd uc). gomap_ok conns \<and> conns \<noteq> [])"

text \<open>The abstract content of a two-level map.\<close>

definition user_view :: "('u, 'k, 'v) nested \<Rightarrow> 'u \<Rightarrow> 'k \<rightharpoonup> 'v" where
  "user_view uc u = map_of (conns_of uc u)"

section \<open>Lemmas on machine integers\<close>

lemma sint_of_nat64 [int64_simps]: "n < 2 ^ 63 \<Longrightarrow> sint (of_nat n :: int64) = int n"
  by (simp add: sint_uint uint_nat unat_of_nat signed_take_bit_int_eq_self)

lemma sint_of_nat64_less_iff:
  "m < 2 ^ 63 \<Longrightarrow> n < 2 ^ 63 \<Longrightarrow> sint (of_nat m :: int64) < sint (of_nat n :: int64) \<longleftrightarrow> m < n"
  by (simp add: sint_of_nat64)

lemma of_nat64_inj:
  "m < 2 ^ 63 \<Longrightarrow> n < 2 ^ 63 \<Longrightarrow> (of_nat m :: int64) = of_nat n \<longleftrightarrow> m = n"
  by (metis nat_int sint_of_nat64)

section \<open>Lemmas on outcomes\<close>

lemma returns_iff: "returns x \<longleftrightarrow> (\<exists>a. x = Return a)"
  by (cases x) auto

lemma bind_outcome_Return [simp]:
  "bind_outcome x f = Return b \<longleftrightarrow> (\<exists>a. x = Return a \<and> f a = Return b)"
  by (cases x) auto

lemma bind_outcome_Panics [simp]:
  "bind_outcome x f = Panics \<longleftrightarrow> x = Panics \<or> (\<exists>a. x = Return a \<and> f a = Panics)"
  by (cases x) auto

lemma bind_outcome_Blocks [simp]:
  "bind_outcome x f = Blocks \<longleftrightarrow> x = Blocks \<or> (\<exists>a. x = Return a \<and> f a = Blocks)"
  by (cases x) auto

lemma go_select_None [simp]: "go_select ch cases = None \<longleftrightarrow> cases = []"
  by (simp add: go_select_def)

lemma go_select_in: "go_select ch cases = Some x \<Longrightarrow> x \<in> set cases"
  by (auto simp: go_select_def split: if_splits)

lemma go_select_ex: "x \<in> set cases \<Longrightarrow> \<exists>ch. go_select ch cases = Some x"
  by (metis empty_iff go_select_def in_set_conv_nth list.set(1) mod_less)

section \<open>Lemmas on Go maps\<close>

lemma gomap_ok_Nil [simp, gomap_simps]: "gomap_ok []"
  by (simp add: gomap_ok_def)

lemma gomap_ok_assign [simp, gomap_simps]: "gomap_ok m \<Longrightarrow> gomap_ok (mapassign k v m)"
  by (simp add: gomap_ok_def distinct_update)

lemma gomap_ok_delete [simp, gomap_simps]: "gomap_ok m \<Longrightarrow> gomap_ok (mapdelete k m)"
  by (simp add: gomap_ok_def distinct_delete)

lemma map_of_assign [simp, gomap_simps]: "map_of (mapassign k v m) = (map_of m)(k \<mapsto> v)"
  by (rule update_conv')

lemma map_of_mapdelete [simp, gomap_simps]: "map_of (mapdelete k m) = (map_of m)(k := None)"
  by (rule delete_conv')

lemma in_set_gomap: "gomap_ok m \<Longrightarrow> (k, v) \<in> set m \<longleftrightarrow> map_of m k = Some v"
  by (auto simp: gomap_ok_def dest: map_of_SomeD)

lemma gomap_empty_iff: "m = [] \<longleftrightarrow> map_of m = Map.empty"
  by (cases m) (auto simp: fun_eq_iff)

lemma mapdelete_absent: "map_of m k = None \<Longrightarrow> mapdelete k m = m"
  by (simp add: map_of_eq_None_iff)

lemma length_assign:
  "length (mapassign k v m) = (if map_of m k = None then Suc (length m) else length m)"
  by (induction m) auto

lemma length_mapdelete:
  "gomap_ok m \<Longrightarrow>
     length (mapdelete k m) = (if map_of m k = None then length m else length m - 1)"
proof (induction m)
  case Nil
  then show ?case by simp
next
  case (Cons kv m)
  obtain k' v' where kv: "kv = (k', v')" by (cases kv)
  from Cons.prems kv have ok: "gomap_ok m" and notin: "map_of m k' = None"
    by (auto simp: gomap_ok_def map_of_eq_None_iff)
  show ?case
  proof (cases "k = k'")
    case True
    with kv notin show ?thesis by (simp add: mapdelete_absent)
  next
    case False
    have "map_of m k \<noteq> None \<Longrightarrow> 0 < length m" by (cases m) auto
    with False Cons.IH [OF ok] kv show ?thesis by auto
  qed
qed

lemma length_gomap_card: "gomap_ok m \<Longrightarrow> length m = card (dom (map_of m))"
  by (metis distinct_card dom_map_of_conv_image_fst gomap_ok_def length_map list.set_map)

lemma set_assign:
  "gomap_ok m \<Longrightarrow> set (mapassign k v m) = insert (k, v) {p \<in> set m. fst p \<noteq> k}"
  by (auto simp: in_set_gomap split: if_splits)

lemma set_mapdelete: "set (mapdelete k m) = {p \<in> set m. fst p \<noteq> k}"
  by (auto simp: AList.delete_eq)

lemma order_ok_set: "order_ok ord \<Longrightarrow> set (ord i xs) = set xs"
  by (metis order_ok_def set_mset_mset)

lemma order_ok_length: "order_ok ord \<Longrightarrow> length (ord i xs) = length xs"
  by (metis order_ok_def size_mset)

lemma order_ok_Nil [simp]: "order_ok ord \<Longrightarrow> ord i [] = []"
  using order_ok_length [of ord i "[]"] by simp

lemma order_ok_distinct_map:
  "order_ok ord \<Longrightarrow> distinct (map f (ord i xs)) = distinct (map f xs)"
  by (metis mset_eq_imp_distinct_iff mset_map order_ok_def)

lemma order_ok_id [simp]: "order_ok (\<lambda>i xs. xs)"
  by (simp add: order_ok_def)

lemma order_ok_rev [simp]: "order_ok (\<lambda>i xs. rev xs)"
  by (simp add: order_ok_def)

text \<open>Copying a map entry by entry, in any order, gives a map with the same content.\<close>

lemma map_of_copy_onto:
  "distinct (map fst xs) \<Longrightarrow>
     map_of (foldl (\<lambda>m (k, v). mapassign k v m) m0 xs) = map_of m0 ++ map_of xs"
proof (induction xs arbitrary: m0)
  case Nil
  then show ?case by simp
next
  case (Cons kv xs)
  obtain k v where kv: "kv = (k, v)" by (cases kv)
  with Cons.prems have "map_of xs k = None" by (simp add: map_of_eq_None_iff)
  then show ?case
    using Cons kv by (auto simp: map_add_def fun_eq_iff split: option.splits)
qed

lemma map_of_copy:
  assumes "gomap_ok m" and "order_ok ord"
  shows "map_of (foldl (\<lambda>m (k, v). mapassign k v m) [] (ord i m)) = map_of m"
proof -
  have d: "distinct (map fst (ord i m))"
    using assms by (simp add: order_ok_distinct_map gomap_ok_def)
  have "map_of (ord i m) = map_of m"
    using assms d map_of_inject_set [OF d, of m] by (simp add: order_ok_set gomap_ok_def)
  then show ?thesis using map_of_copy_onto [OF d, of "[]"] by simp
qed

section \<open>Lemmas on two-level maps\<close>

lemma nested_ok_Nil [simp, nested_simps]: "nested_ok []"
  by (simp add: nested_ok_def)

lemma nested_okD:
  assumes "nested_ok uc"
  shows "gomap_ok uc" and "map_of uc u = Some conns \<Longrightarrow> gomap_ok conns \<and> conns \<noteq> []"
  using assms by (fastforce simp: nested_ok_def dest: map_of_SomeD)+

lemma nested_ok_assign:
  assumes "nested_ok uc" and "gomap_ok conns" and "conns \<noteq> []"
  shows "nested_ok (mapassign u conns uc)"
  using assms by (auto simp: nested_ok_def set_assign)

lemma nested_ok_delete: "nested_ok uc \<Longrightarrow> nested_ok (mapdelete u uc)"
  by (auto simp: nested_ok_def set_mapdelete)

lemma gomap_ok_conns_of [simp, nested_simps]: "nested_ok uc \<Longrightarrow> gomap_ok (conns_of uc u)"
  by (auto simp: conns_of_def nested_okD split: option.splits)

lemma conns_of_eq_Nil_iff: "nested_ok uc \<Longrightarrow> conns_of uc u = [] \<longleftrightarrow> map_of uc u = None"
  by (auto simp: conns_of_def dest: nested_okD(2) split: option.splits)

lemma bind_in_eq: "bind_in u k v uc = mapassign u (mapassign k v (conns_of uc u)) uc"
  by (simp add: bind_in_def conns_of_def Let_def split: option.splits)

lemma conns_of_bind_in [nested_simps]:
  "conns_of (bind_in u k v uc) u' = (if u' = u then mapassign k v (conns_of uc u) else conns_of uc u')"
  by (simp add: bind_in_eq conns_of_def)

lemma conns_of_unbind_in [nested_simps]:
  "conns_of (unbind_in u k uc) u' = (if u' = u then mapdelete k (conns_of uc u) else conns_of uc u')"
  by (auto simp: unbind_in_def conns_of_def Let_def split: option.splits)

lemma nested_ok_bind_in [simp, nested_simps]: "nested_ok uc \<Longrightarrow> nested_ok (bind_in u k v uc)"
  by (simp add: bind_in_eq nested_ok_assign)

lemma nested_ok_unbind_in [simp, nested_simps]: "nested_ok uc \<Longrightarrow> nested_ok (unbind_in u k uc)"
  by (auto simp: unbind_in_def Let_def nested_ok_delete nested_okD
      intro!: nested_ok_assign split: option.splits)

lemma user_view_bind_in [simp, nested_simps]:
  "user_view (bind_in u k v uc) = (user_view uc)(u := (user_view uc u)(k \<mapsto> v))"
  by (auto simp: user_view_def conns_of_bind_in)

lemma user_view_unbind_in [simp, nested_simps]:
  "user_view (unbind_in u k uc) = (user_view uc)(u := (user_view uc u)(k := None))"
  by (auto simp: user_view_def conns_of_unbind_in)

lemma user_view_Nil [simp, nested_simps]: "user_view [] u = Map.empty"
  by (simp add: user_view_def conns_of_def)

lemma user_view_empty_iff: "nested_ok uc \<Longrightarrow> user_view uc u = Map.empty \<longleftrightarrow> map_of uc u = None"
  by (metis conns_of_eq_Nil_iff gomap_empty_iff user_view_def)

end
