(* ===== verification/Protocol.thy ===== *)
theory Protocol
  imports Go_Text
begin

text \<open>
  The shared vocabulary of the library (\<^verbatim>\<open>internal/protocol\<close>, re-exported by
  \<^verbatim>\<open>protocol/protocol.go\<close>): protocol names, errors, dynamic values, the messages of the
  stateless mode, authentication requests, and what the code uses of \<^verbatim>\<open>net/http\<close> requests.
\<close>

section \<open>Protocols\<close>

text \<open>\<^verbatim>\<open>type Protocol string\<close>: any string is a value of the type, two are named.\<close>

type_synonym Protocol = string

definition ProtocolWebSocket :: Protocol where
  "ProtocolWebSocket = ''websocket''"

definition ProtocolWebTransport :: Protocol where
  "ProtocolWebTransport = ''webtransport''"

section \<open>Errors and dynamic values\<close>

text \<open>
  An error value with its dynamic type. A sentinel made by \<^verbatim>\<open>errors.New\<close> is a pointer that
  is equal to itself only, so it is identified by the package-level variable that holds it.
\<close>

datatype go_error =
    ErrorString string
  | WrapError string go_error
  | ConnectionError string
  | OtherError string string

fun error_type :: "go_error \<Rightarrow> string" where
  "error_type (ErrorString v) = ''*errors.errorString''"
| "error_type (WrapError s e) = ''*fmt.wrapError''"
| "error_type (ConnectionError s) = ''*wt.ConnectionError''"
| "error_type (OtherError t s) = t"

datatype any =
    AnyString string
  | AnyBytes bytes
  | AnyInt int64
  | AnyBool bool
  | AnyTime int
  | AnyOther string

text \<open>The state of a \<^verbatim>\<open>context.Context\<close> at the moment it is polled: \<open>None\<close> while it is live.\<close>

type_synonym go_context = "go_error option"

definition context_Background :: go_context where
  "context_Background = None"

section \<open>Messages of the stateless mode\<close>

record Message =
  msg_ID :: int64
  msg_Timestamp :: int64
  msg_Type :: string
  msg_Topic :: string
  msg_Data :: bytes

record FetchRequest =
  fr_UserID :: string
  fr_SinceID :: int64
  fr_Limit :: int64
  fr_Topic :: string

record SendRequest =
  sr_UserID :: string
  sr_Topic :: string
  sr_Data :: bytes

section \<open>HTTP requests\<close>

text \<open>
  The parts of an \<^verbatim>\<open>http.Request\<close> the sources read. Header keys are stored in canonical
  form by the server; \<open>req_Query\<close> is the result of \<^verbatim>\<open>URL.Query()\<close> and \<open>req_Cookies\<close> the
  cookies in the order of the Cookie header.
\<close>

record HTTPRequest =
  req_Header :: "(string, string list) gomap"
  req_Query :: "(string, string list) gomap"
  req_Cookies :: "(string \<times> string) list"
  req_Host :: string

definition token_char :: "char \<Rightarrow> bool" where
  "token_char c \<longleftrightarrow>
     (let b = (of_char c :: nat)
      in 48 \<le> b \<and> b \<le> 57 \<or> 65 \<le> b \<and> b \<le> 90 \<or> 97 \<le> b \<and> b \<le> 122 \<or> c \<in> set ''!#$%&*+-.^_`|~'' \<or> b = 39)"

fun canonical_bytes :: "bool \<Rightarrow> string \<Rightarrow> string" where
  "canonical_bytes upper [] = []"
| "canonical_bytes upper (c # cs) =
     (let b = (of_char c :: nat);
          c' = (if upper \<and> 97 \<le> b \<and> b \<le> 122 then char_of (b - 32)
                else if \<not> upper \<and> 65 \<le> b \<and> b \<le> 90 then char_of (b + 32)
                else c)
      in c' # canonical_bytes (c' = CHR ''-'') cs)"

definition CanonicalHeaderKey :: "string \<Rightarrow> string" where
  "CanonicalHeaderKey k = (if list_all token_char k then canonical_bytes True k else k)"

definition first_value :: "(string, string list) gomap \<Rightarrow> string \<Rightarrow> string" where
  "first_value m k = (case map_of m k of Some (v # _) \<Rightarrow> v | _ \<Rightarrow> [])"

definition Header_Get :: "HTTPRequest \<Rightarrow> string \<Rightarrow> string" where
  "Header_Get r k = first_value (req_Header r) (CanonicalHeaderKey k)"

definition Query_Get :: "HTTPRequest \<Rightarrow> string \<Rightarrow> string" where
  "Query_Get r k = first_value (req_Query r) k"

definition Request_Cookie :: "HTTPRequest \<Rightarrow> string \<Rightarrow> string option" where
  "Request_Cookie r k = (if k = [] then None else map_of (req_Cookies r) k)"

definition HasPrefix :: "string \<Rightarrow> string \<Rightarrow> bool" where
  "HasPrefix s p \<longleftrightarrow> length p \<le> length s \<and> take (length p) s = p"

definition TrimPrefix :: "string \<Rightarrow> string \<Rightarrow> string" where
  "TrimPrefix s p = (if HasPrefix s p then drop (length p) s else s)"

section \<open>Authentication\<close>

record AuthRequest =
  ar_Protocol :: Protocol
  ar_HTTPRequest :: "HTTPRequest option"
  ar_FirstMessage :: bytes

record AuthConfig =
  auth_Enabled :: bool
  auth_Mode :: string
  auth_Source :: string
  auth_TokenSource :: string
  auth_TokenName :: string
  auth_HeaderName :: string
  auth_JWTSecret :: string
  auth_Timeout :: int64

text \<open>
  \<^verbatim>\<open>Authenticate\<close> returns a user ID or an error. The implementations in the repository read
  the request only, never the context or the connection, so neither is an argument.
\<close>

type_synonym authenticator = "AuthRequest \<Rightarrow> go_error + string"

definition NoOp_Authenticate :: authenticator where
  "NoOp_Authenticate req = Inr []"

section \<open>Codecs\<close>

definition string_bytes :: "string \<Rightarrow> bytes" where
  "string_bytes s = map (\<lambda>c. word_of_nat (of_char c)) s"

definition bytes_string :: "bytes \<Rightarrow> string" where
  "bytes_string bs = map (\<lambda>b. char_of (unat b)) bs"

text \<open>The dynamic type of the pointer passed to \<^verbatim>\<open>Unmarshal\<close>; the result is the value stored.\<close>

datatype target = PtrBytes | PtrString | PtrOther string

fun type_name :: "any \<Rightarrow> string" where
  "type_name (AnyString s) = ''string''"
| "type_name (AnyBytes b) = ''[]uint8''"
| "type_name (AnyInt i) = ''int64''"
| "type_name (AnyBool b) = ''bool''"
| "type_name (AnyTime t) = ''time.Time''"
| "type_name (AnyOther t) = t"

definition raw_unsupported :: "string \<Rightarrow> go_error" where
  "raw_unsupported t = OtherError ''*errors.errorString'' (''raw codec: unsupported type '' @ t)"

fun Raw_Marshal :: "any \<Rightarrow> go_error + bytes" where
  "Raw_Marshal (AnyBytes msg) = Inr msg"
| "Raw_Marshal (AnyString msg) = Inr (string_bytes msg)"
| "Raw_Marshal v = Inl (raw_unsupported (type_name v))"

fun Raw_Unmarshal :: "bytes \<Rightarrow> target \<Rightarrow> go_error + any" where
  "Raw_Unmarshal data PtrBytes = Inr (AnyBytes data)"
| "Raw_Unmarshal data PtrString = Inr (AnyString (bytes_string data))"
| "Raw_Unmarshal data (PtrOther t) = Inl (raw_unsupported t)"

fun pointer_to :: "any \<Rightarrow> target" where
  "pointer_to (AnyBytes b) = PtrBytes"
| "pointer_to (AnyString s) = PtrString"
| "pointer_to (AnyInt i) = PtrOther ''*int64''"
| "pointer_to (AnyBool b) = PtrOther ''*bool''"
| "pointer_to (AnyTime t) = PtrOther ''*time.Time''"
| "pointer_to (AnyOther t) = PtrOther (CHR ''*'' # t)"

section \<open>Lemmas\<close>

lemma protocols_distinct [simp]:
  "ProtocolWebSocket \<noteq> ProtocolWebTransport" "ProtocolWebTransport \<noteq> ProtocolWebSocket"
  by (simp_all add: ProtocolWebSocket_def ProtocolWebTransport_def)

lemma bytes_string_string_bytes [simp]: "bytes_string (string_bytes s) = s"
proof -
  have "char_of (unat (word_of_nat (of_char c) :: 8 word)) = c" for c
  proof -
    have "(of_char c :: nat) < 2 ^ 8" by simp
    then show ?thesis by (simp add: unat_of_nat take_bit_nat_eq_self)
  qed
  then show ?thesis by (simp add: bytes_string_def string_bytes_def o_def)
qed

lemma string_bytes_bytes_string [simp]: "string_bytes (bytes_string b) = b"
proof -
  have "word_of_nat (of_char (char_of (unat x) :: char)) = x" for x :: "8 word"
  proof -
    have "unat x < 256" using unsigned_less [of x] by simp
    then show ?thesis by (simp add: of_char_of)
  qed
  then show ?thesis by (simp add: bytes_string_def string_bytes_def o_def)
qed

lemma TrimPrefix_append [simp]: "TrimPrefix (p @ s) p = s"
  by (simp add: TrimPrefix_def HasPrefix_def)

lemma TrimPrefix_other: "\<not> HasPrefix s p \<Longrightarrow> TrimPrefix s p = s"
  by (simp add: TrimPrefix_def)

section \<open>Properties\<close>

text \<open>
  The raw codec is lossless. What it marshals it unmarshals to the same value through a
  pointer of the value's type, and a value it refuses is refused by Unmarshal too; and what it
  unmarshals from bytes, as bytes or as a string, it marshals back to these bytes.
\<close>

lemma raw_codec_roundtrip:
  "(case Raw_Marshal v of
      Inr data \<Rightarrow> Raw_Unmarshal data (pointer_to v) = Inr v
    | Inl err \<Rightarrow> Raw_Unmarshal bs (pointer_to v) = Inl (raw_unsupported (CHR ''*'' # type_name v))) \<and>
   (case Raw_Unmarshal bs t of
      Inr u \<Rightarrow> pointer_to u = t \<and> Raw_Marshal u = Inr bs
    | Inl err \<Rightarrow> t \<noteq> PtrBytes \<and> t \<noteq> PtrString)"
  by (cases v; cases t) simp_all

end
