(* ===== verification/Connection.thy ===== *)
theory Connection
  imports Protocol
begin

text \<open>
  The connection objects of the two transports (\<^verbatim>\<open>ws/connection.go\<close>, \<^verbatim>\<open>wt/connection.go\<close>) and
  the interface \<^verbatim>\<open>protocol.Connection\<close> they implement.

  A connection object is a record of its fields: \<^verbatim>\<open>atomic.Value\<close> fields are \<open>None\<close> until the first
  store, a channel that is only ever closed is the flag that it is closed, the buffered send
  channel is the list of queued messages, and \<^verbatim>\<open>sync.Once\<close> is the flag that it has run. The
  socket and the session below (gorilla/websocket, webtransport-go) are code of other
  repositories: the model records the calls made to them, and what a call returns is a
  parameter, a function of the calls made before.
\<close>

section \<open>The send queue shared by both transports\<close>

text \<open>\<^verbatim>\<open>send: make(chan []byte, 256)\<close> in both constructors.\<close>

definition send_capacity :: nat where
  "send_capacity = 256"

datatype send_case = CtxDone | ConnDone | Enqueue

text \<open>The ready cases of the select statement in \<^verbatim>\<open>Send\<close>.\<close>

definition send_ready :: "go_context \<Rightarrow> bool \<Rightarrow> bytes list \<Rightarrow> send_case list" where
  "send_ready ctx closed queue =
     (if ctx \<noteq> None then [CtxDone] else []) @
     (if closed then [ConnDone] else []) @
     (if length queue < send_capacity then [Enqueue] else [])"

text \<open>\<^verbatim>\<open>atomic.Value.Store\<close> on a field of interface type \<^verbatim>\<open>error\<close>: storing nil, or a value whose
  dynamic type differs from the one stored first, panics.\<close>

definition store_error :: "go_error option \<Rightarrow> go_error option \<Rightarrow> go_error option outcome" where
  "store_error old new =
     (case new of
        None \<Rightarrow> Panics
      | Some e \<Rightarrow>
          (case old of
             None \<Rightarrow> Return (Some e)
           | Some e0 \<Rightarrow> if error_type e0 = error_type e then Return (Some e) else Panics))"

section \<open>WebSocket connections\<close>

datatype payload = Payload bytes | ClosePayload nat string

datatype ws_call =
    SetReadDeadline int
  | SetWriteDeadline int
  | WriteMessage nat payload
  | CloseSocket

definition TextMessage :: nat where "TextMessage = 1"
definition CloseMessage :: nat where "CloseMessage = 8"
definition PingMessage :: nat where "PingMessage = 9"
definition CloseNormalClosure :: nat where "CloseNormalClosure = 1000"
definition ClosePolicyViolation :: nat where "ClosePolicyViolation = 1008"

text \<open>What a call to the socket returns, given the calls made before it.\<close>

type_synonym ws_io = "ws_call list \<Rightarrow> ws_call \<Rightarrow> go_error option"

definition ErrCloseSent :: go_error where
  "ErrCloseSent = ErrorString ''websocket.ErrCloseSent''"

record ws_connection =
  wsc_id :: string
  wsc_conn :: "ws_call list"
  wsc_protocol :: Protocol
  wsc_userID :: "string option"
  wsc_metadata :: "(string, any) gomap"
  wsc_send :: "bytes list"
  wsc_done :: bool
  wsc_closeErr :: "go_error option"
  wsc_writeTimeout :: int64
  wsc_once :: bool

definition ws_NewConnection :: "string \<Rightarrow> ws_call list \<Rightarrow> int64 \<Rightarrow> ws_connection" where
  "ws_NewConnection cid conn writeTimeout =
     \<lparr>wsc_id = cid, wsc_conn = conn, wsc_protocol = ProtocolWebSocket, wsc_userID = None,
      wsc_metadata = [], wsc_send = [], wsc_done = False, wsc_closeErr = None,
      wsc_writeTimeout = writeTimeout, wsc_once = False\<rparr>"

definition ws_UserID :: "ws_connection \<Rightarrow> string" where
  "ws_UserID c = (case wsc_userID c of Some v \<Rightarrow> v | None \<Rightarrow> [])"

definition ws_SetUserID :: "string \<Rightarrow> ws_connection \<Rightarrow> ws_connection" where
  "ws_SetUserID userID c = c\<lparr>wsc_userID := Some userID\<rparr>"

definition ws_Metadata :: "(string \<times> any) range_order \<Rightarrow> ws_connection \<Rightarrow> (string, any) gomap" where
  "ws_Metadata ord c = foldl (\<lambda>result (k, v). mapassign k v result) [] (ord 0 (wsc_metadata c))"

definition ws_SetMetadata :: "string \<Rightarrow> any \<Rightarrow> ws_connection \<Rightarrow> ws_connection" where
  "ws_SetMetadata key v c = c\<lparr>wsc_metadata := mapassign key v (wsc_metadata c)\<rparr>"

definition ws_Send ::
  "nat \<Rightarrow> go_context \<Rightarrow> bytes \<Rightarrow> ws_connection \<Rightarrow> (ws_connection \<times> go_error option) outcome" where
  "ws_Send choice ctx msg c =
     (case go_select choice (send_ready ctx (wsc_done c) (wsc_send c)) of
        None \<Rightarrow> Blocks
      | Some CtxDone \<Rightarrow> Return (c, ctx)
      | Some ConnDone \<Rightarrow> Return (c, Some ErrCloseSent)
      | Some Enqueue \<Rightarrow> Return (c\<lparr>wsc_send := wsc_send c @ [msg]\<rparr>, None))"

definition ws_SendJSON ::
  "('v \<Rightarrow> go_error + bytes) \<Rightarrow> nat \<Rightarrow> go_context \<Rightarrow> 'v \<Rightarrow> ws_connection \<Rightarrow>
     (ws_connection \<times> go_error option) outcome" where
  "ws_SendJSON marshal choice ctx v c =
     (case marshal v of Inl err \<Rightarrow> Return (c, Some err) | Inr data \<Rightarrow> ws_Send choice ctx data c)"

text \<open>A call to the socket: it is recorded and its result comes from the environment.\<close>

definition ws_call :: "ws_io \<Rightarrow> ws_call \<Rightarrow> ws_connection \<Rightarrow> ws_connection \<times> go_error option" where
  "ws_call io x c = (c\<lparr>wsc_conn := wsc_conn c @ [x]\<rparr>, io (wsc_conn c) x)"

definition ws_Close :: "ws_io \<Rightarrow> ws_connection \<Rightarrow> (ws_connection \<times> go_error option) outcome" where
  "ws_Close io c =
     (if wsc_once c then Return (c, None)
      else
        let c0 = c\<lparr>wsc_once := True\<rparr>
        in if wsc_done c0 then Panics
           else
             let c1 = c0\<lparr>wsc_done := True\<rparr>;
                 c2 = fst (ws_call io (WriteMessage CloseMessage (ClosePayload CloseNormalClosure [])) c1)
             in Return (ws_call io CloseSocket c2))"

definition ws_CloseWithError :: "ws_io \<Rightarrow> go_error option \<Rightarrow> ws_connection \<Rightarrow> ws_connection outcome" where
  "ws_CloseWithError io err c =
     bind_outcome (store_error (wsc_closeErr c) err)
       (\<lambda>stored. bind_outcome (ws_Close io (c\<lparr>wsc_closeErr := stored\<rparr>)) (\<lambda>(c', _). Return c'))"

definition ws_Err :: "ws_connection \<Rightarrow> go_error option" where
  "ws_Err c = wsc_closeErr c"

definition ws_WriteMessage ::
  "ws_io \<Rightarrow> int \<Rightarrow> nat \<Rightarrow> payload \<Rightarrow> ws_connection \<Rightarrow> ws_connection \<times> go_error option" where
  "ws_WriteMessage io now messageType data c =
     (let c1 = (if 0 < sint (wsc_writeTimeout c)
                then fst (ws_call io (SetWriteDeadline (now + sint (wsc_writeTimeout c))) c) else c)
      in ws_call io (WriteMessage messageType data) c1)"

definition ws_SetReadDeadline :: "ws_io \<Rightarrow> int \<Rightarrow> ws_connection \<Rightarrow> ws_connection" where
  "ws_SetReadDeadline io t c = fst (ws_call io (SetReadDeadline t) c)"

section \<open>WebTransport connections\<close>

datatype wt_call =
    CloseSession nat string
  | StreamWriteDeadline nat int
  | StreamReadDeadline nat int
  | StreamWrite nat bytes

type_synonym wt_io = "wt_call list \<Rightarrow> wt_call \<Rightarrow> go_error option"

definition ErrConnectionClosed :: go_error where
  "ErrConnectionClosed = ErrorString ''wt.ErrConnectionClosed''"

definition NewConnectionError :: "string \<Rightarrow> go_error" where
  "NewConnectionError msg = ConnectionError msg"

text \<open>\<^verbatim>\<open>(*ConnectionError).Is\<close>, on the receiver's message.\<close>

definition ConnectionError_Is :: "string \<Rightarrow> go_error \<Rightarrow> bool" where
  "ConnectionError_Is msg target = (case target of ConnectionError m \<Rightarrow> msg = m | _ \<Rightarrow> False)"

record wt_connection =
  wtc_id :: string
  wtc_session :: "wt_call list"
  wtc_protocol :: Protocol
  wtc_userID :: "string option"
  wtc_metadata :: "(string, any) gomap"
  wtc_send :: "bytes list"
  wtc_done :: bool
  wtc_closeErr :: "go_error option"
  wtc_writeTimeout :: int64
  wtc_once :: bool
  wtc_responseStream :: "nat option"
  wtc_streamReady :: bool

definition wt_NewConnection :: "string \<Rightarrow> wt_call list \<Rightarrow> int64 \<Rightarrow> wt_connection" where
  "wt_NewConnection cid session writeTimeout =
     \<lparr>wtc_id = cid, wtc_session = session, wtc_protocol = ProtocolWebTransport, wtc_userID = None,
      wtc_metadata = [], wtc_send = [], wtc_done = False, wtc_closeErr = None,
      wtc_writeTimeout = writeTimeout, wtc_once = False, wtc_responseStream = None,
      wtc_streamReady = False\<rparr>"

definition wt_UserID :: "wt_connection \<Rightarrow> string" where
  "wt_UserID c = (case wtc_userID c of Some v \<Rightarrow> v | None \<Rightarrow> [])"

definition wt_SetUserID :: "string \<Rightarrow> wt_connection \<Rightarrow> wt_connection" where
  "wt_SetUserID userID c = c\<lparr>wtc_userID := Some userID\<rparr>"

definition wt_Metadata :: "(string \<times> any) range_order \<Rightarrow> wt_connection \<Rightarrow> (string, any) gomap" where
  "wt_Metadata ord c = foldl (\<lambda>result (k, v). mapassign k v result) [] (ord 0 (wtc_metadata c))"

definition wt_SetMetadata :: "string \<Rightarrow> any \<Rightarrow> wt_connection \<Rightarrow> wt_connection" where
  "wt_SetMetadata key v c = c\<lparr>wtc_metadata := mapassign key v (wtc_metadata c)\<rparr>"

definition wt_Send ::
  "nat \<Rightarrow> go_context \<Rightarrow> bytes \<Rightarrow> wt_connection \<Rightarrow> (wt_connection \<times> go_error option) outcome" where
  "wt_Send choice ctx msg c =
     (case go_select choice (send_ready ctx (wtc_done c) (wtc_send c)) of
        None \<Rightarrow> Blocks
      | Some CtxDone \<Rightarrow> Return (c, ctx)
      | Some ConnDone \<Rightarrow> Return (c, Some ErrConnectionClosed)
      | Some Enqueue \<Rightarrow> Return (c\<lparr>wtc_send := wtc_send c @ [msg]\<rparr>, None))"

definition wt_SendJSON ::
  "('v \<Rightarrow> go_error + bytes) \<Rightarrow> nat \<Rightarrow> go_context \<Rightarrow> 'v \<Rightarrow> wt_connection \<Rightarrow>
     (wt_connection \<times> go_error option) outcome" where
  "wt_SendJSON marshal choice ctx v c =
     (case marshal v of Inl err \<Rightarrow> Return (c, Some err) | Inr data \<Rightarrow> wt_Send choice ctx data c)"

definition wt_call :: "wt_io \<Rightarrow> wt_call \<Rightarrow> wt_connection \<Rightarrow> wt_connection \<times> go_error option" where
  "wt_call io x c = (c\<lparr>wtc_session := wtc_session c @ [x]\<rparr>, io (wtc_session c) x)"

definition wt_Close :: "wt_io \<Rightarrow> wt_connection \<Rightarrow> (wt_connection \<times> go_error option) outcome" where
  "wt_Close io c =
     (if wtc_once c then Return (c, None)
      else
        let c0 = c\<lparr>wtc_once := True\<rparr>
        in if wtc_done c0 then Panics
           else Return (wt_call io (CloseSession 0 []) (c0\<lparr>wtc_done := True\<rparr>)))"

definition wt_CloseWithError :: "wt_io \<Rightarrow> go_error option \<Rightarrow> wt_connection \<Rightarrow> wt_connection outcome" where
  "wt_CloseWithError io err c =
     bind_outcome (store_error (wtc_closeErr c) err)
       (\<lambda>stored. bind_outcome (wt_Close io (c\<lparr>wtc_closeErr := stored\<rparr>)) (\<lambda>(c', _). Return c'))"

definition wt_Err :: "wt_connection \<Rightarrow> go_error option" where
  "wt_Err c = wtc_closeErr c"

text \<open>The argument is a pointer to a stream, \<open>None\<close> when it is nil.\<close>

definition wt_SetResponseStream :: "nat option \<Rightarrow> wt_connection \<Rightarrow> wt_connection outcome" where
  "wt_SetResponseStream stream c =
     (if wtc_responseStream c = None
      then let c1 = c\<lparr>wtc_responseStream := stream\<rparr>
           in if wtc_streamReady c1 then Panics else Return (c1\<lparr>wtc_streamReady := True\<rparr>)
      else Return c)"

definition wt_ResponseStream :: "wt_connection \<Rightarrow> nat option" where
  "wt_ResponseStream c = wtc_responseStream c"

section \<open>The connection interface\<close>

text \<open>
  A value of interface type \<^verbatim>\<open>protocol.Connection\<close> is a pointer to an object of one of the two
  implementations; the objects live in two heaps, and a call dispatches on the implementation.
\<close>

datatype conn = WsConn nat | WtConn nat

record world =
  w_ws :: "nat \<Rightarrow> ws_connection"
  w_wt :: "nat \<Rightarrow> wt_connection"

fun conn_ID :: "world \<Rightarrow> conn \<Rightarrow> string" where
  "conn_ID w (WsConn r) = wsc_id (w_ws w r)"
| "conn_ID w (WtConn r) = wtc_id (w_wt w r)"

fun conn_Protocol :: "world \<Rightarrow> conn \<Rightarrow> Protocol" where
  "conn_Protocol w (WsConn r) = wsc_protocol (w_ws w r)"
| "conn_Protocol w (WtConn r) = wtc_protocol (w_wt w r)"

fun conn_UserID :: "world \<Rightarrow> conn \<Rightarrow> string" where
  "conn_UserID w (WsConn r) = ws_UserID (w_ws w r)"
| "conn_UserID w (WtConn r) = wt_UserID (w_wt w r)"

fun conn_SetUserID :: "string \<Rightarrow> conn \<Rightarrow> world \<Rightarrow> world" where
  "conn_SetUserID u (WsConn r) w = w\<lparr>w_ws := (w_ws w)(r := ws_SetUserID u (w_ws w r))\<rparr>"
| "conn_SetUserID u (WtConn r) w = w\<lparr>w_wt := (w_wt w)(r := wt_SetUserID u (w_wt w r))\<rparr>"

fun conn_Metadata :: "(string \<times> any) range_order \<Rightarrow> world \<Rightarrow> conn \<Rightarrow> (string, any) gomap" where
  "conn_Metadata ord w (WsConn r) = ws_Metadata ord (w_ws w r)"
| "conn_Metadata ord w (WtConn r) = wt_Metadata ord (w_wt w r)"

fun conn_SetMetadata :: "string \<Rightarrow> any \<Rightarrow> conn \<Rightarrow> world \<Rightarrow> world" where
  "conn_SetMetadata k v (WsConn r) w = w\<lparr>w_ws := (w_ws w)(r := ws_SetMetadata k v (w_ws w r))\<rparr>"
| "conn_SetMetadata k v (WtConn r) w = w\<lparr>w_wt := (w_wt w)(r := wt_SetMetadata k v (w_wt w r))\<rparr>"

definition ws_send_at ::
  "nat \<Rightarrow> bytes \<Rightarrow> nat \<Rightarrow> (nat \<Rightarrow> ws_connection) \<Rightarrow> ((nat \<Rightarrow> ws_connection) \<times> go_error option) outcome" where
  "ws_send_at choice msg r h =
     bind_outcome (ws_Send choice context_Background msg (h r)) (\<lambda>(c, err). Return (h(r := c), err))"

definition wt_send_at ::
  "nat \<Rightarrow> bytes \<Rightarrow> nat \<Rightarrow> (nat \<Rightarrow> wt_connection) \<Rightarrow> ((nat \<Rightarrow> wt_connection) \<times> go_error option) outcome" where
  "wt_send_at choice msg r h =
     bind_outcome (wt_Send choice context_Background msg (h r)) (\<lambda>(c, err). Return (h(r := c), err))"

fun conn_send_at :: "nat \<Rightarrow> bytes \<Rightarrow> conn \<Rightarrow> world \<Rightarrow> (world \<times> go_error option) outcome" where
  "conn_send_at choice msg (WsConn r) w =
     bind_outcome (ws_send_at choice msg r (w_ws w)) (\<lambda>(h, err). Return (w\<lparr>w_ws := h\<rparr>, err))"
| "conn_send_at choice msg (WtConn r) w =
     bind_outcome (wt_send_at choice msg r (w_wt w)) (\<lambda>(h, err). Return (w\<lparr>w_wt := h\<rparr>, err))"

fun conn_Close :: "ws_io \<Rightarrow> wt_io \<Rightarrow> conn \<Rightarrow> world \<Rightarrow> (world \<times> go_error option) outcome" where
  "conn_Close wsio wtio (WsConn r) w =
     bind_outcome (ws_Close wsio (w_ws w r)) (\<lambda>(c, err). Return (w\<lparr>w_ws := (w_ws w)(r := c)\<rparr>, err))"
| "conn_Close wsio wtio (WtConn r) w =
     bind_outcome (wt_Close wtio (w_wt w r)) (\<lambda>(c, err). Return (w\<lparr>w_wt := (w_wt w)(r := c)\<rparr>, err))"

fun conn_closed :: "world \<Rightarrow> conn \<Rightarrow> bool" where
  "conn_closed w (WsConn r) = wsc_done (w_ws w r)"
| "conn_closed w (WtConn r) = wtc_done (w_wt w r)"

fun conn_queue :: "world \<Rightarrow> conn \<Rightarrow> bytes list" where
  "conn_queue w (WsConn r) = wsc_send (w_ws w r)"
| "conn_queue w (WtConn r) = wtc_send (w_wt w r)"

text \<open>
  The loop of \<^verbatim>\<open>Broadcast\<close>, \<^verbatim>\<open>BroadcastTo\<close> and \<^verbatim>\<open>SendTo\<close> of every server: send to each connection
  in turn and remember the last error.
\<close>

fun send_loop ::
  "(nat \<Rightarrow> 'r \<Rightarrow> 'h \<Rightarrow> ('h \<times> go_error option) outcome) \<Rightarrow> 'r list \<Rightarrow> 'h \<Rightarrow> go_error option \<Rightarrow>
     ('h \<times> go_error option) outcome" where
  "send_loop send [] h lastErr = Return (h, lastErr)"
| "send_loop send (r # rs) h lastErr =
     bind_outcome (send (length rs) r h)
       (\<lambda>(h', err). send_loop send rs h' (case err of None \<Rightarrow> lastErr | Some e \<Rightarrow> Some e))"

section \<open>Calls on a connection, in sequence\<close>

datatype conn_op =
    OpSetUserID string
  | OpSetMetadata string any
  | OpSend nat go_context bytes
  | OpClose
  | OpCloseWithError "go_error option"
  | OpSetResponseStream "nat option"

fun ws_step :: "ws_io \<Rightarrow> conn_op \<Rightarrow> ws_connection \<Rightarrow> ws_connection outcome" where
  "ws_step io (OpSetUserID u) c = Return (ws_SetUserID u c)"
| "ws_step io (OpSetMetadata k v) c = Return (ws_SetMetadata k v c)"
| "ws_step io (OpSend ch ctx msg) c = bind_outcome (ws_Send ch ctx msg c) (\<lambda>(c', _). Return c')"
| "ws_step io OpClose c = bind_outcome (ws_Close io c) (\<lambda>(c', _). Return c')"
| "ws_step io (OpCloseWithError err) c = ws_CloseWithError io err c"
| "ws_step io (OpSetResponseStream s) c = Return c"

fun wt_step :: "wt_io \<Rightarrow> conn_op \<Rightarrow> wt_connection \<Rightarrow> wt_connection outcome" where
  "wt_step io (OpSetUserID u) c = Return (wt_SetUserID u c)"
| "wt_step io (OpSetMetadata k v) c = Return (wt_SetMetadata k v c)"
| "wt_step io (OpSend ch ctx msg) c = bind_outcome (wt_Send ch ctx msg c) (\<lambda>(c', _). Return c')"
| "wt_step io OpClose c = bind_outcome (wt_Close io c) (\<lambda>(c', _). Return c')"
| "wt_step io (OpCloseWithError err) c = wt_CloseWithError io err c"
| "wt_step io (OpSetResponseStream s) c = wt_SetResponseStream s c"

fun run_ops :: "(conn_op \<Rightarrow> 'c \<Rightarrow> 'c outcome) \<Rightarrow> conn_op list \<Rightarrow> 'c \<Rightarrow> 'c outcome" where
  "run_ops step [] c = Return c"
| "run_ops step (x # xs) c = bind_outcome (step x c) (run_ops step xs)"

text \<open>The invariants of the two objects.\<close>

definition ws_conn_ok :: "ws_connection \<Rightarrow> bool" where
  "ws_conn_ok c \<longleftrightarrow>
     wsc_once c = wsc_done c \<and> length (wsc_send c) \<le> send_capacity \<and>
     count_list (wsc_conn c) CloseSocket = (if wsc_done c then 1 else 0)"

definition wt_conn_ok :: "wt_connection \<Rightarrow> bool" where
  "wt_conn_ok c \<longleftrightarrow>
     wtc_once c = wtc_done c \<and> length (wtc_send c) \<le> send_capacity \<and>
     count_list (wtc_session c) (CloseSession 0 []) = (if wtc_done c then 1 else 0) \<and>
     wtc_streamReady c = (wtc_responseStream c \<noteq> None)"

text \<open>Calls that respect the preconditions of the library: the errors passed to
  \<^verbatim>\<open>CloseWithError\<close> are not nil and have one dynamic type \<open>t\<close>, stream pointers are not nil.\<close>

fun op_ok :: "string \<Rightarrow> conn_op \<Rightarrow> bool" where
  "op_ok t (OpCloseWithError (Some e)) = (error_type e = t)"
| "op_ok t (OpCloseWithError None) = False"
| "op_ok t (OpSetResponseStream s) = (s \<noteq> None)"
| "op_ok t _ = True"

lemma send_loop_ConsE:
  assumes "send_loop send (r # rs) h e = Return (h', err)"
  obtains h1 e1 where "send (length rs) r h = Return (h1, e1)"
    and "send_loop send rs h1 (case e1 of None \<Rightarrow> e | Some x \<Rightarrow> Some x) = Return (h', err)"
  using assms by auto

section \<open>The outbox interface\<close>

text \<open>
  What the servers rely on when they send to connections \<open>'r\<close> held in a heap \<open>'h\<close>: a send to
  an open connection queues the message or blocks if the queue is full; a send to a closed
  one returns at once, either with the transport's error or, when there is room and the select
  statement picks that case, after queueing the message; no send touches another connection.
\<close>

locale outbox =
  fixes queue :: "'h \<Rightarrow> 'r \<Rightarrow> bytes list"
    and closed :: "'h \<Rightarrow> 'r \<Rightarrow> bool"
    and send :: "nat \<Rightarrow> bytes \<Rightarrow> 'r \<Rightarrow> 'h \<Rightarrow> ('h \<times> go_error option) outcome"
    and closed_error :: "'r \<Rightarrow> go_error"
  assumes send_blocks: "send ch msg r h = Blocks \<longleftrightarrow> \<not> closed h r \<and> send_capacity \<le> length (queue h r)"
    and send_no_panic: "send ch msg r h \<noteq> Panics"
    and send_ok: "send ch msg r h = Return (h', None) \<Longrightarrow> queue h' r = queue h r @ [msg]"
    and send_err: "send ch msg r h = Return (h', Some e) \<Longrightarrow> closed h r \<and> e = closed_error r \<and> h' = h"
    and send_other: "send ch msg r h = Return (h', err) \<Longrightarrow> r' \<noteq> r \<Longrightarrow> queue h' r' = queue h r'"
    and send_closed: "send ch msg r h = Return (h', err) \<Longrightarrow> closed h' = closed h"
begin

abbreviation loop :: "(nat \<Rightarrow> nat) \<Rightarrow> bytes \<Rightarrow> 'r list \<Rightarrow> 'h \<Rightarrow> go_error option \<Rightarrow> ('h \<times> go_error option) outcome" where
  "loop ch msg \<equiv> send_loop (\<lambda>i. send (ch i) msg)"

lemma send_open: "send ch msg r h = Return (h', err) \<Longrightarrow> \<not> closed h r \<Longrightarrow> err = None"
  using send_err by (cases err) auto

lemma loop_no_panic: "loop ch msg rs h e \<noteq> Panics"
  by (induction rs arbitrary: h e) (auto simp: send_no_panic)

lemma loop_returns_iff:
  "distinct rs \<Longrightarrow>
     returns (loop ch msg rs h e) \<longleftrightarrow> (\<forall>r \<in> set rs. closed h r \<or> length (queue h r) < send_capacity)"
proof (induction rs arbitrary: h e)
  case Nil
  then show ?case by simp
next
  case (Cons r rs)
  show ?case
  proof (cases "send (ch (length rs)) msg r h")
    case (Return p)
    obtain h' err where p: "p = (h', err)" by (cases p)
    have s: "send (ch (length rs)) msg r h = Return (h', err)" using Return p by simp
    then have "closed h r \<or> length (queue h r) < send_capacity"
      using send_blocks [of "ch (length rs)" msg r h] by auto
    moreover have "\<forall>r' \<in> set rs. queue h' r' = queue h r' \<and> closed h' r' = closed h r'"
      using Cons.prems send_other [OF s] send_closed [OF s] by (metis distinct.simps(2))
    ultimately show ?thesis
      using Cons.IH [of h'] Cons.prems Return p by simp
  next
    case Panics
    then show ?thesis using send_no_panic by simp
  next
    case Blocks
    then show ?thesis using send_blocks [of "ch (length rs)" msg r h] by auto
  qed
qed

lemma loop_closed: "loop ch msg rs h e = Return (h', err) \<Longrightarrow> closed h' = closed h"
proof (induction rs arbitrary: h e)
  case Nil
  then show ?case by simp
next
  case (Cons r rs)
  from Cons.prems(1) obtain h1 e1 where s: "send (ch (length rs)) msg r h = Return (h1, e1)"
    and l: "loop ch msg rs h1 (case e1 of None \<Rightarrow> e | Some x \<Rightarrow> Some x) = Return (h', err)"
    by (rule send_loop_ConsE)
  show ?case using Cons.IH [OF l] send_closed [OF s] by simp
qed

lemma loop_other:
  "loop ch msg rs h e = Return (h', err) \<Longrightarrow> r \<notin> set rs \<Longrightarrow> queue h' r = queue h r"
proof (induction rs arbitrary: h e)
  case Nil
  then show ?case by simp
next
  case (Cons r0 rs)
  from Cons.prems(1) obtain h1 e1 where s: "send (ch (length rs)) msg r0 h = Return (h1, e1)"
    and l: "loop ch msg rs h1 (case e1 of None \<Rightarrow> e | Some x \<Rightarrow> Some x) = Return (h', err)"
    by (rule send_loop_ConsE)
  show ?case using Cons.IH [OF l] Cons.prems send_other [OF s] by auto
qed

lemma loop_keeps_error: "loop ch msg rs h e = Return (h', err) \<Longrightarrow> e \<noteq> None \<Longrightarrow> err \<noteq> None"
proof (induction rs arbitrary: h e)
  case Nil
  then show ?case by simp
next
  case (Cons r rs)
  then obtain h1 e1 where
    l: "loop ch msg rs h1 (case e1 of None \<Rightarrow> e | Some x \<Rightarrow> Some x) = Return (h', err)"
    by auto
  show ?case using Cons.IH [OF l] Cons.prems(2) by (simp split: option.splits)
qed

text \<open>An error is the error of a closed connection of the list.\<close>

lemma loop_error:
  "loop ch msg rs h e = Return (h', Some x) \<Longrightarrow>
     e = Some x \<or> (\<exists>r \<in> set rs. closed h r \<and> x = closed_error r)"
proof (induction rs arbitrary: h e)
  case Nil
  then show ?case by simp
next
  case (Cons r rs)
  from Cons.prems(1) obtain h1 e1 where s: "send (ch (length rs)) msg r h = Return (h1, e1)"
    and l: "loop ch msg rs h1 (case e1 of None \<Rightarrow> e | Some y \<Rightarrow> Some y) = Return (h', Some x)"
    by (rule send_loop_ConsE)
  show ?case
    using Cons.IH [OF l] send_closed [OF s] s send_err [of "ch (length rs)" msg r h h1]
    by (cases e1) auto
qed

text \<open>Every connection of the list gets the message once, except that a closed one may not get it.\<close>

lemma loop_delivers:
  "loop ch msg rs h e = Return (h', err) \<Longrightarrow> distinct rs \<Longrightarrow> r \<in> set rs \<Longrightarrow>
     queue h' r = queue h r @ [msg] \<or> closed h r \<and> queue h' r = queue h r \<and> err \<noteq> None"
proof (induction rs arbitrary: h e)
  case Nil
  then show ?case by simp
next
  case (Cons r0 rs)
  from Cons.prems(1) obtain h1 e1 where s: "send (ch (length rs)) msg r0 h = Return (h1, e1)"
    and l: "loop ch msg rs h1 (case e1 of None \<Rightarrow> e | Some x \<Rightarrow> Some x) = Return (h', err)"
    by (rule send_loop_ConsE)
  show ?case
  proof (cases "r = r0")
    case True
    have "queue h' r0 = queue h1 r0" using loop_other [OF l] Cons.prems(2) by simp
    moreover have "e1 \<noteq> None \<Longrightarrow> err \<noteq> None" using l loop_keeps_error by fastforce
    ultimately show ?thesis
      using True s send_ok [of "ch (length rs)" msg r0 h h1] send_err [of "ch (length rs)" msg r0 h h1]
      by (cases e1) auto
  next
    case False
    then show ?thesis
      using Cons.IH [OF l] Cons.prems send_other [OF s False] send_closed [OF s] by auto
  qed
qed

end

section \<open>Lemmas on the two implementations\<close>

lemma send_ready_iff:
  "CtxDone \<in> set (send_ready ctx d q) \<longleftrightarrow> ctx \<noteq> None"
  "ConnDone \<in> set (send_ready ctx d q) \<longleftrightarrow> d"
  "Enqueue \<in> set (send_ready ctx d q) \<longleftrightarrow> length q < send_capacity"
  "send_ready ctx d q = [] \<longleftrightarrow> ctx = None \<and> \<not> d \<and> send_capacity \<le> length q"
  by (auto simp: send_ready_def)

lemma ws_Send_Blocks_iff:
  "ws_Send ch ctx msg c = Blocks \<longleftrightarrow> ctx = None \<and> \<not> wsc_done c \<and> send_capacity \<le> length (wsc_send c)"
proof -
  have "ws_Send ch ctx msg c = Blocks \<longleftrightarrow> go_select ch (send_ready ctx (wsc_done c) (wsc_send c)) = None"
    by (simp add: ws_Send_def del: go_select_None split: option.split send_case.split)
  then show ?thesis by (simp add: send_ready_iff)
qed

lemma wt_Send_Blocks_iff:
  "wt_Send ch ctx msg c = Blocks \<longleftrightarrow> ctx = None \<and> \<not> wtc_done c \<and> send_capacity \<le> length (wtc_send c)"
proof -
  have "wt_Send ch ctx msg c = Blocks \<longleftrightarrow> go_select ch (send_ready ctx (wtc_done c) (wtc_send c)) = None"
    by (simp add: wt_Send_def del: go_select_None split: option.split send_case.split)
  then show ?thesis by (simp add: send_ready_iff)
qed

lemma ws_Send_no_panic [simp]: "ws_Send ch ctx msg c \<noteq> Panics"
  by (simp add: ws_Send_def split: option.splits send_case.splits)

lemma wt_Send_no_panic [simp]: "wt_Send ch ctx msg c \<noteq> Panics"
  by (simp add: wt_Send_def split: option.splits send_case.splits)

text \<open>The three ways in which a send returns.\<close>

lemma ws_Send_ReturnE:
  assumes "ws_Send ch ctx msg c = Return (c', err)"
  obtains (queued) "length (wsc_send c) < send_capacity" "err = None"
      "c' = c\<lparr>wsc_send := wsc_send c @ [msg]\<rparr>"
    | (cancelled) "ctx \<noteq> None" "err = ctx" "c' = c"
    | (down) "wsc_done c" "err = Some ErrCloseSent" "c' = c"
proof (cases "go_select ch (send_ready ctx (wsc_done c) (wsc_send c))")
  case None
  then show ?thesis using assms by (simp add: ws_Send_def del: go_select_None)
next
  case (Some x)
  note ready = go_select_in [OF Some]
  show ?thesis
  proof (cases x)
    case CtxDone
    with assms Some ready show ?thesis by (intro cancelled) (auto simp: ws_Send_def send_ready_iff)
  next
    case ConnDone
    with assms Some ready show ?thesis by (intro down) (auto simp: ws_Send_def send_ready_iff)
  next
    case Enqueue
    with assms Some ready show ?thesis by (intro queued) (auto simp: ws_Send_def send_ready_iff)
  qed
qed

lemma wt_Send_ReturnE:
  assumes "wt_Send ch ctx msg c = Return (c', err)"
  obtains (queued) "length (wtc_send c) < send_capacity" "err = None"
      "c' = c\<lparr>wtc_send := wtc_send c @ [msg]\<rparr>"
    | (cancelled) "ctx \<noteq> None" "err = ctx" "c' = c"
    | (down) "wtc_done c" "err = Some ErrConnectionClosed" "c' = c"
proof (cases "go_select ch (send_ready ctx (wtc_done c) (wtc_send c))")
  case None
  then show ?thesis using assms by (simp add: wt_Send_def del: go_select_None)
next
  case (Some x)
  note ready = go_select_in [OF Some]
  show ?thesis
  proof (cases x)
    case CtxDone
    with assms Some ready show ?thesis by (intro cancelled) (auto simp: wt_Send_def send_ready_iff)
  next
    case ConnDone
    with assms Some ready show ?thesis by (intro down) (auto simp: wt_Send_def send_ready_iff)
  next
    case Enqueue
    with assms Some ready show ?thesis by (intro queued) (auto simp: wt_Send_def send_ready_iff)
  qed
qed

interpretation ws_out: outbox "\<lambda>h r. wsc_send (h r)" "\<lambda>h r. wsc_done (h r)" ws_send_at "\<lambda>_. ErrCloseSent"
  by unfold_locales
    (auto simp: ws_send_at_def context_Background_def ws_Send_Blocks_iff elim!: ws_Send_ReturnE)

interpretation wt_out: outbox "\<lambda>h r. wtc_send (h r)" "\<lambda>h r. wtc_done (h r)" wt_send_at "\<lambda>_. ErrConnectionClosed"
  by unfold_locales
    (auto simp: wt_send_at_def context_Background_def wt_Send_Blocks_iff elim!: wt_Send_ReturnE)

text \<open>The error with which a closed connection of either transport refuses a message.\<close>

fun conn_closed_error :: "conn \<Rightarrow> go_error" where
  "conn_closed_error (WsConn r) = ErrCloseSent"
| "conn_closed_error (WtConn r) = ErrConnectionClosed"

lemma conn_closed_ws_update [simp]:
  "(\<And>r. wsc_done (h r) = wsc_done (w_ws w r)) \<Longrightarrow> conn_closed (w\<lparr>w_ws := h\<rparr>) = conn_closed w"
  by (rule ext, case_tac x) simp_all

lemma conn_closed_wt_update [simp]:
  "(\<And>r. wtc_done (h r) = wtc_done (w_wt w r)) \<Longrightarrow> conn_closed (w\<lparr>w_wt := h\<rparr>) = conn_closed w"
  by (rule ext, case_tac x) simp_all

interpretation conn_out: outbox conn_queue conn_closed conn_send_at conn_closed_error
proof unfold_locales
  fix ch msg w r
  show "conn_send_at ch msg r w = Blocks \<longleftrightarrow> \<not> conn_closed w r \<and> send_capacity \<le> length (conn_queue w r)"
    by (cases r) (auto simp: ws_out.send_blocks wt_out.send_blocks)
next
  fix ch msg w r
  show "conn_send_at ch msg r w \<noteq> Panics"
    by (cases r) (auto simp: ws_out.send_no_panic wt_out.send_no_panic)
next
  fix ch msg r w w'
  assume "conn_send_at ch msg r w = Return (w', None)"
  then show "conn_queue w' r = conn_queue w r @ [msg]"
    by (cases r) (auto dest: ws_out.send_ok wt_out.send_ok)
next
  fix ch msg r w w' e
  assume "conn_send_at ch msg r w = Return (w', Some e)"
  then show "conn_closed w r \<and> e = conn_closed_error r \<and> w' = w"
    by (cases r) (auto dest: ws_out.send_err wt_out.send_err)
next
  fix ch msg r w w' err r'
  assume "conn_send_at ch msg r w = Return (w', err)" and "r' \<noteq> r"
  then show "conn_queue w' r' = conn_queue w r'"
    by (cases r; cases r') (auto dest: ws_out.send_other wt_out.send_other)
next
  fix ch msg r w w' err
  assume "conn_send_at ch msg r w = Return (w', err)"
  then show "conn_closed w' = conn_closed w"
    by (cases r) (auto dest!: ws_out.send_closed wt_out.send_closed simp: fun_eq_iff [of "\<lambda>r. wsc_done (_ r)"]
        fun_eq_iff [of "\<lambda>r. wtc_done (_ r)"])
qed

lemma ws_Close_eq:
  "ws_conn_ok c \<Longrightarrow>
     ws_Close io c =
       (if wsc_done c then Return (c, None)
        else let calls = wsc_conn c @ [WriteMessage CloseMessage (ClosePayload CloseNormalClosure [])]
             in Return (c\<lparr>wsc_once := True, wsc_done := True, wsc_conn := calls @ [CloseSocket]\<rparr>,
                        io calls CloseSocket))"
  by (simp add: ws_Close_def ws_call_def ws_conn_ok_def Let_def)

lemma wt_Close_eq:
  "wt_conn_ok c \<Longrightarrow>
     wt_Close io c =
       (if wtc_done c then Return (c, None)
        else Return (c\<lparr>wtc_once := True, wtc_done := True,
                       wtc_session := wtc_session c @ [CloseSession 0 []]\<rparr>,
                     io (wtc_session c) (CloseSession 0 [])))"
  by (simp add: wt_Close_def wt_call_def wt_conn_ok_def Let_def)

lemma ws_conn_ok_closeErr [simp]: "ws_conn_ok (c\<lparr>wsc_closeErr := e\<rparr>) = ws_conn_ok c"
  by (simp add: ws_conn_ok_def)

lemma wt_conn_ok_closeErr [simp]: "wt_conn_ok (c\<lparr>wtc_closeErr := e\<rparr>) = wt_conn_ok c"
  by (simp add: wt_conn_ok_def)

lemma ws_conn_ok_Close: "ws_conn_ok c \<Longrightarrow> ws_Close io c = Return (c', err) \<Longrightarrow> ws_conn_ok c' \<and> wsc_done c'"
  by (auto simp: ws_Close_eq Let_def split: if_splits) (simp add: ws_conn_ok_def)

lemma wt_conn_ok_Close: "wt_conn_ok c \<Longrightarrow> wt_Close io c = Return (c', err) \<Longrightarrow> wt_conn_ok c' \<and> wtc_done c'"
  by (auto simp: wt_Close_eq split: if_splits) (simp add: wt_conn_ok_def)

lemma ws_conn_ok_CloseWithError:
  "ws_conn_ok c \<Longrightarrow> ws_CloseWithError io err c = Return c' \<Longrightarrow> ws_conn_ok c' \<and> wsc_done c'"
  by (auto simp: ws_CloseWithError_def dest: ws_conn_ok_Close [rotated])

lemma wt_conn_ok_CloseWithError:
  "wt_conn_ok c \<Longrightarrow> wt_CloseWithError io err c = Return c' \<Longrightarrow> wt_conn_ok c' \<and> wtc_done c'"
  by (auto simp: wt_CloseWithError_def dest: wt_conn_ok_Close [rotated])

lemma ws_conn_ok_step:
  assumes "ws_conn_ok c" and "ws_step io x c = Return c'"
  shows "ws_conn_ok c'"
proof (cases x)
  case (OpSend ch ctx msg)
  with assms show ?thesis by (auto simp: ws_conn_ok_def elim!: ws_Send_ReturnE)
next
  case OpClose
  with assms show ?thesis by (auto dest: ws_conn_ok_Close)
next
  case (OpCloseWithError err)
  with assms show ?thesis by (auto dest: ws_conn_ok_CloseWithError)
qed (use assms in \<open>auto simp: ws_conn_ok_def ws_SetUserID_def ws_SetMetadata_def\<close>)

lemma wt_conn_ok_step:
  assumes "wt_conn_ok c" and "wt_step io x c = Return c'" and "op_ok t x"
  shows "wt_conn_ok c'"
proof (cases x)
  case (OpSend ch ctx msg)
  with assms show ?thesis by (auto simp: wt_conn_ok_def elim!: wt_Send_ReturnE)
next
  case OpClose
  with assms show ?thesis by (auto dest: wt_conn_ok_Close)
next
  case (OpCloseWithError err)
  with assms show ?thesis by (auto dest: wt_conn_ok_CloseWithError)
next
  case (OpSetResponseStream s)
  with assms show ?thesis
    by (auto simp: wt_conn_ok_def wt_SetResponseStream_def Let_def split: if_splits)
qed (use assms in \<open>auto simp: wt_conn_ok_def wt_SetUserID_def wt_SetMetadata_def\<close>)

text \<open>Errors stored so far have the dynamic type \<open>t\<close>.\<close>

definition errors_typed :: "string \<Rightarrow> go_error option \<Rightarrow> bool" where
  "errors_typed t stored \<longleftrightarrow> (\<forall>e. stored = Some e \<longrightarrow> error_type e = t)"

lemma store_error_typed:
  "errors_typed t old \<Longrightarrow> error_type e = t \<Longrightarrow> store_error old (Some e) = Return (Some e)"
  by (auto simp: store_error_def errors_typed_def split: option.splits)

lemma ws_Close_safe:
  assumes "ws_conn_ok c"
  obtains c' err where "ws_Close io c = Return (c', err)" and "wsc_closeErr c' = wsc_closeErr c"
proof -
  have "\<exists>c' err. ws_Close io c = Return (c', err) \<and> wsc_closeErr c' = wsc_closeErr c"
    using assms by (simp add: ws_Close_eq Let_def)
  then show ?thesis using that by blast
qed

lemma ws_step_typed:
  assumes ok: "ws_conn_ok c" and x: "op_ok t x" and typed: "errors_typed t (wsc_closeErr c)"
  shows "ws_step io x c \<noteq> Panics \<and> (\<forall>c'. ws_step io x c = Return c' \<longrightarrow> errors_typed t (wsc_closeErr c'))"
proof (cases x)
  case (OpSend ch ctx msg)
  with typed show ?thesis by (auto elim!: ws_Send_ReturnE)
next
  case OpClose
  obtain c1 err where "ws_Close io c = Return (c1, err)" and "wsc_closeErr c1 = wsc_closeErr c"
    using ws_Close_safe [OF ok] .
  with OpClose typed show ?thesis by simp
next
  case (OpCloseWithError err)
  then obtain e where e: "err = Some e" and t: "error_type e = t"
    using x by (cases err) auto
  have "ws_conn_ok (c\<lparr>wsc_closeErr := Some e\<rparr>)" using ok by simp
  then obtain c1 err1 where "ws_Close io (c\<lparr>wsc_closeErr := Some e\<rparr>) = Return (c1, err1)"
    and "wsc_closeErr c1 = Some e"
    by (rule ws_Close_safe [of _ io]) simp
  with OpCloseWithError e t typed show ?thesis
    by (simp add: ws_CloseWithError_def store_error_typed) (simp add: errors_typed_def)
qed (use typed in \<open>simp_all add: ws_SetUserID_def ws_SetMetadata_def\<close>)

lemma wt_Close_safe:
  assumes "wt_conn_ok c"
  obtains c' err where "wt_Close io c = Return (c', err)" and "wtc_closeErr c' = wtc_closeErr c"
proof -
  have "\<exists>c' err. wt_Close io c = Return (c', err) \<and> wtc_closeErr c' = wtc_closeErr c"
    using assms by (simp add: wt_Close_eq Let_def)
  then show ?thesis using that by blast
qed

lemma wt_step_typed:
  assumes ok: "wt_conn_ok c" and x: "op_ok t x" and typed: "errors_typed t (wtc_closeErr c)"
  shows "wt_step io x c \<noteq> Panics \<and> (\<forall>c'. wt_step io x c = Return c' \<longrightarrow> errors_typed t (wtc_closeErr c'))"
proof (cases x)
  case (OpSend ch ctx msg)
  with typed show ?thesis by (auto elim!: wt_Send_ReturnE)
next
  case OpClose
  obtain c1 err where "wt_Close io c = Return (c1, err)" and "wtc_closeErr c1 = wtc_closeErr c"
    using wt_Close_safe [OF ok] .
  with OpClose typed show ?thesis by simp
next
  case (OpCloseWithError err)
  then obtain e where e: "err = Some e" and t: "error_type e = t"
    using x by (cases err) auto
  have "wt_conn_ok (c\<lparr>wtc_closeErr := Some e\<rparr>)" using ok by simp
  then obtain c1 err1 where "wt_Close io (c\<lparr>wtc_closeErr := Some e\<rparr>) = Return (c1, err1)"
    and "wtc_closeErr c1 = Some e"
    by (rule wt_Close_safe [of _ io]) simp
  with OpCloseWithError e t typed show ?thesis
    by (simp add: wt_CloseWithError_def store_error_typed) (simp add: errors_typed_def)
next
  case (OpSetResponseStream s)
  with ok typed show ?thesis by (simp add: wt_SetResponseStream_def wt_conn_ok_def Let_def)
qed (use typed in \<open>simp_all add: wt_SetUserID_def wt_SetMetadata_def\<close>)

text \<open>Sequences of calls: an invariant that every step keeps, and that excludes panics.\<close>

lemma run_ops_invariant:
  assumes step: "\<And>x c c'. I c \<Longrightarrow> P x \<Longrightarrow> step x c = Return c' \<Longrightarrow> I c'"
    and safe: "\<And>x c. I c \<Longrightarrow> P x \<Longrightarrow> step x c \<noteq> Panics"
  shows "I c \<Longrightarrow> list_all P xs \<Longrightarrow>
    run_ops step xs c \<noteq> Panics \<and> (\<forall>c'. run_ops step xs c = Return c' \<longrightarrow> I c')"
proof (induction xs arbitrary: c)
  case Nil
  then show ?case by simp
next
  case (Cons x xs)
  show ?case
  proof (cases "step x c")
    case (Return c1)
    then have "I c1" using Cons.prems step by auto
    then show ?thesis using Cons Return by simp
  next
    case Panics
    then show ?thesis using safe Cons.prems by auto
  next
    case Blocks
    then show ?thesis by simp
  qed
qed

lemma ws_conn_ok_New: "CloseSocket \<notin> set calls \<Longrightarrow> ws_conn_ok (ws_NewConnection i calls t)"
  by (simp add: ws_conn_ok_def ws_NewConnection_def count_list_0_iff)

lemma wt_conn_ok_New: "CloseSession 0 [] \<notin> set calls \<Longrightarrow> wt_conn_ok (wt_NewConnection i calls t)"
  by (simp add: wt_conn_ok_def wt_NewConnection_def count_list_0_iff)

text \<open>The user ID through the interface.\<close>

lemma conn_ID_SetUserID [simp]: "conn_ID (conn_SetUserID u c w) = conn_ID w"
proof
  fix d
  show "conn_ID (conn_SetUserID u c w) d = conn_ID w d"
    by (cases c; cases d) (simp_all add: ws_SetUserID_def wt_SetUserID_def)
qed

lemma conn_UserID_SetUserID [simp]: "conn_UserID (conn_SetUserID u c w) = (conn_UserID w)(c := u)"
proof
  fix d
  show "conn_UserID (conn_SetUserID u c w) d = ((conn_UserID w)(c := u)) d"
    by (cases c; cases d)
      (simp_all add: ws_SetUserID_def wt_SetUserID_def ws_UserID_def wt_UserID_def)
qed

section \<open>Properties\<close>



text \<open>
  WebTransport connections never panic. The same for sequences that also set the response
  stream (to a stream that is not nil): no panic, the session is closed exactly once if the
  connection is closed, and the channel that wakes the write pump is closed if and only if a
  response stream is set.
\<close>

lemma wt_connection_safe:
  assumes "CloseSession 0 [] \<notin> set calls" and "list_all (op_ok t) ops"
  shows "run_ops (wt_step io) ops (wt_NewConnection cid calls timeout) \<noteq> Panics \<and>
    (\<forall>c. run_ops (wt_step io) ops (wt_NewConnection cid calls timeout) = Return c \<longrightarrow>
       length (wtc_send c) \<le> 256 \<and>
       count_list (wtc_session c) (CloseSession 0 []) = (if wtc_done c then 1 else 0) \<and>
       wtc_streamReady c = (wtc_responseStream c \<noteq> None))"
proof -
  let ?I = "\<lambda>c. wt_conn_ok c \<and> errors_typed t (wtc_closeErr c)"
  have "run_ops (wt_step io) ops (wt_NewConnection cid calls timeout) \<noteq> Panics \<and>
      (\<forall>c. run_ops (wt_step io) ops (wt_NewConnection cid calls timeout) = Return c \<longrightarrow> ?I c)"
  proof (rule run_ops_invariant [where P = "op_ok t"])
    show "?I (wt_NewConnection cid calls timeout)"
      using wt_conn_ok_New [OF assms(1)] by (simp add: errors_typed_def wt_NewConnection_def)
  qed (use assms(2) wt_conn_ok_step wt_step_typed in blast)+
  then show ?thesis by (auto simp: wt_conn_ok_def send_capacity_def)
qed

text \<open>
  Mixed error types crash CloseWithError. On either transport a second CloseWithError with
  an error of another dynamic type, and any CloseWithError with a nil error, panics, because the
  error is kept in an atomic.Value.
\<close>

lemma close_with_error_panics:
  assumes "error_type e1 \<noteq> error_type e2"
  shows "run_ops (ws_step wsio) [OpCloseWithError (Some e1), OpCloseWithError (Some e2)]
           (ws_NewConnection cid [] timeout) = Panics \<and>
         run_ops (wt_step wtio) [OpCloseWithError (Some e1), OpCloseWithError (Some e2)]
           (wt_NewConnection cid [] timeout) = Panics \<and>
         ws_CloseWithError wsio None c = Panics \<and> wt_CloseWithError wtio None d = Panics"
  using assms
  by (simp add: ws_CloseWithError_def wt_CloseWithError_def store_error_def ws_Close_def
      wt_Close_def ws_NewConnection_def wt_NewConnection_def ws_call_def wt_call_def Let_def)

text \<open>
  Sending to a closed connection. Once a WebSocket connection is closed, Send with a live
  context never blocks and never panics. With a full queue it reports ErrCloseSent; with room in
  the queue the select statement may as well queue the message and report success, although
  nothing will write it: both outcomes are possible.
\<close>

lemma ws_send_after_close:
  assumes "wsc_done c"
  shows "if length (wsc_send c) < 256
    then (\<exists>ch. ws_Send ch None msg c = Return (c\<lparr>wsc_send := wsc_send c @ [msg]\<rparr>, None)) \<and>
         (\<exists>ch. ws_Send ch None msg c = Return (c, Some ErrCloseSent)) \<and>
         (\<forall>ch. returns (ws_Send ch None msg c))
    else (\<forall>ch. ws_Send ch None msg c = Return (c, Some ErrCloseSent))"
proof (cases "length (wsc_send c) < 256")
  case True
  have "ws_Send 1 None msg c = Return (c\<lparr>wsc_send := wsc_send c @ [msg]\<rparr>, None)"
    and "ws_Send 0 None msg c = Return (c, Some ErrCloseSent)"
    using assms True by (simp_all add: ws_Send_def send_ready_def go_select_def send_capacity_def)
  moreover have "returns (ws_Send ch None msg c)" for ch
    using assms ws_Send_Blocks_iff [of ch None msg c] by (cases "ws_Send ch None msg c") auto
  ultimately show ?thesis using True by auto
next
  case False
  then show ?thesis
    using assms by (simp add: ws_Send_def send_ready_def go_select_def send_capacity_def)
qed

text \<open>
  Metadata returns a copy. On either transport the map that Metadata returns has the
  content of the connection's metadata, in whatever order the entries are visited.
\<close>

lemma metadata_copy:
  assumes "order_ok ord" and "gomap_ok (wsc_metadata c)" and "gomap_ok (wtc_metadata d)"
  shows "map_of (ws_Metadata ord c) = map_of (wsc_metadata c) \<and>
         map_of (wt_Metadata ord d) = map_of (wtc_metadata d)"
  using assms by (simp_all add: ws_Metadata_def wt_Metadata_def map_of_copy)

end
