(* ===== verification/Registry.thy ===== *)
theory Registry
  imports Connection
begin

text \<open>
  The contract shared by the four places that keep track of connections: the hub and the
  WebSocket, WebTransport and hybrid servers. Each keeps a map from connection IDs to
  connections and a two-level map from user IDs, and offers register, unregister and bind.
  The locale states the laws on the abstract content of those maps; what follows from them for
  the life of a connection is proved here once and holds for every interpretation.

  The state \<open>'s\<close> includes the connection objects, because unregistering reads the user ID that
  the connection has at that moment.
\<close>

locale conn_registry =
  fixes ok :: "'s \<Rightarrow> bool"
    and conns :: "'s \<Rightarrow> string \<rightharpoonup> 'c"
    and users :: "'s \<Rightarrow> string \<Rightarrow> string \<rightharpoonup> 'c"
    and cid :: "'s \<Rightarrow> 'c \<Rightarrow> string"
    and uid :: "'s \<Rightarrow> 'c \<Rightarrow> string"
    and register :: "'c \<Rightarrow> 's \<Rightarrow> 's"
    and unregister :: "'c \<Rightarrow> 's \<Rightarrow> 's"
    and bind :: "'c \<Rightarrow> string \<Rightarrow> 's \<Rightarrow> 's"
  assumes register_ok: "ok s \<Longrightarrow> ok (register c s)"
    and register_conns: "ok s \<Longrightarrow> conns (register c s) = (conns s)(cid s c \<mapsto> c)"
    and register_users: "ok s \<Longrightarrow> users (register c s) = users s"
    and register_cid: "ok s \<Longrightarrow> cid (register c s) = cid s"
    and register_uid: "ok s \<Longrightarrow> uid (register c s) = uid s"
    and unregister_ok: "ok s \<Longrightarrow> ok (unregister c s)"
    and unregister_conns: "ok s \<Longrightarrow> conns (unregister c s) = (conns s)(cid s c := None)"
    and unregister_users: "ok s \<Longrightarrow> users (unregister c s) =
      (if uid s c = [] then users s
       else (users s)(uid s c := (users s (uid s c))(cid s c := None)))"
    and bind_ok: "ok s \<Longrightarrow> ok (bind c u s)"
    and bind_conns: "ok s \<Longrightarrow> conns (bind c u s) = conns s"
    and bind_users: "ok s \<Longrightarrow> users (bind c u s) = (users s)(u := (users s u)(cid s c \<mapsto> c))"
    and bind_cid: "ok s \<Longrightarrow> cid (bind c u s) = cid s"
    and bind_uid: "ok s \<Longrightarrow> uid (bind c u s) = (uid s)(c := u)"
begin

lemmas registry_laws = register_ok register_conns register_users register_cid register_uid
  unregister_ok unregister_conns unregister_users bind_ok bind_conns bind_users bind_cid bind_uid

text \<open>The life of an authenticated connection leaves no trace in the maps.\<close>

lemma session_restores:
  assumes "ok s" and "u \<noteq> []" and "conns s (cid s c) = None" and "users s u (cid s c) = None"
  shows "conns (unregister c (register c (bind c u s))) = conns s \<and>
         users (unregister c (register c (bind c u s))) = users s"
  using assms by (auto simp: registry_laws fun_eq_iff)

text \<open>So does the life of an anonymous one.\<close>

lemma anonymous_session_restores:
  assumes "ok s" and "uid s c = []" and "conns s (cid s c) = None"
  shows "conns (unregister c (register c s)) = conns s \<and>
         users (unregister c (register c s)) = users s"
  using assms by (auto simp: registry_laws fun_eq_iff)

text \<open>While it lasts, the connection is found under its ID and under its user.\<close>

lemma session_visible:
  assumes "ok s"
  shows "conns (register c (bind c u s)) (cid s c) = Some c \<and>
         users (register c (bind c u s)) u (cid s c) = Some c"
  using assms by (simp add: registry_laws)

text \<open>
  Unregistering removes the connection from one user only. A connection bound to a second
  user stays registered under the first for ever.
\<close>

lemma rebind_leaves_entry:
  assumes "ok s" and "u \<noteq> v" and "v \<noteq> []"
  shows "conns (unregister c (bind c v (register c (bind c u s)))) (cid s c) = None \<and>
         users (unregister c (bind c v (register c (bind c u s)))) u (cid s c) = Some c"
  using assms by (simp add: registry_laws)

end

end
