(* ===== verification/Delivery.thy ===== *)
theory Delivery
  imports Connection
begin

text \<open>
  Sending one message to the connections of several users. The WebSocket, WebTransport and
  hybrid servers contain the same loops over their two-level user maps; the loops are defined
  here over any way of sending, and what they deliver is proved once for every \<open>outbox\<close>.
\<close>

section \<open>Definitions\<close>

text \<open>The calls a server makes to the user's \<^verbatim>\<open>StatefulHandler\<close> for one connection.\<close>

datatype callback = OnConnect "go_error option" | OnMessage bytes | OnDisconnect go_error

text \<open>
  The loop of \<^verbatim>\<open>BroadcastTo\<close>: for each user in turn, send to each of the user's connections.
  The \<open>i\<close>-th user found is ranged over in the \<open>i\<close>-th order.
\<close>

fun send_users ::
  "(nat \<Rightarrow> nat \<Rightarrow> 'r \<Rightarrow> 'h \<Rightarrow> ('h \<times> go_error option) outcome) \<Rightarrow> (string \<times> 'r) range_order \<Rightarrow> nat \<Rightarrow>
     (string, string, 'r) nested \<Rightarrow> string list \<Rightarrow> 'h \<Rightarrow> go_error option \<Rightarrow> ('h \<times> go_error option) outcome" where
  "send_users send ord i uc [] h lastErr = Return (h, lastErr)"
| "send_users send ord i uc (uid # uids) h lastErr =
     (case map_of uc uid of
        None \<Rightarrow> send_users send ord (Suc i) uc uids h lastErr
      | Some conns \<Rightarrow>
          bind_outcome (send_loop (send i) (map snd (ord i conns)) h lastErr)
            (\<lambda>(h', err). send_users send ord (Suc i) uc uids h' err))"

text \<open>The loop of \<^verbatim>\<open>GetConnections\<close>: the connections of each user, in turn.\<close>

fun collect_users :: "(string \<times> 'r) range_order \<Rightarrow> nat \<Rightarrow> (string, string, 'r) nested \<Rightarrow> string list \<Rightarrow> 'r list" where
  "collect_users ord i uc [] = []"
| "collect_users ord i uc (uid # uids) =
     (case map_of uc uid of
        None \<Rightarrow> []
      | Some conns \<Rightarrow> map snd (ord i conns)) @ collect_users ord (Suc i) uc uids"

text \<open>\<^verbatim>\<open>GetConnection\<close>: the connection that the range statement visits first.\<close>

definition first_conn :: "(string \<times> 'r) range_order \<Rightarrow> (string, string, 'r) nested \<Rightarrow> string \<Rightarrow> 'r option" where
  "first_conn ord uc uid =
     (case map_of uc uid of
        None \<Rightarrow> None
      | Some conns \<Rightarrow>
          if length conns = 0 then None
          else (case ord 0 conns of [] \<Rightarrow> None | kc # _ \<Rightarrow> Some (snd kc)))"

text \<open>\<^verbatim>\<open>ForEachConnection\<close> and the loop inside \<^verbatim>\<open>ForEach\<close>: go on until the callback says stop.\<close>

fun foreach_conns :: "('r \<Rightarrow> 'a \<Rightarrow> 'a \<times> bool) \<Rightarrow> 'r list \<Rightarrow> 'a \<Rightarrow> 'a \<times> bool" where
  "foreach_conns fn [] a = (a, True)"
| "foreach_conns fn (c # cs) a = (case fn c a of (a', True) \<Rightarrow> foreach_conns fn cs a' | (a', False) \<Rightarrow> (a', False))"

section \<open>Lemmas\<close>

lemma foreach_conns_append:
  "foreach_conns fn (xs @ ys) a =
     (case foreach_conns fn xs a of (a', True) \<Rightarrow> foreach_conns fn ys a' | (a', False) \<Rightarrow> (a', False))"
  by (induction xs arbitrary: a) (auto split: prod.split bool.split)

lemma collect_users_set:
  "order_ok ord \<Longrightarrow> set (collect_users ord i uc uids) = (\<Union>u \<in> set uids. snd ` set (conns_of uc u))"
  by (induction uids arbitrary: i) (auto simp: conns_of_def order_ok_set split: option.splits)

text \<open>How often a connection is listed does not depend on the order of the range statements.\<close>

lemma collect_users_mset:
  "order_ok ord \<Longrightarrow>
     mset (collect_users ord i uc uids) = sum_list (map (\<lambda>u. image_mset snd (mset (conns_of uc u))) uids)"
proof (induction uids arbitrary: i)
  case Nil
  then show ?case by simp
next
  case (Cons u uids)
  then have "mset (ord j conns) = mset conns" for j conns by (simp add: order_ok_def)
  with Cons show ?case by (simp add: conns_of_def split: option.split)
qed

lemma first_conn_Some:
  assumes "order_ok ord" and "first_conn ord uc u = Some r"
  shows "r \<in> snd ` set (conns_of uc u)"
proof -
  obtain conns kc rest where "map_of uc u = Some conns" "ord 0 conns = kc # rest" "r = snd kc"
    using assms(2) by (auto simp: first_conn_def split: option.splits if_splits list.splits)
  moreover from this have "kc \<in> set conns" using order_ok_set [OF assms(1), of 0 conns] by auto
  ultimately show ?thesis by (auto simp: conns_of_def)
qed

lemma first_conn_None:
  assumes "order_ok ord" and "nested_ok uc"
  shows "first_conn ord uc u = None \<longleftrightarrow> map_of uc u = None"
proof (cases "map_of uc u")
  case (Some conns)
  then have "conns \<noteq> []" using nested_okD(2) [OF assms(2)] by blast
  then have "ord 0 conns \<noteq> []" using order_ok_length [OF assms(1), of 0 conns] by (cases "ord 0 conns") auto
  with Some \<open>conns \<noteq> []\<close> show ?thesis by (auto simp: first_conn_def split: list.splits)
qed (simp add: first_conn_def)

context outbox
begin

text \<open>An open connection gets one copy per occurrence in the list.\<close>

lemma loop_copies:
  "loop ch msg rs h e = Return (h', err) \<Longrightarrow> \<not> closed h r \<Longrightarrow>
     queue h' r = queue h r @ replicate (count_list rs r) msg"
proof (induction rs arbitrary: h e)
  case Nil
  then show ?case by simp
next
  case (Cons r0 rs)
  from Cons.prems(1) obtain h1 e1 where s: "send (ch (length rs)) msg r0 h = Return (h1, e1)"
    and l: "loop ch msg rs h1 (case e1 of None \<Rightarrow> e | Some x \<Rightarrow> Some x) = Return (h', err)"
    by (rule send_loop_ConsE)
  have open1: "\<not> closed h1 r" using send_closed [OF s] Cons.prems(2) by simp
  show ?case
  proof (cases "r0 = r")
    case True
    then have "e1 = None" using send_open [OF s] Cons.prems(2) by simp
    then have "queue h1 r = queue h r @ [msg]" using s send_ok True by blast
    then show ?thesis using Cons.IH [OF l open1] True by simp
  next
    case False
    then show ?thesis using Cons.IH [OF l open1] send_other [OF s, of r] by simp
  qed
qed

text \<open>The loop waits only when an open connection has no room for all its copies.\<close>

lemma loop_blocks:
  "loop ch msg rs h e = Blocks \<Longrightarrow> \<exists>r. \<not> closed h r \<and> send_capacity < length (queue h r) + count_list rs r"
proof (induction rs arbitrary: h e)
  case (Cons r0 rs)
  show ?case
  proof (cases "send (ch (length rs)) msg r0 h")
    case (Return p)
    obtain h1 e1 where p: "p = (h1, e1)" by (cases p)
    have s: "send (ch (length rs)) msg r0 h = Return (h1, e1)" using Return p by simp
    have "loop ch msg rs h1 (case e1 of None \<Rightarrow> e | Some x \<Rightarrow> Some x) = Blocks" using Cons.prems s by simp
    then obtain r where r: "\<not> closed h1 r" "send_capacity < length (queue h1 r) + count_list rs r" using Cons.IH by blast
    then have o: "\<not> closed h r" using send_closed [OF s] by simp
    have "length (queue h1 r) \<le> length (queue h r) + (if r0 = r then 1 else 0)"
    proof (cases "r0 = r")
      case True
      then have "queue h1 r = queue h r @ [msg]" using s send_open [OF s] o send_ok by simp
      then show ?thesis using True by simp
    next
      case False
      then show ?thesis using send_other [OF s, of r] by simp
    qed
    then show ?thesis using r o by (intro exI [of _ r]) (auto split: if_splits)
  next
    case Panics
    then show ?thesis using send_no_panic by simp
  next
    case Blocks
    then show ?thesis using send_blocks [of "ch (length rs)" msg r0 h] by (intro exI [of _ r0]) simp
  qed
qed simp

lemma users_step:
  assumes "send_users (\<lambda>i j. send (ch i j) msg) ord i uc (u # us) h e = Return (h', err)" and "order_ok ord"
  obtains h1 e1 where "loop (ch i) msg (map snd (ord i (conns_of uc u))) h e = Return (h1, e1)"
    and "send_users (\<lambda>i j. send (ch i j) msg) ord (Suc i) uc us h1 e1 = Return (h', err)"
proof (cases "map_of uc u")
  case None
  then show ?thesis using assms that [of h e] by (simp add: conns_of_def)
next
  case (Some conns)
  then show ?thesis using assms that by (auto simp: conns_of_def)
qed

lemma users_copies:
  assumes "order_ok ord"
  shows "send_users (\<lambda>i j. send (ch i j) msg) ord i uc us h e = Return (h', err) \<Longrightarrow> \<not> closed h r \<Longrightarrow>
     queue h' r = queue h r @ replicate (count_list (collect_users ord i uc us) r) msg \<and> closed h' = closed h"
proof (induction us arbitrary: i h e)
  case Nil
  then show ?case by simp
next
  case (Cons u us)
  obtain h1 e1 where l: "loop (ch i) msg (map snd (ord i (conns_of uc u))) h e = Return (h1, e1)"
    and us: "send_users (\<lambda>i j. send (ch i j) msg) ord (Suc i) uc us h1 e1 = Return (h', err)"
    using users_step [OF Cons.prems(1) assms] .
  have "(case map_of uc u of None \<Rightarrow> [] | Some conns \<Rightarrow> map snd (ord i conns)) = map snd (ord i (conns_of uc u))"
    using assms by (simp add: conns_of_def split: option.split)
  then show ?case
    using Cons.IH [OF us] loop_closed [OF l] loop_copies [OF l Cons.prems(2)] Cons.prems(2)
    by (simp add: replicate_add)
qed

lemma users_no_panic: "send_users (\<lambda>i j. send (ch i j) msg) ord i uc us h e \<noteq> Panics"
  by (induction us arbitrary: i h e) (auto simp: loop_no_panic split: option.split)

text \<open>An error reported at the end is that of a closed connection of one of the users.\<close>

lemma users_error:
  assumes "order_ok ord"
  shows "send_users (\<lambda>i j. send (ch i j) msg) ord i uc us h e = Return (h', Some x) \<Longrightarrow>
     e = Some x \<or> (\<exists>r \<in> set (collect_users ord i uc us). closed h r \<and> x = closed_error r)"
proof (induction us arbitrary: i h e)
  case Nil
  then show ?case by simp
next
  case (Cons u us)
  obtain h1 e1 where l: "loop (ch i) msg (map snd (ord i (conns_of uc u))) h e = Return (h1, e1)"
    and us: "send_users (\<lambda>i j. send (ch i j) msg) ord (Suc i) uc us h1 e1 = Return (h', Some x)"
    using users_step [OF Cons.prems(1) assms] .
  have "(case map_of uc u of None \<Rightarrow> [] | Some conns \<Rightarrow> map snd (ord i conns)) = map snd (ord i (conns_of uc u))"
    using assms by (simp add: conns_of_def split: option.split)
  then show ?case
    using Cons.IH [OF us] loop_closed [OF l] loop_error [of "ch i" msg _ h e h1 x] l
    by (auto simp del: set_map)
qed

end

end
