(* ===== verification/Buffer_Pool.thy ===== *)
theory Buffer_Pool
  imports Prelude
begin

text \<open>
  The buffer pool (\<^verbatim>\<open>internal/buffer/pool.go\<close>) on top of \<^verbatim>\<open>sync.Pool\<close>. Buffers are handed out as
  pointers to slices; the slices live in a heap. \<^verbatim>\<open>sync.Pool\<close> may return any of its items, may
  call \<^verbatim>\<open>New\<close> although it has some, and may drop items: which of these happens is an
  argument of \<open>Pool_Get\<close> and an explicit operation \<open>PoolDrop\<close>. Shown: pointers that are in use
  are never handed out again, and when a buffer that was requested with a size has that size.
\<close>

section \<open>Definitions\<close>

definition defaultBufferSize :: int where "defaultBufferSize = 4096"
definition maxBufferSize :: nat where "maxBufferSize = 65536"

text \<open>A slice: the bytes up to its capacity, and its length.\<close>

record slice =
  sl_array :: bytes
  sl_len :: nat

definition sl_cap :: "slice \<Rightarrow> nat" where
  "sl_cap b = length (sl_array b)"

record Pool =
  pool_items :: "nat list"
  pool_initSize :: int
  pool_heap :: "nat \<rightharpoonup> slice"
  pool_next :: nat

text \<open>\<^verbatim>\<open>make([]byte, n)\<close>, and the pointer to it; it panics on a negative length.\<close>

definition make_bytes :: "nat \<Rightarrow> slice" where
  "make_bytes n = \<lparr>sl_array = replicate n 0, sl_len = n\<rparr>"

definition alloc_buffer :: "int \<Rightarrow> Pool \<Rightarrow> (Pool \<times> nat) outcome" where
  "alloc_buffer n p =
     (if n < 0 then Panics
      else Return (p\<lparr>pool_heap := (pool_heap p)(pool_next p \<mapsto> make_bytes (nat n)),
                     pool_next := Suc (pool_next p)\<rparr>, pool_next p))"

definition NewPool :: "int \<Rightarrow> Pool" where
  "NewPool initSize =
     \<lparr>pool_items = [], pool_initSize = (if initSize \<le> 0 then defaultBufferSize else initSize),
      pool_heap = Map.empty, pool_next = 0\<rparr>"

definition take_item :: "nat \<Rightarrow> 'a list \<Rightarrow> 'a list" where
  "take_item i xs = take i xs @ drop (Suc i) xs"

text \<open>A \<open>choice\<close> that is an index of an item hands that item out; any other calls \<^verbatim>\<open>New\<close>.\<close>

definition Pool_Get :: "nat \<Rightarrow> Pool \<Rightarrow> (Pool \<times> nat) outcome" where
  "Pool_Get choice p =
     (if choice < length (pool_items p)
      then Return (p\<lparr>pool_items := take_item choice (pool_items p)\<rparr>, pool_items p ! choice)
      else alloc_buffer (pool_initSize p) p)"

text \<open>Dereferencing a pointer that was never allocated panics.\<close>

definition Pool_Put :: "nat \<Rightarrow> Pool \<Rightarrow> Pool outcome" where
  "Pool_Put ptr p =
     (case pool_heap p ptr of
        None \<Rightarrow> Panics
      | Some buf \<Rightarrow>
          if maxBufferSize < sl_cap buf then Return p
          else Return (p\<lparr>pool_heap := (pool_heap p)(ptr \<mapsto> buf\<lparr>sl_len := sl_cap buf\<rparr>),
                         pool_items := ptr # pool_items p\<rparr>))"

definition Pool_GetWithSize :: "nat \<Rightarrow> int \<Rightarrow> Pool \<Rightarrow> (Pool \<times> nat) outcome" where
  "Pool_GetWithSize choice sz p =
     (if sz \<le> pool_initSize p then Pool_Get choice p else alloc_buffer sz p)"

definition DefaultPool :: Pool where
  "DefaultPool = NewPool defaultBufferSize"

section \<open>Clients\<close>

text \<open>
  A client of the pool gets and puts buffers and writes through the pointers it holds. The run
  keeps the set of pointers the clients hold; they follow the documented rule not to use a buffer
  after putting it back.
\<close>

datatype pool_op = PoolGet nat | PoolGetWithSize nat int | PoolPut nat | PoolWrite nat slice | PoolDrop nat

record pool_run =
  pr_pool :: Pool
  pr_held :: "nat set"

fun hand_out :: "pool_run \<Rightarrow> (Pool \<times> nat) outcome \<Rightarrow> pool_run outcome" where
  "hand_out s (Return (p, ptr)) = Return (s\<lparr>pr_pool := p, pr_held := insert ptr (pr_held s)\<rparr>)"
| "hand_out s Panics = Panics"
| "hand_out s Blocks = Blocks"

fun pool_step :: "pool_op \<Rightarrow> pool_run \<Rightarrow> pool_run outcome" where
  "pool_step (PoolGet ch) s = hand_out s (Pool_Get ch (pr_pool s))"
| "pool_step (PoolGetWithSize ch sz) s = hand_out s (Pool_GetWithSize ch sz (pr_pool s))"
| "pool_step (PoolPut ptr) s =
     bind_outcome (Pool_Put ptr (pr_pool s)) (\<lambda>p. Return (s\<lparr>pr_pool := p, pr_held := pr_held s - {ptr}\<rparr>))"
| "pool_step (PoolWrite ptr b) s =
     Return (s\<lparr>pr_pool := (pr_pool s)\<lparr>pool_heap := (pool_heap (pr_pool s))(ptr \<mapsto> b)\<rparr>\<rparr>)"
| "pool_step (PoolDrop i) s =
     Return (s\<lparr>pr_pool := (pr_pool s)\<lparr>pool_items := take_item i (pool_items (pr_pool s))\<rparr>\<rparr>)"

text \<open>The rule, with the least capacity \<open>m\<close> of the slices that are written to the pointers.\<close>

fun pool_allowed :: "nat \<Rightarrow> pool_run \<Rightarrow> pool_op \<Rightarrow> bool" where
  "pool_allowed m s (PoolPut ptr) = (ptr \<in> pr_held s)"
| "pool_allowed m s (PoolWrite ptr b) = (ptr \<in> pr_held s \<and> sl_len b \<le> sl_cap b \<and> m \<le> sl_cap b)"
| "pool_allowed m s _ = True"

inductive pool_reach :: "nat \<Rightarrow> pool_run \<Rightarrow> pool_run \<Rightarrow> bool" for m s0 where
  start: "pool_reach m s0 s0"
| step: "pool_reach m s0 s \<Longrightarrow> pool_allowed m s x \<Longrightarrow> pool_step x s = Return s' \<Longrightarrow> pool_reach m s0 s'"

definition pool_inv :: "nat \<Rightarrow> pool_run \<Rightarrow> bool" where
  "pool_inv m s \<longleftrightarrow>
     (let p = pr_pool s
      in distinct (pool_items p) \<and> set (pool_items p) \<inter> pr_held s = {} \<and>
         set (pool_items p) \<union> pr_held s \<subseteq> dom (pool_heap p) \<and>
         dom (pool_heap p) \<subseteq> {..<pool_next p} \<and>
         0 < pool_initSize p \<and> int m \<le> pool_initSize p \<and>
         (\<forall>ptr b. pool_heap p ptr = Some b \<longrightarrow> m \<le> sl_cap b) \<and>
         (\<forall>ptr b. ptr \<in> set (pool_items p) \<longrightarrow> pool_heap p ptr = Some b \<longrightarrow>
            sl_len b = sl_cap b \<and> sl_cap b \<le> maxBufferSize))"

section \<open>Lemmas\<close>

lemma sl_cap_simps [simp]:
  "sl_cap (b\<lparr>sl_len := n\<rparr>) = sl_cap b" "sl_cap (make_bytes n) = n" "sl_len (make_bytes n) = n"
  by (simp_all add: sl_cap_def make_bytes_def)

lemma set_take_item: "set (take_item i xs) \<subseteq> set xs"
  by (auto simp: take_item_def dest: in_set_takeD in_set_dropD)

lemma take_item_split: "i < length xs \<Longrightarrow> \<exists>ys zs. xs = ys @ xs ! i # zs \<and> take_item i xs = ys @ zs"
  by (metis id_take_nth_drop take_item_def)

lemma distinct_take_item: "distinct xs \<Longrightarrow> distinct (take_item i xs)"
  by (auto simp: take_item_def set_take_disj_set_drop_if_distinct distinct_take distinct_drop)

lemma nth_notin_take_item: "distinct xs \<Longrightarrow> i < length xs \<Longrightarrow> xs ! i \<notin> set (take_item i xs)"
  using id_take_nth_drop [of i xs] unfolding take_item_def
  by (metis Un_iff distinct.simps(2) distinct_append disjoint_iff list.set_intros(1) set_append)

lemma pool_invD:
  assumes "pool_inv m s"
  shows "distinct (pool_items (pr_pool s))" "set (pool_items (pr_pool s)) \<inter> pr_held s = {}"
    "set (pool_items (pr_pool s)) \<subseteq> dom (pool_heap (pr_pool s))" "pr_held s \<subseteq> dom (pool_heap (pr_pool s))"
    "dom (pool_heap (pr_pool s)) \<subseteq> {..<pool_next (pr_pool s)}"
    "0 < pool_initSize (pr_pool s)" "int m \<le> pool_initSize (pr_pool s)"
    "pool_heap (pr_pool s) ptr = Some b \<Longrightarrow> m \<le> sl_cap b"
    "ptr \<in> set (pool_items (pr_pool s)) \<Longrightarrow> pool_heap (pr_pool s) ptr = Some b \<Longrightarrow>
       sl_len b = sl_cap b \<and> sl_cap b \<le> maxBufferSize"
  using assms by (simp_all add: pool_inv_def Let_def)

lemma pool_inv_below: "pool_inv m s \<Longrightarrow> pool_heap (pr_pool s) x = Some y \<Longrightarrow> x < pool_next (pr_pool s)"
  using pool_invD(5) by fastforce

lemma pool_inv_alloc:
  assumes "pool_inv m s" and "alloc_buffer n (pr_pool s) = Return (p, ptr)" and "int m \<le> n"
  shows "pool_inv m (s\<lparr>pr_pool := p, pr_held := insert ptr (pr_held s)\<rparr>) \<and>
         ptr \<notin> pr_held s \<and> ptr \<notin> set (pool_items p) \<and>
         (\<exists>b. pool_heap p ptr = Some b \<and> sl_len b = sl_cap b \<and> int (sl_len b) = n)"
proof -
  note inv = pool_invD [OF assms(1)]
  have p: "0 \<le> n" "ptr = pool_next (pr_pool s)"
    "p = (pr_pool s)\<lparr>pool_heap := (pool_heap (pr_pool s))(ptr \<mapsto> make_bytes (nat n)), pool_next := Suc ptr\<rparr>"
    using assms(2) by (auto simp: alloc_buffer_def split: if_splits)
  have fresh: "ptr \<notin> dom (pool_heap (pr_pool s))" using inv(5) p(2) by auto
  then have "ptr \<notin> set (pool_items (pr_pool s))" "ptr \<notin> pr_held s" using inv(3,4) by auto
  moreover have "dom (pool_heap (pr_pool s)) \<subseteq> {..<Suc ptr}" using inv(5) p(2) by auto
  moreover have "m \<le> nat n" using assms(3) by simp
  ultimately show ?thesis
    using inv p(1) unfolding p(3) by (auto simp: pool_inv_def Let_def)
qed

lemma pool_inv_take:
  assumes "pool_inv m s" and "i < length (pool_items (pr_pool s))"
  shows "pool_inv m (s\<lparr>pr_pool := (pr_pool s)\<lparr>pool_items := take_item i (pool_items (pr_pool s))\<rparr>,
                       pr_held := insert (pool_items (pr_pool s) ! i) (pr_held s)\<rparr>)"
proof -
  note inv = pool_invD [OF assms(1)]
  have "pool_items (pr_pool s) ! i \<in> dom (pool_heap (pr_pool s))" using inv(3) nth_mem [OF assms(2)] by blast
  moreover note set_take_item [of i "pool_items (pr_pool s)"]
  ultimately show ?thesis
    using inv nth_notin_take_item [OF inv(1) assms(2)]
    by (auto simp: pool_inv_def Let_def distinct_take_item)
qed

text \<open>What a client gets is a buffer that no other client holds and that is not in the pool.\<close>

lemma pool_inv_Get:
  assumes "pool_inv m s" and "Pool_Get ch (pr_pool s) = Return (p, ptr)"
  shows "pool_inv m (s\<lparr>pr_pool := p, pr_held := insert ptr (pr_held s)\<rparr>) \<and>
         ptr \<notin> pr_held s \<and> ptr \<notin> set (pool_items p) \<and>
         (\<exists>b. pool_heap p ptr = Some b \<and> sl_len b = sl_cap b \<and> m \<le> sl_len b)"
proof (cases "ch < length (pool_items (pr_pool s))")
  case True
  note inv = pool_invD [OF assms(1)]
  have p: "p = (pr_pool s)\<lparr>pool_items := take_item ch (pool_items (pr_pool s))\<rparr>" "ptr = pool_items (pr_pool s) ! ch"
    using True assms(2) by (auto simp: Pool_Get_def)
  then have "ptr \<in> set (pool_items (pr_pool s))" using True by simp
  moreover from this obtain b where "pool_heap (pr_pool s) ptr = Some b" using inv(3) by blast
  ultimately show ?thesis
    using pool_inv_take [OF assms(1) True] nth_notin_take_item [OF inv(1) True] inv(2) inv(8,9) [of ptr b]
    unfolding p by auto
next
  case False
  then have "alloc_buffer (pool_initSize (pr_pool s)) (pr_pool s) = Return (p, ptr)"
    using assms(2) by (simp add: Pool_Get_def)
  from pool_inv_alloc [OF assms(1) this pool_invD(7) [OF assms(1)]] pool_invD(7) [OF assms(1)]
  show ?thesis by auto
qed

lemma pool_inv_Put:
  assumes "pool_inv m s" and "Pool_Put ptr (pr_pool s) = Return p" and "ptr \<in> pr_held s"
  shows "pool_inv m (s\<lparr>pr_pool := p, pr_held := pr_held s - {ptr}\<rparr>)"
proof -
  note inv = pool_invD [OF assms(1)]
  obtain b where "pool_heap (pr_pool s) ptr = Some b" using inv(4) assms(3) by blast
  then show ?thesis
    using assms(2,3) inv pool_inv_below [OF assms(1)]
    by (auto simp: Pool_Put_def pool_inv_def Let_def split: if_splits)
qed

lemma pool_step_inv:
  assumes "pool_inv m s" and "pool_allowed m s x" and "pool_step x s = Return s'"
  shows "pool_inv m s'"
proof (cases x)
  case (PoolGet ch)
  then obtain p ptr where "Pool_Get ch (pr_pool s) = Return (p, ptr)" "s' = s\<lparr>pr_pool := p, pr_held := insert ptr (pr_held s)\<rparr>"
    using assms(3) by (cases "Pool_Get ch (pr_pool s)") auto
  then show ?thesis using pool_inv_Get [OF assms(1)] by blast
next
  case (PoolGetWithSize ch sz)
  obtain p ptr where g: "Pool_GetWithSize ch sz (pr_pool s) = Return (p, ptr)"
    "s' = s\<lparr>pr_pool := p, pr_held := insert ptr (pr_held s)\<rparr>"
    using assms(3) PoolGetWithSize by (cases "Pool_GetWithSize ch sz (pr_pool s)") auto
  show ?thesis
  proof (cases "sz \<le> pool_initSize (pr_pool s)")
    case True
    then show ?thesis using g pool_inv_Get [OF assms(1)] by (auto simp: Pool_GetWithSize_def)
  next
    case False
    then show ?thesis
      using g pool_inv_alloc [OF assms(1), of sz] pool_invD(7) [OF assms(1)] by (auto simp: Pool_GetWithSize_def)
  qed
next
  case (PoolPut ptr)
  then show ?thesis using assms(2,3) pool_inv_Put [OF assms(1)] by auto
next
  case (PoolWrite ptr b)
  note inv = pool_invD [OF assms(1)]
  have "ptr \<in> dom (pool_heap (pr_pool s))" "ptr \<notin> set (pool_items (pr_pool s))"
    using assms(2) PoolWrite inv(2,4) by auto
  then show ?thesis using PoolWrite assms(2,3) inv pool_inv_below [OF assms(1)]
    by (auto simp: pool_inv_def Let_def split: if_splits)
next
  case (PoolDrop i)
  note inv = pool_invD [OF assms(1)]
  have sub: "set (take_item i (pool_items (pr_pool s))) \<subseteq> set (pool_items (pr_pool s))" by (rule set_take_item)
  then have "set (take_item i (pool_items (pr_pool s))) \<inter> pr_held s = {}"
    "set (take_item i (pool_items (pr_pool s))) \<subseteq> dom (pool_heap (pr_pool s))"
    using inv(2,3) by blast+
  then show ?thesis
    using PoolDrop assms(3) inv sub pool_inv_below [OF assms(1)]
    by (auto simp: pool_inv_def Let_def distinct_take_item simp del: Un_subset_iff)
qed

lemma pool_inv_new:
  assumes "int m \<le> pool_initSize (NewPool n)"
  shows "pool_inv m \<lparr>pr_pool = NewPool n, pr_held = {}\<rparr>"
  using assms by (auto simp: pool_inv_def NewPool_def defaultBufferSize_def Let_def split: if_splits)

lemma pool_reach_inv:
  assumes "pool_reach m s0 s" and "pool_inv m s0"
  shows "pool_inv m s"
  using assms by (induction rule: pool_reach.induct) (auto intro: pool_step_inv)

lemma Pool_GetWithSize_returns:
  "0 < pool_initSize p \<Longrightarrow> \<exists>p' ptr. Pool_GetWithSize ch sz p = Return (p', ptr)"
  by (auto simp: Pool_GetWithSize_def Pool_Get_def alloc_buffer_def)

lemma pool_step_initSize:
  "pool_step x s = Return s' \<Longrightarrow> pool_initSize (pr_pool s') = pool_initSize (pr_pool s)"
  by (cases x)
    (auto simp: Pool_Get_def Pool_GetWithSize_def alloc_buffer_def Pool_Put_def split: if_splits option.splits)

lemma pool_reach_initSize:
  "pool_reach m s0 s \<Longrightarrow> pool_initSize (pr_pool s) = pool_initSize (pr_pool s0)"
  by (induction rule: pool_reach.induct) (auto dest: pool_step_initSize)

section \<open>Properties\<close>



text \<open>
  A buffer that is too short. The pool does not look at the capacity of what is put into
  it: after a client has put a one-byte buffer, GetWithSize may return that buffer for a request
  of a hundred bytes.
\<close>

lemma pool_short_buffer:
  "\<exists>s p ptr b. pool_reach 0 \<lparr>pr_pool = NewPool 4096, pr_held = {}\<rparr> s \<and>
     Pool_GetWithSize 0 100 (pr_pool s) = Return (p, ptr) \<and> pool_heap p ptr = Some b \<and> sl_len b = 1"
proof -
  let ?b = "\<lparr>sl_array = [0], sl_len = 1\<rparr>"
  let ?s0 = "\<lparr>pr_pool = NewPool 4096, pr_held = {}\<rparr>"
  let ?s1 = "\<lparr>pr_pool = \<lparr>pool_items = [], pool_initSize = 4096, pool_heap = [0 \<mapsto> make_bytes 4096], pool_next = 1\<rparr>,
              pr_held = {0}\<rparr>"
  let ?s2 = "\<lparr>pr_pool = \<lparr>pool_items = [], pool_initSize = 4096, pool_heap = [0 \<mapsto> ?b], pool_next = 1\<rparr>, pr_held = {0}\<rparr>"
  let ?s3 = "\<lparr>pr_pool = \<lparr>pool_items = [0], pool_initSize = 4096, pool_heap = [0 \<mapsto> ?b], pool_next = 1\<rparr>, pr_held = {}\<rparr>"
  have "pool_reach 0 ?s0 ?s1"
    by (rule pool_reach.step [OF pool_reach.start, of _ _ "PoolGet 0"]) (simp_all add: Pool_Get_def alloc_buffer_def NewPool_def)
  then have "pool_reach 0 ?s0 ?s2"
    by (rule pool_reach.step [of _ _ _ "PoolWrite 0 ?b"]) (simp_all add: sl_cap_def)
  then have "pool_reach 0 ?s0 ?s3"
    by (rule pool_reach.step [of _ _ _ "PoolPut 0"]) (simp_all add: Pool_Put_def sl_cap_def maxBufferSize_def)
  moreover have "Pool_GetWithSize 0 100 (pr_pool ?s3) = Return (pr_pool ?s2, 0)"
    by (simp add: Pool_GetWithSize_def Pool_Get_def take_item_def)
  ultimately show ?thesis by (intro exI [of _ ?s3] exI [of _ "pr_pool ?s2"] exI [of _ "0::nat"] exI [of _ ?b]) simp
qed

end
