(* ===== verification/Ws_Server.thy ===== *)
theory Ws_Server
  imports Registry Delivery Buffer_Pool
begin

text \<open>
  The WebSocket server (\<^verbatim>\<open>ws/server.go\<close>, \<^verbatim>\<open>ws/config.go\<close>): its configuration and construction,
  the maps of connections, sending and lookups. The maps hold pointers to connection objects,
  which live in a heap; \<open>Ws_Session\<close> adds the goroutines that serve a connection.

  Each definition below is one method, run without interference: the maps are guarded by locks
  that the method holds while it uses them.
\<close>

section \<open>Configuration\<close>

record StatelessConf =
  sc_PollInterval :: int64
  sc_BatchSize :: int64
  sc_AckTimeout :: int64

record WsConf =
  ws_Name :: string
  ws_Addr :: string
  ws_Path :: string
  ws_ReadBufferSize :: int64
  ws_WriteBufferSize :: int64
  ws_MaxConnections :: int64
  ws_PingInterval :: int64
  ws_PongWait :: int64
  ws_MaxMessageSize :: int64
  ws_WriteTimeout :: int64
  ws_CertFile :: string
  ws_KeyFile :: string
  ws_Auth :: AuthConfig
  ws_Stateless :: StatelessConf

text \<open>The defaults in the struct tags, which the configuration loader fills in.\<close>

definition default_WsConf :: "AuthConfig \<Rightarrow> WsConf" where
  "default_WsConf auth =
     \<lparr>ws_Name = [], ws_Addr = '':8080'', ws_Path = ''/ws'', ws_ReadBufferSize = 4096, ws_WriteBufferSize = 4096,
      ws_MaxConnections = 10000, ws_PingInterval = 30000000000, ws_PongWait = 60000000000,
      ws_MaxMessageSize = 65536, ws_WriteTimeout = 10000000000, ws_CertFile = [], ws_KeyFile = [], ws_Auth = auth,
      ws_Stateless = \<lparr>sc_PollInterval = 100000000, sc_BatchSize = 100, sc_AckTimeout = 30000000000\<rparr>\<rparr>"

text \<open>\<^verbatim>\<open>ServiceConf.SetUp\<close> belongs to go-zero: its result is an argument.\<close>

definition WsConf_SetUp :: "go_error option \<Rightarrow> WsConf \<Rightarrow> go_error option" where
  "WsConf_SetUp service_setup c = service_setup"

definition ws_ErrConnectionLimit :: go_error where
  "ws_ErrConnectionLimit = ErrorString ''ws.ErrConnectionLimit''"

definition ws_ErrUserNotFound :: go_error where
  "ws_ErrUserNotFound = ErrorString ''ws.ErrUserNotFound''"

section \<open>The server\<close>

type_synonym ws_ref = nat
type_synonym ws_heap = "ws_ref \<Rightarrow> ws_connection"

text \<open>
  \<open>wss_server\<close> is the address of the HTTP server, \<open>None\<close> before \<^verbatim>\<open>Start\<close>; metrics are known by
  the name of their collector.
\<close>

record ws_server =
  wss_conf :: WsConf
  wss_authenticator :: authenticator
  wss_metrics :: string
  wss_connections :: "(string, ws_ref) gomap"
  wss_userConns :: "(string, string, ws_ref) nested"
  wss_connCount :: int64
  wss_server :: "string option"
  wss_done :: bool
  wss_once :: bool
  wss_bufPool :: Pool

datatype ServerOption = WithMetrics string | WithAuthenticator authenticator

text \<open>The fields that options set, \<open>None\<close> while they are nil.\<close>

fun apply_option :: "ServerOption \<Rightarrow> string option \<times> authenticator option \<Rightarrow> string option \<times> authenticator option" where
  "apply_option (WithMetrics m) (metrics, auth) = (Some m, auth)"
| "apply_option (WithAuthenticator a) (metrics, auth) = (metrics, Some a)"

definition ws_NewServer :: "go_error option \<Rightarrow> WsConf \<Rightarrow> ServerOption list \<Rightarrow> go_error + ws_server" where
  "ws_NewServer service_setup conf opts =
     (case WsConf_SetUp service_setup conf of
        Some err \<Rightarrow> Inl err
      | None \<Rightarrow>
          let (metrics, auth) = foldl (\<lambda>s opt. apply_option opt s) (None, None) opts;
              name = (if ws_Name conf = [] then ''websocket-server'' else ws_Name conf)
          in Inr \<lparr>wss_conf = conf,
                  wss_authenticator = (case auth of None \<Rightarrow> NoOp_Authenticate | Some a \<Rightarrow> a),
                  wss_metrics = (case metrics of None \<Rightarrow> name | Some m \<Rightarrow> m),
                  wss_connections = [], wss_userConns = [], wss_connCount = 0, wss_server = None,
                  wss_done = False, wss_once = False,
                  wss_bufPool = NewPool (sint (ws_ReadBufferSize conf))\<rparr>)"

text \<open>\<^verbatim>\<open>Start\<close> up to the call that serves: the listener belongs to \<^verbatim>\<open>net/http\<close>.\<close>

definition ws_Start :: "ws_server \<Rightarrow> ws_server" where
  "ws_Start s = s\<lparr>wss_server := Some (ws_Addr (wss_conf s))\<rparr>"

text \<open>\<^verbatim>\<open>Stop\<close> shuts the HTTP server down, through a nil pointer when \<^verbatim>\<open>Start\<close> has not run.\<close>

definition ws_Stop :: "ws_server \<Rightarrow> ws_server outcome" where
  "ws_Stop s =
     (if wss_once s then Return s
      else
        let s0 = s\<lparr>wss_once := True\<rparr>
        in if wss_done s0 then Panics
           else if wss_server s0 = None then Panics
           else Return (s0\<lparr>wss_done := True\<rparr>))"

definition ws_Protocol :: "ws_server \<Rightarrow> Protocol" where
  "ws_Protocol s = ProtocolWebSocket"

section \<open>Connection management\<close>

definition ws_registerConnection :: "ws_ref \<Rightarrow> ws_server \<times> ws_heap \<Rightarrow> ws_server \<times> ws_heap" where
  "ws_registerConnection conn s =
     ((fst s)\<lparr>wss_connections := mapassign (wsc_id (snd s conn)) conn (wss_connections (fst s))\<rparr>, snd s)"

definition ws_unregisterConnection :: "ws_ref \<Rightarrow> ws_server \<times> ws_heap \<Rightarrow> ws_server \<times> ws_heap" where
  "ws_unregisterConnection conn s =
     (let connID = wsc_id (snd s conn);
          s1 = (fst s)\<lparr>wss_connections := mapdelete connID (wss_connections (fst s))\<rparr>;
          userID = ws_UserID (snd s conn);
          s2 = (if userID \<noteq> [] then s1\<lparr>wss_userConns := unbind_in userID connID (wss_userConns s1)\<rparr> else s1)
      in (s2\<lparr>wss_connCount := wss_connCount s2 - 1\<rparr>, snd s))"

definition ws_BindUser :: "ws_ref \<Rightarrow> string \<Rightarrow> ws_server \<times> ws_heap \<Rightarrow> ws_server \<times> ws_heap" where
  "ws_BindUser conn userID s =
     (let h = (snd s)(conn := ws_SetUserID userID (snd s conn))
      in ((fst s)\<lparr>wss_userConns := bind_in userID (wsc_id (h conn)) conn (wss_userConns (fst s))\<rparr>, h))"

section \<open>Sending\<close>

definition ws_Broadcast ::
  "(nat \<Rightarrow> nat) \<Rightarrow> (string \<times> ws_ref) range_order \<Rightarrow> bytes \<Rightarrow> ws_server \<Rightarrow> ws_heap \<Rightarrow> (ws_heap \<times> go_error option) outcome" where
  "ws_Broadcast ch ord msg s h =
     send_loop (\<lambda>i. ws_send_at (ch i) msg) (map snd (ord 0 (wss_connections s))) h None"

definition ws_BroadcastTo ::
  "(nat \<Rightarrow> nat \<Rightarrow> nat) \<Rightarrow> (string \<times> ws_ref) range_order \<Rightarrow> string list \<Rightarrow> bytes \<Rightarrow> ws_server \<Rightarrow> ws_heap \<Rightarrow>
     (ws_heap \<times> go_error option) outcome" where
  "ws_BroadcastTo ch ord userIDs msg s h =
     send_users (\<lambda>i j. ws_send_at (ch i j) msg) ord 0 (wss_userConns s) userIDs h None"

definition ws_SendTo ::
  "(nat \<Rightarrow> nat) \<Rightarrow> (string \<times> ws_ref) range_order \<Rightarrow> string \<Rightarrow> bytes \<Rightarrow> ws_server \<Rightarrow> ws_heap \<Rightarrow>
     (ws_heap \<times> go_error option) outcome" where
  "ws_SendTo ch ord userID msg s h =
     (case map_of (wss_userConns s) userID of
        None \<Rightarrow> Return (h, Some ws_ErrUserNotFound)
      | Some conns \<Rightarrow> send_loop (\<lambda>i. ws_send_at (ch i) msg) (map snd (ord 0 conns)) h None)"

section \<open>Lookups\<close>

definition ws_GetConnection :: "(string \<times> ws_ref) range_order \<Rightarrow> ws_server \<Rightarrow> string \<Rightarrow> ws_ref option" where
  "ws_GetConnection ord s userID = first_conn ord (wss_userConns s) userID"

definition ws_GetConnections :: "(string \<times> ws_ref) range_order \<Rightarrow> ws_server \<Rightarrow> string list \<Rightarrow> ws_ref list" where
  "ws_GetConnections ord s userIDs = collect_users ord 0 (wss_userConns s) userIDs"

definition ws_ConnectionCount :: "ws_server \<Rightarrow> int64" where
  "ws_ConnectionCount s = wss_connCount s"

definition ws_ForEachConnection ::
  "(string \<times> ws_ref) range_order \<Rightarrow> (ws_ref \<Rightarrow> 'a \<Rightarrow> 'a \<times> bool) \<Rightarrow> ws_server \<Rightarrow> 'a \<Rightarrow> 'a" where
  "ws_ForEachConnection ord fn s a = fst (foreach_conns fn (map snd (ord 0 (wss_connections s))) a)"

text \<open>\<^verbatim>\<open>generateConnID\<close>, at the time \<open>now\<close> in nanoseconds.\<close>

definition generateConnID :: "int64 \<Rightarrow> string" where
  "generateConnID now = show_int (sint now)"

section \<open>Invariant\<close>

definition ws_maps_ok :: "ws_server \<Rightarrow> bool" where
  "ws_maps_ok s \<longleftrightarrow> gomap_ok (wss_connections s) \<and> nested_ok (wss_userConns s)"

text \<open>A server with two connections, of which the first is bound to a user, for examples.\<close>

definition sample_auth :: AuthConfig where
  "sample_auth = \<lparr>auth_Enabled = True, auth_Mode = [], auth_Source = [], auth_TokenSource = [], auth_TokenName = [],
     auth_HeaderName = [], auth_JWTSecret = [], auth_Timeout = 0\<rparr>"

definition sample_ws_server :: ws_server where
  "sample_ws_server =
     \<lparr>wss_conf = default_WsConf sample_auth, wss_authenticator = NoOp_Authenticate, wss_metrics = [],
      wss_connections = [(''1'', 0), (''2'', 1)], wss_userConns = [(''bob'', [(''1'', 0)])],
      wss_connCount = 2, wss_server = None, wss_done = False, wss_once = False, wss_bufPool = NewPool 0\<rparr>"

definition sample_ws_heap :: ws_heap where
  "sample_ws_heap r = ws_NewConnection (if r = 0 then ''1'' else ''2'') [] 0"

section \<open>Lemmas\<close>

lemma generateConnID_inject: "generateConnID a = generateConnID b \<longleftrightarrow> a = b"
  unfolding generateConnID_def show_int_inject by (auto intro: signed_word_eqI)

lemmas ws_registry_defs = ws_registerConnection_def ws_unregisterConnection_def ws_BindUser_def

lemma ws_SetUserID_simps [simp]:
  "wsc_id (ws_SetUserID u c) = wsc_id c" "ws_UserID (ws_SetUserID u c) = u"
  "wsc_send (ws_SetUserID u c) = wsc_send c" "wsc_done (ws_SetUserID u c) = wsc_done c"
  by (simp_all add: ws_SetUserID_def ws_UserID_def)

interpretation wsr: conn_registry "\<lambda>s. ws_maps_ok (fst s)" "\<lambda>s. map_of (wss_connections (fst s))"
  "\<lambda>s. user_view (wss_userConns (fst s))" "\<lambda>s c. wsc_id (snd s c)" "\<lambda>s c. ws_UserID (snd s c)"
  ws_registerConnection ws_unregisterConnection ws_BindUser
  by unfold_locales (auto simp: ws_registry_defs ws_maps_ok_def Let_def fun_eq_iff)

section \<open>Properties\<close>

text \<open>
  C19. Broadcast on the WebSocket server. Broadcast never panics; it returns exactly when no
  registered connection is open with a full send queue (it waits otherwise, with the lock
  held). When it returns, every registered connection that is open has got the message once,
  at the end of its queue, and a connection that is not registered has got nothing; an error is
  the error of a closed connection that is registered.
\<close>

theorem ws_broadcast:
  assumes "ws_maps_ok s" and "order_ok ord" and "distinct (map snd (wss_connections s))"
  shows "ws_Broadcast ch ord msg s h \<noteq> Panics \<and>
    (returns (ws_Broadcast ch ord msg s h) \<longleftrightarrow>
       (\<forall>r \<in> snd ` set (wss_connections s). wsc_done (h r) \<or> length (wsc_send (h r)) < 256)) \<and>
    (\<forall>h' err. ws_Broadcast ch ord msg s h = Return (h', err) \<longrightarrow>
       (\<forall>r \<in> snd ` set (wss_connections s). \<not> wsc_done (h r) \<longrightarrow> wsc_send (h' r) = wsc_send (h r) @ [msg]) \<and>
       (\<forall>r. r \<notin> snd ` set (wss_connections s) \<longrightarrow> wsc_send (h' r) = wsc_send (h r)) \<and>
       (err \<noteq> None \<longrightarrow> err = Some ErrCloseSent \<and> (\<exists>r \<in> snd ` set (wss_connections s). wsc_done (h r))))"
proof -
  let ?rs = "map snd (ord 0 (wss_connections s))"
  have set: "set ?rs = snd ` set (wss_connections s)" using order_ok_set [OF assms(2)] by simp
  have dist: "distinct ?rs" using assms(2,3) by (simp add: order_ok_distinct_map)
  have "ws_Broadcast ch ord msg s h \<noteq> Panics"
    unfolding ws_Broadcast_def by (rule ws_out.loop_no_panic)
  moreover have "returns (ws_Broadcast ch ord msg s h) \<longleftrightarrow>
      (\<forall>r \<in> set ?rs. wsc_done (h r) \<or> length (wsc_send (h r)) < 256)"
    unfolding ws_Broadcast_def using ws_out.loop_returns_iff [OF dist] by (simp add: send_capacity_def)
  moreover have "(\<forall>r \<in> set ?rs. \<not> wsc_done (h r) \<longrightarrow> wsc_send (h' r) = wsc_send (h r) @ [msg]) \<and>
      (\<forall>r. r \<notin> set ?rs \<longrightarrow> wsc_send (h' r) = wsc_send (h r)) \<and>
      (err \<noteq> None \<longrightarrow> err = Some ErrCloseSent \<and> (\<exists>r \<in> set ?rs. wsc_done (h r)))"
    if "ws_Broadcast ch ord msg s h = Return (h', err)" for h' err
  proof -
    note run = that [unfolded ws_Broadcast_def]
    have "err \<noteq> None \<Longrightarrow> err = Some ErrCloseSent \<and> (\<exists>r \<in> set ?rs. wsc_done (h r))"
      using ws_out.loop_error [of ch msg ?rs h None h'] run by auto
    then show ?thesis
      using ws_out.loop_delivers [OF run dist] ws_out.loop_other [OF run] by blast
  qed
  ultimately show ?thesis unfolding set by blast
qed

lemma ws_broadcast_witness:
  "returns (ws_Broadcast (\<lambda>_. 0) (\<lambda>i xs. xs) [1] sample_ws_server sample_ws_heap)"
  using ws_broadcast [of sample_ws_server "\<lambda>i xs. xs" "\<lambda>_. 0" "[1]" sample_ws_heap]
  by (simp add: ws_maps_ok_def sample_ws_server_def sample_ws_heap_def ws_NewConnection_def nested_ok_def gomap_ok_def)



end
