(* ===== verification/Ws_Session.thy ===== *)
theory Ws_Session
  imports Ws_Server
begin

text \<open>
  The goroutines that serve WebSocket connections (\<^verbatim>\<open>HandleWebSocket\<close>, \<^verbatim>\<open>readPump\<close> and
  \<^verbatim>\<open>writePump\<close> in \<^verbatim>\<open>ws/server.go\<close>), interleaved in any order with each other, with goroutines
  that send to or close connections, and with \<^verbatim>\<open>Stop\<close>.

  Every request is served by a goroutine of its own, which is at one of the points \<open>ws_pc\<close> of
  the handler; a step runs from one point to the next. The points are placed so that a step
  contains at most one atomic access to shared state (the counter, a map under its lock, the
  one-shot close of a connection) apart from those of one method of \<open>Ws_Server\<close>. The user's
  handler is not part of the repository: a step carries what its callback returned, and the
  calls made to it are recorded. The goroutine with the number \<open>t\<close> uses the connection object
  at the address \<open>t\<close>.
\<close>

section \<open>States\<close>

datatype write_pc = WriteStart | Writing | WriteDone
datatype read_pc = ReadStart | Reading | ReadDone

text \<open>
  Before the request; after the limit check; after the upgrade (the connection is counted);
  after authentication; after registration; with the two pumps running; after a failed
  \<^verbatim>\<open>OnConnect\<close>; returned.
\<close>

datatype ws_pc = Idle | Checked | Accepted | Admitted | Joined | Serving write_pc read_pc | Leaving | Finished

text \<open>
  \<open>th_created\<close> is the time at which the goroutine created its connection, \<open>th_calls\<close> the calls
  made to the handler, and \<open>th_sent\<close> the messages that \<^verbatim>\<open>Send\<close> has accepted for its connection.
\<close>

record ws_thread =
  th_pc :: ws_pc
  th_request :: HTTPRequest
  th_status :: "nat option"
  th_created :: "int64 option"
  th_calls :: "callback list"
  th_sent :: "bytes list"

record ws_system =
  sys_server :: ws_server
  sys_heap :: ws_heap
  sys_thread :: "ws_ref \<Rightarrow> ws_thread"

definition update_thread :: "ws_ref \<Rightarrow> (ws_thread \<Rightarrow> ws_thread) \<Rightarrow> ws_system \<Rightarrow> ws_system" where
  "update_thread t f s = s\<lparr>sys_thread := (sys_thread s)(t := f (sys_thread s t))\<rparr>"

definition goto :: "ws_ref \<Rightarrow> ws_pc \<Rightarrow> ws_system \<Rightarrow> ws_system" where
  "goto t p s = update_thread t (\<lambda>th. th\<lparr>th_pc := p\<rparr>) s"

definition called :: "ws_ref \<Rightarrow> callback \<Rightarrow> ws_system \<Rightarrow> ws_system" where
  "called t x s = update_thread t (\<lambda>th. th\<lparr>th_calls := th_calls th @ [x]\<rparr>) s"

definition put_conn :: "ws_ref \<Rightarrow> ws_connection \<Rightarrow> ws_system \<Rightarrow> ws_system" where
  "put_conn t c s = s\<lparr>sys_heap := (sys_heap s)(t := c)\<rparr>"

definition put_server :: "ws_server \<times> ws_heap \<Rightarrow> ws_system \<Rightarrow> ws_system" where
  "put_server sh s = s\<lparr>sys_server := fst sh, sys_heap := snd sh\<rparr>"

definition add_count :: "int64 \<Rightarrow> ws_system \<Rightarrow> ws_system" where
  "add_count d s = s\<lparr>sys_server := (sys_server s)\<lparr>wss_connCount := wss_connCount (sys_server s) + d\<rparr>\<rparr>"

section \<open>The handler\<close>

text \<open>The connection limit.\<close>

definition handle_check :: "ws_ref \<Rightarrow> HTTPRequest \<Rightarrow> ws_system \<Rightarrow> ws_system" where
  "handle_check t r s =
     (let s1 = update_thread t (\<lambda>th. th\<lparr>th_request := r\<rparr>) s;
          limit = ws_MaxConnections (wss_conf (sys_server s))
      in if 0 < sint limit \<and> int64_le limit (wss_connCount (sys_server s))
         then goto t Finished (update_thread t (\<lambda>th. th\<lparr>th_status := Some 503\<rparr>) s1)
         else goto t Checked s1)"

text \<open>The upgrade, whose result comes from the websocket library, and the new connection.\<close>

definition handle_upgrade :: "ws_ref \<Rightarrow> go_error option \<Rightarrow> int64 \<Rightarrow> ws_system \<Rightarrow> ws_system" where
  "handle_upgrade t err now s =
     (case err of
        Some _ \<Rightarrow> goto t Finished s
      | None \<Rightarrow>
          let conn = ws_NewConnection (generateConnID now) [] (ws_WriteTimeout (wss_conf (sys_server s)))
          in goto t Accepted (update_thread t (\<lambda>th. th\<lparr>th_created := Some now\<rparr>)
               (add_count 1 (put_conn t conn s))))"

text \<open>A deferred or explicit \<^verbatim>\<open>conn.Close()\<close>.\<close>

definition close_conn :: "ws_io \<Rightarrow> ws_ref \<Rightarrow> ws_system \<Rightarrow> ws_system outcome" where
  "close_conn io t s = bind_outcome (ws_Close io (sys_heap s t)) (\<lambda>(c, _). Return (put_conn t c s))"

definition handle_auth :: "ws_io \<Rightarrow> ws_ref \<Rightarrow> int \<Rightarrow> ws_system \<Rightarrow> ws_system outcome" where
  "handle_auth io t now s =
     (if auth_Enabled (ws_Auth (wss_conf (sys_server s)))
      then
        (let authReq = \<lparr>ar_Protocol = ProtocolWebSocket, ar_HTTPRequest = Some (th_request (sys_thread s t)),
                        ar_FirstMessage = []\<rparr>
         in case wss_authenticator (sys_server s) authReq of
              Inl err \<Rightarrow>
                (let frame = ClosePayload ClosePolicyViolation ''authentication failed'';
                     s1 = put_conn t (fst (ws_WriteMessage io now CloseMessage frame (sys_heap s t))) s
                 in bind_outcome (close_conn io t s1) (\<lambda>s2. Return (goto t Finished (add_count (- 1) s2))))
            | Inr userID \<Rightarrow>
                (let s1 = (if userID \<noteq> []
                           then (let s' = put_conn t (ws_SetUserID userID (sys_heap s t)) s
                                 in put_server (ws_BindUser t userID (sys_server s', sys_heap s')) s')
                           else s)
                 in Return (goto t Admitted s1)))
      else Return (goto t Admitted s))"

definition handle_register :: "ws_ref \<Rightarrow> ws_system \<Rightarrow> ws_system" where
  "handle_register t s = goto t Joined (put_server (ws_registerConnection t (sys_server s, sys_heap s)) s)"

definition handle_connect :: "ws_io \<Rightarrow> ws_ref \<Rightarrow> go_error option \<Rightarrow> ws_system \<Rightarrow> ws_system outcome" where
  "handle_connect io t err s =
     (let s1 = called t (OnConnect err) s
      in case err of
           Some _ \<Rightarrow> bind_outcome (close_conn io t s1) (\<lambda>s2. Return (goto t Leaving s2))
         | None \<Rightarrow> Return (goto t (Serving WriteStart ReadStart) s1))"

text \<open>The deferred \<^verbatim>\<open>unregisterConnection\<close>, after both pumps have returned.\<close>

definition handle_return :: "ws_ref \<Rightarrow> ws_system \<Rightarrow> ws_system" where
  "handle_return t s = goto t Finished (put_server (ws_unregisterConnection t (sys_server s, sys_heap s)) s)"

section \<open>The read pump\<close>

definition readPump_start :: "ws_io \<Rightarrow> ws_ref \<Rightarrow> int \<Rightarrow> write_pc \<Rightarrow> ws_system \<Rightarrow> ws_system" where
  "readPump_start io t now w s =
     goto t (Serving w Reading)
       (put_conn t (ws_SetReadDeadline io (now + sint (ws_PongWait (wss_conf (sys_server s)))) (sys_heap s t)) s)"

text \<open>The pong handler, which the socket calls while it reads.\<close>

definition readPump_pong :: "ws_io \<Rightarrow> ws_ref \<Rightarrow> int \<Rightarrow> ws_system \<Rightarrow> ws_system" where
  "readPump_pong io t now s =
     put_conn t (ws_SetReadDeadline io (now + sint (ws_PongWait (wss_conf (sys_server s)))) (sys_heap s t)) s"

text \<open>The error that \<^verbatim>\<open>OnMessage\<close> returns is logged and has no other effect.\<close>

definition readPump_message :: "ws_ref \<Rightarrow> bytes \<Rightarrow> ws_system \<Rightarrow> ws_system" where
  "readPump_message t msg s = called t (OnMessage msg) s"

definition readPump_error :: "ws_io \<Rightarrow> ws_ref \<Rightarrow> go_error \<Rightarrow> write_pc \<Rightarrow> ws_system \<Rightarrow> ws_system outcome" where
  "readPump_error io t err w s =
     bind_outcome (close_conn io t (called t (OnDisconnect err) s)) (\<lambda>s1. Return (goto t (Serving w ReadDone) s1))"

section \<open>The write pump\<close>

text \<open>\<^verbatim>\<open>time.NewTicker\<close> panics unless the interval is positive.\<close>

definition writePump_start :: "ws_ref \<Rightarrow> read_pc \<Rightarrow> ws_system \<Rightarrow> ws_system outcome" where
  "writePump_start t r s =
     (if sint (ws_PingInterval (wss_conf (sys_server s))) \<le> 0 then Panics
      else Return (goto t (Serving Writing r) s))"

datatype write_case = ServerDone | ConnectionDone | Outgoing | Tick

text \<open>The ready cases of the select statement; \<open>tick\<close> says whether the ticker has fired.\<close>

definition write_ready :: "bool \<Rightarrow> bool \<Rightarrow> bytes list \<Rightarrow> bool \<Rightarrow> write_case list" where
  "write_ready stopped closed queue tick =
     (if stopped then [ServerDone] else []) @ (if closed then [ConnectionDone] else []) @
     (if queue \<noteq> [] then [Outgoing] else []) @ (if tick then [Tick] else [])"

text \<open>The return of the pump, with its deferred close.\<close>

definition writePump_return :: "ws_io \<Rightarrow> ws_ref \<Rightarrow> read_pc \<Rightarrow> ws_system \<Rightarrow> ws_system outcome" where
  "writePump_return io t r s = bind_outcome (close_conn io t s) (\<lambda>s1. Return (goto t (Serving WriteDone r) s1))"

text \<open>
  One round of the loop. The send channel is never closed, so the branch for a closed
  channel is never taken.
\<close>

definition writePump_round :: "ws_io \<Rightarrow> ws_ref \<Rightarrow> int \<Rightarrow> nat \<Rightarrow> bool \<Rightarrow> read_pc \<Rightarrow> ws_system \<Rightarrow> ws_system outcome" where
  "writePump_round io t now choice tick r s =
     (let c = sys_heap s t
      in case go_select choice (write_ready (wss_done (sys_server s)) (wsc_done c) (wsc_send c) tick) of
           None \<Rightarrow> Blocks
         | Some ServerDone \<Rightarrow>
             writePump_return io t r
               (put_conn t (fst (ws_WriteMessage io now CloseMessage (ClosePayload CloseNormalClosure []) c)) s)
         | Some ConnectionDone \<Rightarrow> writePump_return io t r s
         | Some Outgoing \<Rightarrow>
             (let (c', err) = ws_WriteMessage io now TextMessage (Payload (hd (wsc_send c))) (c\<lparr>wsc_send := tl (wsc_send c)\<rparr>);
                  s1 = put_conn t c' s
              in if err \<noteq> None then writePump_return io t r s1 else Return s1)
         | Some Tick \<Rightarrow>
             (let (c', err) = ws_WriteMessage io now PingMessage (Payload []) c;
                  s1 = put_conn t c' s
              in if err \<noteq> None then writePump_return io t r s1 else Return s1))"

section \<open>Other goroutines\<close>

definition other_send :: "ws_ref \<Rightarrow> nat \<Rightarrow> go_context \<Rightarrow> bytes \<Rightarrow> ws_system \<Rightarrow> ws_system outcome" where
  "other_send t choice ctx msg s =
     bind_outcome (ws_Send choice ctx msg (sys_heap s t))
       (\<lambda>(c, err). Return (put_conn t c
          (if err = None then update_thread t (\<lambda>th. th\<lparr>th_sent := th_sent th @ [msg]\<rparr>) s else s)))"

definition other_stop :: "ws_system \<Rightarrow> ws_system outcome" where
  "other_stop s = bind_outcome (ws_Stop (sys_server s)) (\<lambda>srv. Return (s\<lparr>sys_server := srv\<rparr>))"

section \<open>Interleaving\<close>

datatype ws_event =
    Arrive ws_ref HTTPRequest
  | Upgrade ws_ref "go_error option" int64
  | Authenticate ws_ref int
  | Register ws_ref
  | Connect ws_ref "go_error option"
  | StartRead ws_ref int
  | Pong ws_ref int
  | ReadMessage ws_ref bytes
  | ReadError ws_ref go_error
  | StartWrite ws_ref
  | WriteRound ws_ref int nat bool
  | Leave ws_ref
  | SendBy ws_ref nat go_context bytes
  | CloseBy ws_ref
  | Stop

text \<open>\<open>None\<close>: the goroutine is not at the point where the event happens.\<close>

fun session_exec :: "(ws_ref \<Rightarrow> ws_io) \<Rightarrow> ws_event \<Rightarrow> ws_system \<Rightarrow> ws_system outcome option" where
  "session_exec io (Arrive t r) s =
     (if th_pc (sys_thread s t) = Idle then Some (Return (handle_check t r s)) else None)"
| "session_exec io (Upgrade t err now) s =
     (if th_pc (sys_thread s t) = Checked then Some (Return (handle_upgrade t err now s)) else None)"
| "session_exec io (Authenticate t now) s =
     (if th_pc (sys_thread s t) = Accepted then Some (handle_auth (io t) t now s) else None)"
| "session_exec io (Register t) s =
     (if th_pc (sys_thread s t) = Admitted then Some (Return (handle_register t s)) else None)"
| "session_exec io (Connect t err) s =
     (if th_pc (sys_thread s t) = Joined then Some (handle_connect (io t) t err s) else None)"
| "session_exec io (StartRead t now) s =
     (case th_pc (sys_thread s t) of
        Serving w ReadStart \<Rightarrow> Some (Return (readPump_start (io t) t now w s)) | _ \<Rightarrow> None)"
| "session_exec io (Pong t now) s =
     (case th_pc (sys_thread s t) of Serving w Reading \<Rightarrow> Some (Return (readPump_pong (io t) t now s)) | _ \<Rightarrow> None)"
| "session_exec io (ReadMessage t msg) s =
     (case th_pc (sys_thread s t) of Serving w Reading \<Rightarrow> Some (Return (readPump_message t msg s)) | _ \<Rightarrow> None)"
| "session_exec io (ReadError t err) s =
     (case th_pc (sys_thread s t) of Serving w Reading \<Rightarrow> Some (readPump_error (io t) t err w s) | _ \<Rightarrow> None)"
| "session_exec io (StartWrite t) s =
     (case th_pc (sys_thread s t) of Serving WriteStart r \<Rightarrow> Some (writePump_start t r s) | _ \<Rightarrow> None)"
| "session_exec io (WriteRound t now choice tick) s =
     (case th_pc (sys_thread s t) of
        Serving Writing r \<Rightarrow> Some (writePump_round (io t) t now choice tick r s) | _ \<Rightarrow> None)"
| "session_exec io (Leave t) s =
     (if th_pc (sys_thread s t) \<in> {Leaving, Serving WriteDone ReadDone} then Some (Return (handle_return t s)) else None)"
| "session_exec io (SendBy t choice ctx msg) s =
     (if th_created (sys_thread s t) \<noteq> None then Some (other_send t choice ctx msg s) else None)"
| "session_exec io (CloseBy t) s =
     (if th_created (sys_thread s t) \<noteq> None then Some (close_conn (io t) t s) else None)"
| "session_exec io Stop s = Some (other_stop s)"

definition idle_thread :: ws_thread where
  "idle_thread = \<lparr>th_pc = Idle, th_request = \<lparr>req_Header = [], req_Query = [], req_Cookies = [], req_Host = []\<rparr>,
     th_status = None, th_created = None, th_calls = [], th_sent = []\<rparr>"

definition initial_system :: "ws_server \<Rightarrow> ws_system" where
  "initial_system srv = \<lparr>sys_server = srv, sys_heap = (\<lambda>_. ws_NewConnection [] [] 0), sys_thread = (\<lambda>_. idle_thread)\<rparr>"

text \<open>Connections are created at different times, to the nanosecond.\<close>

fun event_ok :: "ws_event \<Rightarrow> ws_system \<Rightarrow> bool" where
  "event_ok (Upgrade t err now) s = (\<forall>t'. th_created (sys_thread s t') \<noteq> Some now)"
| "event_ok _ s = True"

inductive session_reach :: "(ws_ref \<Rightarrow> ws_io) \<Rightarrow> ws_system \<Rightarrow> ws_system \<Rightarrow> bool" for io s0 where
  start: "session_reach io s0 s0"
| step: "session_reach io s0 s \<Longrightarrow> event_ok ev s \<Longrightarrow> session_exec io ev s = Some (Return s') \<Longrightarrow> session_reach io s0 s'"

section \<open>Invariants\<close>

text \<open>At which points a connection is counted, in the map of connections, and past authentication.\<close>

fun holds_slot :: "ws_pc \<Rightarrow> bool" where
  "holds_slot Idle = False" | "holds_slot Checked = False" | "holds_slot Finished = False" | "holds_slot _ = True"

fun is_joined :: "ws_pc \<Rightarrow> bool" where
  "is_joined Joined = True" | "is_joined (Serving w r) = True" | "is_joined Leaving = True" | "is_joined _ = False"

definition is_admitted :: "ws_pc \<Rightarrow> bool" where
  "is_admitted p \<longleftrightarrow> p = Admitted \<or> is_joined p"

fun closed_at :: "ws_pc \<Rightarrow> bool" where
  "closed_at (Serving w r) = (w = WriteDone \<or> r = ReadDone)"
| "closed_at Leaving = True" | "closed_at Finished = True" | "closed_at _ = False"

text \<open>The messages that were written to the socket.\<close>

fun text_of :: "ws_call \<Rightarrow> bytes list" where
  "text_of (WriteMessage ty (Payload b)) = (if ty = TextMessage then [b] else [])"
| "text_of _ = []"

definition text_writes :: "ws_call list \<Rightarrow> bytes list" where
  "text_writes calls = concat (map text_of calls)"

text \<open>The calls made to the handler, by point.\<close>

definition session_calls :: "bytes list \<Rightarrow> go_error \<Rightarrow> callback list" where
  "session_calls msgs err = OnConnect None # map OnMessage msgs @ [OnDisconnect err]"

fun calls_ok :: "ws_pc \<Rightarrow> callback list \<Rightarrow> bool" where
  "calls_ok (Serving w r) cs =
     (if r = ReadDone then \<exists>msgs err. cs = session_calls msgs err
      else \<exists>msgs. cs = OnConnect None # map OnMessage msgs)"
| "calls_ok Leaving cs = (\<exists>err. cs = [OnConnect (Some err)])"
| "calls_ok Finished cs = (cs = [] \<or> (\<exists>err. cs = [OnConnect (Some err)]) \<or> (\<exists>msgs err. cs = session_calls msgs err))"
| "calls_ok p cs = (cs = [])"

text \<open>What authentication gives for the request of a goroutine.\<close>

definition auth_result :: "ws_server \<Rightarrow> ws_thread \<Rightarrow> go_error + string" where
  "auth_result srv th =
     (if auth_Enabled (ws_Auth (wss_conf srv))
      then wss_authenticator srv
             \<lparr>ar_Protocol = ProtocolWebSocket, ar_HTTPRequest = Some (th_request th), ar_FirstMessage = []\<rparr>
      else Inr [])"

text \<open>The invariant of one goroutine and its connection.\<close>

definition thread_ok :: "ws_server \<Rightarrow> ws_thread \<Rightarrow> ws_connection \<Rightarrow> bool" where
  "thread_ok srv th c \<longleftrightarrow>
     calls_ok (th_pc th) (th_calls th) \<and>
     (is_admitted (th_pc th) \<longrightarrow> auth_result srv th = Inr (ws_UserID c)) \<and>
     (th_pc th = Accepted \<longrightarrow> ws_UserID c = []) \<and>
     (th_calls th \<noteq> [] \<longrightarrow> (\<exists>u. auth_result srv th = Inr u)) \<and>
     (case th_created th of
        None \<Rightarrow> th_pc th \<in> {Idle, Checked, Finished} \<and> th_calls th = [] \<and> th_sent th = []
      | Some now \<Rightarrow> th_pc th \<notin> {Idle, Checked} \<and> wsc_id c = generateConnID now \<and> ws_conn_ok c \<and>
          (closed_at (th_pc th) \<longrightarrow> wsc_done c) \<and> text_writes (wsc_conn c) @ wsc_send c = th_sent th)"

text \<open>The goroutines that are counted.\<close>

definition slots :: "ws_system \<Rightarrow> ws_ref set" where
  "slots s = {t. holds_slot (th_pc (sys_thread s t))}"

definition maps_match :: "ws_system \<Rightarrow> bool" where
  "maps_match s \<longleftrightarrow>
     (\<forall>k t. map_of (wss_connections (sys_server s)) k = Some t \<longleftrightarrow>
        is_joined (th_pc (sys_thread s t)) \<and> wsc_id (sys_heap s t) = k) \<and>
     (\<forall>u k t. user_view (wss_userConns (sys_server s)) u k = Some t \<longleftrightarrow>
        is_admitted (th_pc (sys_thread s t)) \<and> u \<noteq> [] \<and> ws_UserID (sys_heap s t) = u \<and> wsc_id (sys_heap s t) = k)"

definition session_inv :: "ws_system \<Rightarrow> bool" where
  "session_inv s \<longleftrightarrow>
     (\<forall>t. thread_ok (sys_server s) (sys_thread s t) (sys_heap s t)) \<and>
     (\<forall>t t' now. th_created (sys_thread s t) = Some now \<longrightarrow> th_created (sys_thread s t') = Some now \<longrightarrow> t' = t) \<and>
     finite (slots s) \<and> wss_connCount (sys_server s) = of_nat (card (slots s)) \<and>
     ws_maps_ok (sys_server s) \<and> maps_match s \<and> wss_once (sys_server s) = wss_done (sys_server s)"

text \<open>
  The effect of a step on the state that goroutines share: the step of the goroutine \<open>t\<close>, with
  \<open>th\<close> and \<open>c\<close> its state and connection after the step.
\<close>

inductive shared_effect :: "ws_ref \<Rightarrow> ws_thread \<Rightarrow> ws_connection \<Rightarrow> ws_system \<Rightarrow> ws_server \<Rightarrow> bool" for t th c s where
  quiet: "holds_slot (th_pc th) = holds_slot (th_pc (sys_thread s t)) \<Longrightarrow>
    is_joined (th_pc th) = is_joined (th_pc (sys_thread s t)) \<Longrightarrow>
    is_admitted (th_pc th) = is_admitted (th_pc (sys_thread s t)) \<or> ws_UserID c = [] \<and> ws_UserID (sys_heap s t) = [] \<Longrightarrow>
    th_created th = th_created (sys_thread s t) \<Longrightarrow>
    wsc_id c = wsc_id (sys_heap s t) \<Longrightarrow> ws_UserID c = ws_UserID (sys_heap s t) \<Longrightarrow>
    wss_connections srv = wss_connections (sys_server s) \<Longrightarrow> wss_userConns srv = wss_userConns (sys_server s) \<Longrightarrow>
    wss_connCount srv = wss_connCount (sys_server s) \<Longrightarrow> shared_effect t th c s srv"
| accept: "th_pc (sys_thread s t) = Checked \<Longrightarrow> th_pc th = Accepted \<Longrightarrow> th_created th = Some now \<Longrightarrow>
    (\<And>t'. th_created (sys_thread s t') \<noteq> Some now) \<Longrightarrow>
    srv = (sys_server s)\<lparr>wss_connCount := wss_connCount (sys_server s) + 1\<rparr> \<Longrightarrow> shared_effect t th c s srv"
| admit: "th_pc (sys_thread s t) = Accepted \<Longrightarrow> th_pc th = Admitted \<Longrightarrow> th_created th = th_created (sys_thread s t) \<Longrightarrow>
    wsc_id c = wsc_id (sys_heap s t) \<Longrightarrow> ws_UserID c \<noteq> [] \<Longrightarrow>
    srv = (sys_server s)\<lparr>wss_userConns := bind_in (ws_UserID c) (wsc_id c) t (wss_userConns (sys_server s))\<rparr> \<Longrightarrow>
    shared_effect t th c s srv"
| reject: "th_pc (sys_thread s t) = Accepted \<Longrightarrow> th_pc th = Finished \<Longrightarrow> th_created th = th_created (sys_thread s t) \<Longrightarrow>
    wsc_id c = wsc_id (sys_heap s t) \<Longrightarrow> ws_UserID c = ws_UserID (sys_heap s t) \<Longrightarrow>
    srv = (sys_server s)\<lparr>wss_connCount := wss_connCount (sys_server s) - 1\<rparr> \<Longrightarrow> shared_effect t th c s srv"
| join: "th_pc (sys_thread s t) = Admitted \<Longrightarrow> th_pc th = Joined \<Longrightarrow> th_created th = th_created (sys_thread s t) \<Longrightarrow>
    c = sys_heap s t \<Longrightarrow>
    srv = fst (ws_registerConnection t (sys_server s, sys_heap s)) \<Longrightarrow> shared_effect t th c s srv"
| leave: "is_joined (th_pc (sys_thread s t)) \<Longrightarrow> th_pc th = Finished \<Longrightarrow> th_created th = th_created (sys_thread s t) \<Longrightarrow>
    c = sys_heap s t \<Longrightarrow>
    srv = fst (ws_unregisterConnection t (sys_server s, sys_heap s)) \<Longrightarrow> shared_effect t th c s srv"

text \<open>A closed connection object: what \<^verbatim>\<open>Close\<close> makes of it.\<close>

definition shut :: "ws_connection \<Rightarrow> ws_connection" where
  "shut c = (if wsc_done c then c
     else c\<lparr>wsc_once := True, wsc_done := True,
            wsc_conn := wsc_conn c @ [WriteMessage CloseMessage (ClosePayload CloseNormalClosure []), CloseSocket]\<rparr>)"

definition after_calls :: "ws_call list \<Rightarrow> ws_connection \<Rightarrow> ws_connection" where
  "after_calls calls c = c\<lparr>wsc_conn := wsc_conn c @ calls\<rparr>"

text \<open>The calls of one \<^verbatim>\<open>WriteMessage\<close> of the wrapper.\<close>

definition write_calls :: "int \<Rightarrow> nat \<Rightarrow> payload \<Rightarrow> ws_connection \<Rightarrow> ws_call list" where
  "write_calls now ty d c =
     (if 0 < sint (wsc_writeTimeout c) then [SetWriteDeadline (now + sint (wsc_writeTimeout c))] else []) @ [WriteMessage ty d]"

definition same_setup :: "ws_server \<Rightarrow> ws_server \<Rightarrow> bool" where
  "same_setup a b \<longleftrightarrow> wss_conf a = wss_conf b \<and> wss_authenticator a = wss_authenticator b \<and>
     wss_done a = wss_done b \<and> wss_once a = wss_once b \<and> wss_server a = wss_server b"

text \<open>A step of one goroutine.\<close>

definition thread_step :: "ws_system \<Rightarrow> ws_system \<Rightarrow> bool" where
  "thread_step s s' \<longleftrightarrow>
     (\<exists>t th c. sys_thread s' = (sys_thread s)(t := th) \<and> sys_heap s' = (sys_heap s)(t := c) \<and>
        thread_ok (sys_server s) th c \<and> shared_effect t th c s (sys_server s') \<and>
        same_setup (sys_server s) (sys_server s'))"

text \<open>A server as \<^verbatim>\<open>NewServer\<close> returns it, possibly started.\<close>

definition fresh_server :: "ws_server \<Rightarrow> bool" where
  "fresh_server srv \<longleftrightarrow> wss_connections srv = [] \<and> wss_userConns srv = [] \<and> wss_connCount srv = 0 \<and>
     \<not> wss_done srv \<and> \<not> wss_once srv"

text \<open>The goroutines between the limit check and the upgrade, and runs in which there are at
  most \<open>n\<close> of them at any moment.\<close>

definition pending :: "ws_system \<Rightarrow> ws_ref set" where
  "pending s = {t. th_pc (sys_thread s t) = Checked}"

inductive paced_reach :: "nat \<Rightarrow> (ws_ref \<Rightarrow> ws_io) \<Rightarrow> ws_system \<Rightarrow> ws_system \<Rightarrow> bool" for n io s0 where
  start: "paced_reach n io s0 s0"
| step: "paced_reach n io s0 s \<Longrightarrow> event_ok ev s \<Longrightarrow> session_exec io ev s = Some (Return s') \<Longrightarrow>
    card (pending s') \<le> n \<Longrightarrow> paced_reach n io s0 s'"

text \<open>A run given by its events, for examples.\<close>

fun session_run :: "(ws_ref \<Rightarrow> ws_io) \<Rightarrow> ws_event list \<Rightarrow> ws_system \<Rightarrow> ws_system option" where
  "session_run io [] s = Some s"
| "session_run io (ev # evs) s =
     (if event_ok ev s then (case session_exec io ev s of Some (Return s') \<Rightarrow> session_run io evs s' | _ \<Rightarrow> None) else None)"

definition sample_request :: HTTPRequest where
  "sample_request = \<lparr>req_Header = [], req_Query = [], req_Cookies = [], req_Host = []\<rparr>"

text \<open>A started server with room for \<open>limit\<close> connections that accepts everybody as ``bob''.\<close>

definition sample_server :: "int64 \<Rightarrow> ws_server" where
  "sample_server limit =
     \<lparr>wss_conf = (default_WsConf sample_auth)\<lparr>ws_MaxConnections := limit\<rparr>,
      wss_authenticator = (\<lambda>_. Inr ''bob''), wss_metrics = [], wss_connections = [], wss_userConns = [],
      wss_connCount = 0, wss_server = Some '':8080'', wss_done = False, wss_once = False, wss_bufPool = NewPool 4096\<rparr>"

definition sample_session :: "ws_event list" where
  "sample_session = [Arrive 0 sample_request, Upgrade 0 None 7, Authenticate 0 8, Register 0, Connect 0 None,
     StartRead 0 9, StartWrite 0, SendBy 0 0 None [42], WriteRound 0 10 0 False, ReadMessage 0 [1],
     ReadError 0 (ErrorString ''closed''), WriteRound 0 11 0 False, Leave 0]"

section \<open>Lemmas on single steps\<close>

lemmas update_defs = update_thread_def goto_def called_def put_conn_def put_server_def add_count_def

lemma text_writes_append [simp]: "text_writes (xs @ ys) = text_writes xs @ text_writes ys"
  by (simp add: text_writes_def)

lemma text_writes_Cons [simp]: "text_writes (x # xs) = text_of x @ text_writes xs" "text_writes [] = []"
  by (simp_all add: text_writes_def)

lemma close_conn_eq: "ws_conn_ok (sys_heap s t) \<Longrightarrow> close_conn io t s = Return (put_conn t (shut (sys_heap s t)) s)"
  by (simp add: close_conn_def ws_Close_eq shut_def Let_def)

lemma shut_simps [simp]:
  "wsc_id (shut c) = wsc_id c" "ws_UserID (shut c) = ws_UserID c" "wsc_send (shut c) = wsc_send c" "wsc_done (shut c)"
  "text_writes (wsc_conn (shut c)) = text_writes (wsc_conn c)" "ws_conn_ok c \<Longrightarrow> ws_conn_ok (shut c)"
  by (auto simp: shut_def ws_UserID_def ws_conn_ok_def CloseMessage_def)

lemma after_calls_simps [simp]:
  "wsc_id (after_calls cs c) = wsc_id c" "wsc_userID (after_calls cs c) = wsc_userID c"
  "ws_UserID (after_calls cs c) = ws_UserID c"
  "wsc_send (after_calls cs c) = wsc_send c" "wsc_done (after_calls cs c) = wsc_done c"
  "wsc_conn (after_calls cs c) = wsc_conn c @ cs"
  "ws_conn_ok c \<Longrightarrow> CloseSocket \<notin> set cs \<Longrightarrow> ws_conn_ok (after_calls cs c)"
  by (auto simp: after_calls_def ws_UserID_def ws_conn_ok_def count_list_0_iff)

lemma write_calls_simps [simp]:
  "CloseSocket \<notin> set (write_calls now ty d c)" "text_writes (write_calls now ty d c) = text_of (WriteMessage ty d)"
  by (auto simp: write_calls_def)

lemma ws_WriteMessage_fst: "fst (ws_WriteMessage io now ty d c) = after_calls (write_calls now ty d c) c"
  by (simp add: ws_WriteMessage_def ws_call_def write_calls_def after_calls_def Let_def)

lemma ws_SetReadDeadline_eq: "ws_SetReadDeadline io d c = after_calls [SetReadDeadline d] c"
  by (simp add: ws_SetReadDeadline_def ws_call_def after_calls_def)

lemma is_admitted_simps [simp]:
  "\<not> is_admitted Idle" "\<not> is_admitted Checked" "\<not> is_admitted Accepted" "is_admitted Admitted"
  "is_admitted Joined" "is_admitted (Serving w r)" "is_admitted Leaving" "\<not> is_admitted Finished"
  by (simp_all add: is_admitted_def)

lemma session_invD:
  assumes "session_inv s"
  shows "thread_ok (sys_server s) (sys_thread s t) (sys_heap s t)"
    "finite (slots s)" "wss_connCount (sys_server s) = of_nat (card (slots s))" "ws_maps_ok (sys_server s)" "maps_match s"
    "wss_once (sys_server s) = wss_done (sys_server s)"
    "th_created (sys_thread s t) = Some now \<Longrightarrow> th_created (sys_thread s t') = Some now \<Longrightarrow> t' = t"
  using assms by (auto simp: session_inv_def)

lemma thread_okD:
  assumes "thread_ok srv th c" and "th_pc th \<notin> {Idle, Checked, Finished} \<or> th_created th \<noteq> None"
  shows "\<exists>now. th_created th = Some now \<and> wsc_id c = generateConnID now" and "ws_conn_ok c"
    and "text_writes (wsc_conn c) @ wsc_send c = th_sent th" and "closed_at (th_pc th) \<Longrightarrow> wsc_done c"
  using assms by (auto simp: thread_ok_def split: option.splits)

lemma thread_stepI:
  "sys_thread s' = (sys_thread s)(t := th) \<Longrightarrow> sys_heap s' = (sys_heap s)(t := c) \<Longrightarrow>
     thread_ok (sys_server s) th c \<Longrightarrow> shared_effect t th c s (sys_server s') \<Longrightarrow>
     same_setup (sys_server s) (sys_server s') \<Longrightarrow> thread_step s s'"
  by (auto simp: thread_step_def)

lemma same_setup_refl [simp]: "same_setup a a"
  by (simp add: same_setup_def)

text \<open>A step that changes only the goroutine and its connection.\<close>

lemma thread_step_quiet:
  assumes "s' = s\<lparr>sys_thread := (sys_thread s)(t := th), sys_heap := (sys_heap s)(t := c)\<rparr>"
    and "thread_ok (sys_server s) th c"
    and "holds_slot (th_pc th) = holds_slot (th_pc (sys_thread s t))"
    and "is_joined (th_pc th) = is_joined (th_pc (sys_thread s t))"
    and "is_admitted (th_pc th) = is_admitted (th_pc (sys_thread s t)) \<or> ws_UserID c = []"
    and "th_created th = th_created (sys_thread s t)"
    and "wsc_id c = wsc_id (sys_heap s t)" and "ws_UserID c = ws_UserID (sys_heap s t)"
  shows "thread_step s s'"
  by (rule thread_stepI [where t = t and th = th and c = c])
    (use assms in \<open>auto intro!: shared_effect.quiet\<close>)

lemma step_check:
  assumes "session_inv s" and "th_pc (sys_thread s t) = Idle"
  shows "thread_step s (handle_check t r s)"
proof -
  note ok = session_invD(1) [OF assms(1), of t]
  have old: "th_created (sys_thread s t) = None" "th_calls (sys_thread s t) = []" "th_sent (sys_thread s t) = []"
    using ok assms(2) by (auto simp: thread_ok_def split: option.splits)
  show ?thesis
    by (rule thread_step_quiet [where t = t and th = "sys_thread (handle_check t r s) t" and c = "sys_heap s t"])
      (use assms(2) old in \<open>auto simp: handle_check_def update_defs thread_ok_def Let_def\<close>)
qed

lemma step_upgrade:
  assumes "session_inv s" and "th_pc (sys_thread s t) = Checked" and "event_ok (Upgrade t err now) s"
  shows "thread_step s (handle_upgrade t err now s)"
proof -
  note ok = session_invD(1) [OF assms(1), of t]
  have old: "th_created (sys_thread s t) = None" "th_calls (sys_thread s t) = []" "th_sent (sys_thread s t) = []"
    using ok assms(2) by (auto simp: thread_ok_def split: option.splits)
  show ?thesis
  proof (cases err)
    case (Some e)
    show ?thesis
      by (rule thread_step_quiet [where t = t and th = "sys_thread (handle_upgrade t err now s) t" and c = "sys_heap s t"])
        (use Some assms(2) old in \<open>auto simp: handle_upgrade_def update_defs thread_ok_def\<close>)
  next
    case None
    let ?s = "handle_upgrade t err now s"
    show ?thesis
    proof (rule thread_stepI [where t = t and th = "sys_thread ?s t" and c = "sys_heap ?s t"])
      show "thread_ok (sys_server s) (sys_thread ?s t) (sys_heap ?s t)"
        using None old by (simp add: handle_upgrade_def update_defs thread_ok_def Let_def ws_conn_ok_New)
          (simp add: ws_NewConnection_def ws_UserID_def)
      show "shared_effect t (sys_thread ?s t) (sys_heap ?s t) s (sys_server ?s)"
        by (rule shared_effect.accept [where now = now])
          (use None assms in \<open>auto simp: handle_upgrade_def update_defs Let_def\<close>)
    qed (use None in \<open>auto simp: handle_upgrade_def update_defs Let_def same_setup_def\<close>)
  qed
qed

lemma step_auth:
  assumes "session_inv s" and "th_pc (sys_thread s t) = Accepted" and "handle_auth io t now s = Return s'"
  shows "thread_step s s'"
proof -
  note ok = session_invD(1) [OF assms(1), of t]
  let ?c = "sys_heap s t" and ?th = "sys_thread s t"
  have c: "ws_conn_ok ?c" "text_writes (wsc_conn ?c) @ wsc_send ?c = th_sent ?th" "ws_UserID ?c = []" "th_calls ?th = []"
    using thread_okD(2,3) [OF ok] ok assms(2) by (auto simp: thread_ok_def)
  obtain n where n: "th_created ?th = Some n" "wsc_id ?c = generateConnID n"
    using thread_okD(1) [OF ok] assms(2) by auto
  show ?thesis
  proof (cases "auth_result (sys_server s) ?th")
    case (Inl err)
    then have s': "s' = goto t Finished (add_count (- 1) (put_conn t
        (shut (after_calls (write_calls now CloseMessage (ClosePayload ClosePolicyViolation ''authentication failed'') ?c) ?c)) s))"
      using assms(3) c(1)
      by (auto simp: handle_auth_def auth_result_def Let_def close_conn_eq ws_WriteMessage_fst put_conn_def split: if_splits)
    show ?thesis unfolding s'
      by (rule thread_stepI [where t = t and th = "?th\<lparr>th_pc := Finished\<rparr>"])
        (use assms(2) c n in \<open>auto simp: update_defs thread_ok_def same_setup_def CloseMessage_def intro!: shared_effect.reject\<close>)
  next
    case (Inr u)
    then have s': "s' = goto t Admitted (if u \<noteq> [] then put_server (ws_BindUser t u (sys_server s, (sys_heap s)(t := ws_SetUserID u ?c)))
        (put_conn t (ws_SetUserID u ?c) s) else s)"
      using assms(3) by (auto simp: handle_auth_def auth_result_def Let_def put_conn_def split: if_splits)
    show ?thesis
    proof (cases "u = []")
      case True
      show ?thesis
        by (rule thread_step_quiet [where t = t and th = "?th\<lparr>th_pc := Admitted\<rparr>" and c = ?c])
          (use True s' Inr assms(2) c n in \<open>auto simp: update_defs thread_ok_def auth_result_def\<close>)
    next
      case False
      have cc: "ws_SetUserID u (ws_SetUserID u ?c) = ws_SetUserID u ?c" by (simp add: ws_SetUserID_def)
      have "ws_conn_ok (ws_SetUserID u ?c)" "wsc_conn (ws_SetUserID u ?c) = wsc_conn ?c"
        using c(1) by (simp_all add: ws_SetUserID_def ws_conn_ok_def)
      then show ?thesis unfolding s'
        by (intro thread_stepI [where t = t and th = "?th\<lparr>th_pc := Admitted\<rparr>" and c = "ws_SetUserID u ?c"])
          (use False Inr assms(2) c n cc in \<open>auto simp: update_defs thread_ok_def same_setup_def ws_BindUser_def auth_result_def Let_def
             intro!: shared_effect.admit split: if_splits\<close>)
    qed
  qed
qed

lemma step_register:
  assumes "session_inv s" and "th_pc (sys_thread s t) = Admitted"
  shows "thread_step s (handle_register t s)"
proof -
  note ok = session_invD(1) [OF assms(1), of t]
  show ?thesis
    by (rule thread_stepI [where t = t and th = "(sys_thread s t)\<lparr>th_pc := Joined\<rparr>" and c = "sys_heap s t"])
      (use ok assms(2) in \<open>auto simp: handle_register_def update_defs ws_registerConnection_def same_setup_def
         thread_ok_def auth_result_def intro!: shared_effect.join split: option.splits\<close>)
qed

lemma step_return:
  assumes "session_inv s" and "th_pc (sys_thread s t) \<in> {Leaving, Serving WriteDone ReadDone}"
  shows "thread_step s (handle_return t s)"
proof -
  note ok = session_invD(1) [OF assms(1), of t]
  have th: "thread_ok (sys_server s) ((sys_thread s t)\<lparr>th_pc := Finished\<rparr>) (sys_heap s t)"
    using ok assms(2) by (auto simp: thread_ok_def auth_result_def split: option.splits)
  show ?thesis
    by (rule thread_stepI [where t = t and th = "(sys_thread s t)\<lparr>th_pc := Finished\<rparr>" and c = "sys_heap s t"])
      (use th assms(2) in \<open>auto simp: handle_return_def update_defs ws_unregisterConnection_def same_setup_def Let_def
         intro!: shared_effect.leave\<close>)
qed

text \<open>The point after a step while the pumps run, and the connection at that point.\<close>

lemma thread_ok_conn:
  assumes "thread_ok srv th c" and "th_created th \<noteq> None"
    and "wsc_id c' = wsc_id c" and "ws_UserID c' = ws_UserID c" and "ws_conn_ok c'" and "wsc_done c \<Longrightarrow> wsc_done c'"
    and "text_writes (wsc_conn c') @ wsc_send c' = th_sent th @ sent"
  shows "thread_ok srv (th\<lparr>th_sent := th_sent th @ sent\<rparr>) c'"
  using assms by (auto simp: thread_ok_def auth_result_def split: option.splits)

lemma thread_ok_shut:
  assumes "thread_ok srv th c" and "th_created th \<noteq> None" and "is_admitted (th_pc th') = is_admitted (th_pc th)"
    and "th_pc th \<noteq> Accepted" and "th_pc th' \<notin> {Idle, Checked, Accepted}" and "calls_ok (th_pc th') (th_calls th')"
    and "th_calls th' = [] \<or> is_admitted (th_pc th')"
    and "th_request th' = th_request th" and "th_created th' = th_created th" and "th_sent th' = th_sent th"
    and "text_writes (wsc_conn c') @ wsc_send c' = th_sent th"
    and "wsc_id c' = wsc_id c" and "ws_UserID c' = ws_UserID c" and "ws_conn_ok c'"
    and "closed_at (th_pc th') \<Longrightarrow> wsc_done c'"
  shows "thread_ok srv th' c'"
  using assms by (auto simp: thread_ok_def auth_result_def split: option.splits)

lemma thread_update_order:
  "th\<lparr>th_calls := cs, th_pc := p\<rparr> = th\<lparr>th_pc := p, th_calls := cs\<rparr>"
  "s\<lparr>sys_heap := h, sys_thread := ths\<rparr> = s\<lparr>sys_thread := ths, sys_heap := h\<rparr>"
  by (cases th; simp) (cases s; simp)

lemma step_connect:
  assumes "session_inv s" and "th_pc (sys_thread s t) = Joined" and "handle_connect io t err s = Return s'"
  shows "thread_step s s'"
proof -
  note ok = session_invD(1) [OF assms(1), of t]
  let ?c = "sys_heap s t" and ?th = "sys_thread s t"
  have c: "ws_conn_ok ?c" "text_writes (wsc_conn ?c) @ wsc_send ?c = th_sent ?th" "th_calls ?th = []" "th_created ?th \<noteq> None"
    using thread_okD(1,2,3) [OF ok] ok assms(2) by (auto simp: thread_ok_def)
  let ?p = "if err = None then Serving WriteStart ReadStart else Leaving"
  let ?c' = "if err = None then ?c else shut ?c"
  have s': "s' = s\<lparr>sys_thread := (sys_thread s)(t := ?th\<lparr>th_pc := ?p, th_calls := [OnConnect err]\<rparr>), sys_heap := (sys_heap s)(t := ?c')\<rparr>"
    using assms(3) c by (auto simp: handle_connect_def Let_def close_conn_eq update_defs thread_update_order split: option.splits)
  show ?thesis
    by (rule thread_step_quiet [OF s'])
      (use assms(2) c in \<open>auto intro!: thread_ok_shut [OF ok]\<close>)
qed

lemma step_read:
  assumes "session_inv s" and "th_pc (sys_thread s t) = Serving w r" and "r \<noteq> ReadDone" and "r' \<noteq> ReadDone"
  shows "thread_step s (goto t (Serving w r') (put_conn t (after_calls [SetReadDeadline d] (sys_heap s t)) s))"
proof -
  note ok = session_invD(1) [OF assms(1), of t]
  let ?c = "sys_heap s t" and ?th = "sys_thread s t"
  have c: "ws_conn_ok ?c" "text_writes (wsc_conn ?c) @ wsc_send ?c = th_sent ?th" "th_created ?th \<noteq> None"
    "calls_ok (Serving w r') (th_calls ?th)" "w = WriteDone \<Longrightarrow> wsc_done ?c"
    using thread_okD [OF ok] ok assms by (auto simp: thread_ok_def)
  show ?thesis
    by (rule thread_step_quiet [where t = t and th = "?th\<lparr>th_pc := Serving w r'\<rparr>" and
          c = "after_calls [SetReadDeadline d] ?c"])
      (use assms(2,4) c in \<open>auto simp: update_defs intro!: thread_ok_shut [OF ok]\<close>)
qed

lemma step_message:
  assumes "session_inv s" and "th_pc (sys_thread s t) = Serving w Reading"
  shows "thread_step s (readPump_message t msg s)"
proof -
  note ok = session_invD(1) [OF assms(1), of t]
  let ?c = "sys_heap s t" and ?th = "sys_thread s t"
  have c: "ws_conn_ok ?c" "text_writes (wsc_conn ?c) @ wsc_send ?c = th_sent ?th" "th_created ?th \<noteq> None"
    "w = WriteDone \<Longrightarrow> wsc_done ?c"
    using thread_okD [OF ok] ok assms by (auto simp: thread_ok_def)
  obtain msgs where "th_calls ?th = OnConnect None # map OnMessage msgs"
    using ok assms(2) by (auto simp: thread_ok_def)
  then have calls: "calls_ok (Serving w Reading) (th_calls ?th @ [OnMessage msg])"
    by (auto intro!: exI [of _ "msgs @ [msg]"])
  show ?thesis
    by (rule thread_step_quiet [where t = t and th = "?th\<lparr>th_calls := th_calls ?th @ [OnMessage msg]\<rparr>" and
          c = ?c])
      (use assms(2) c calls in \<open>auto simp: readPump_message_def update_defs intro!: thread_ok_shut [OF ok]\<close>)
qed

lemma step_read_error:
  assumes "session_inv s" and "th_pc (sys_thread s t) = Serving w Reading" and "readPump_error io t err w s = Return s'"
  shows "thread_step s s'"
proof -
  note ok = session_invD(1) [OF assms(1), of t]
  let ?c = "sys_heap s t" and ?th = "sys_thread s t"
  have c: "ws_conn_ok ?c" "text_writes (wsc_conn ?c) @ wsc_send ?c = th_sent ?th" "th_created ?th \<noteq> None"
    using thread_okD [OF ok] ok assms by (auto simp: thread_ok_def)
  obtain msgs where "th_calls ?th = OnConnect None # map OnMessage msgs"
    using ok assms(2) by (auto simp: thread_ok_def)
  then have calls: "calls_ok (Serving w ReadDone) (th_calls ?th @ [OnDisconnect err])"
    by (auto simp: session_calls_def)
  have s': "s' = s\<lparr>sys_thread := (sys_thread s)(t := ?th\<lparr>th_pc := Serving w ReadDone, th_calls := th_calls ?th @ [OnDisconnect err]\<rparr>),
      sys_heap := (sys_heap s)(t := shut ?c)\<rparr>"
    using assms(3) c by (auto simp: readPump_error_def close_conn_eq update_defs thread_update_order)
  show ?thesis
    by (rule thread_step_quiet [OF s']) (use assms(2) c calls in \<open>auto intro!: thread_ok_shut [OF ok] simp del: calls_ok.simps\<close>)
qed

text \<open>Steps of the write pump: the pump goes on, or it returns and closes the connection.\<close>

lemma step_write:
  assumes "session_inv s" and "th_pc (sys_thread s t) = Serving w r" and "w \<noteq> WriteDone"
    and "text_writes (wsc_conn c) @ wsc_send c = text_writes (wsc_conn (sys_heap s t)) @ wsc_send (sys_heap s t)"
    and "wsc_id c = wsc_id (sys_heap s t)" and "ws_UserID c = ws_UserID (sys_heap s t)"
    and "ws_conn_ok c" and "wsc_done c = wsc_done (sys_heap s t)"
  shows "w' \<noteq> WriteDone \<Longrightarrow> thread_step s (goto t (Serving w' r) (put_conn t c s))"
    and "writePump_return io t r (put_conn t c s) = Return s' \<Longrightarrow> thread_step s s'"
proof -
  note ok = session_invD(1) [OF assms(1), of t]
  let ?th = "sys_thread s t"
  have c: "text_writes (wsc_conn c) @ wsc_send c = th_sent ?th" "th_created ?th \<noteq> None"
    "calls_ok (Serving w' r) (th_calls ?th)" "calls_ok (Serving WriteDone r) (th_calls ?th)" "r = ReadDone \<Longrightarrow> wsc_done c"
    using thread_okD [OF ok] ok assms by (auto simp: thread_ok_def)
  show "thread_step s (goto t (Serving w' r) (put_conn t c s))" if "w' \<noteq> WriteDone"
    by (rule thread_step_quiet [where t = t and th = "?th\<lparr>th_pc := Serving w' r\<rparr>" and c = c])
      (use that assms c in \<open>auto simp: update_defs thread_update_order intro!: thread_ok_shut [OF ok] simp del: calls_ok.simps\<close>)
  assume "writePump_return io t r (put_conn t c s) = Return s'"
  then have s': "s' = goto t (Serving WriteDone r) (put_conn t (shut c) (put_conn t c s))"
    using assms(7) by (simp add: writePump_return_def close_conn_eq put_conn_def)
  show "thread_step s s'"
    by (rule thread_step_quiet [where t = t and th = "?th\<lparr>th_pc := Serving WriteDone r\<rparr>" and c = "shut c"])
      (use s' assms c in \<open>auto simp: update_defs thread_update_order intro!: thread_ok_shut [OF ok] simp del: calls_ok.simps\<close>)
qed

lemma goto_same:
  assumes "th_pc (sys_thread s t) = p"
  shows "goto t p s = s"
proof -
  have "(sys_thread s t)\<lparr>th_pc := p\<rparr> = sys_thread s t" using assms by (cases "sys_thread s t") simp
  then show ?thesis by (simp add: update_defs)
qed

lemma step_write_round:
  assumes "session_inv s" and "th_pc (sys_thread s t) = Serving Writing r"
    and "writePump_round io t now choice tick r s = Return s'"
  shows "thread_step s s'"
proof -
  note ok = session_invD(1) [OF assms(1), of t]
  let ?c = "sys_heap s t"
  have c: "ws_conn_ok ?c" using thread_okD(2) [OF ok] assms(2) by simp
  note sw = step_write [OF assms(1,2)]
  have pc: "th_pc (sys_thread (put_conn t c s) t) = Serving Writing r" for c
    using assms(2) by (simp add: put_conn_def)
  obtain x where x: "go_select choice (write_ready (wss_done (sys_server s)) (wsc_done ?c) (wsc_send ?c) tick) = Some x"
    using assms(3) by (cases "go_select choice (write_ready (wss_done (sys_server s)) (wsc_done ?c) (wsc_send ?c) tick)")
      (simp_all add: writePump_round_def Let_def del: go_select_None)
  note round = assms(3) [unfolded writePump_round_def Let_def x]
  show ?thesis
  proof (cases x)
    case ServerDone
    then show ?thesis
      using round sw(2) [of "after_calls (write_calls now CloseMessage (ClosePayload CloseNormalClosure []) ?c) ?c" io s'] c
      by (simp add: ws_WriteMessage_fst CloseMessage_def)
  next
    case ConnectionDone
    then show ?thesis using round sw(2) [of ?c io s'] c by (simp add: put_conn_def)
  next
    case Outgoing
    then have ne: "wsc_send ?c \<noteq> []"
      using go_select_in [OF x] by (auto simp: write_ready_def split: if_splits)
    define c0 where "c0 = ?c\<lparr>wsc_send := tl (wsc_send ?c)\<rparr>"
    define c1 where "c1 = after_calls (write_calls now TextMessage (Payload (hd (wsc_send ?c))) c0) c0"
    have "ws_conn_ok c0" using c ne by (auto simp: c0_def ws_conn_ok_def)
    then have ok1: "ws_conn_ok c1" "wsc_id c1 = wsc_id ?c" "ws_UserID c1 = ws_UserID ?c" "wsc_done c1 = wsc_done ?c"
      "text_writes (wsc_conn c1) @ wsc_send c1 = text_writes (wsc_conn ?c) @ wsc_send ?c"
      using ne by (auto simp: c1_def c0_def ws_UserID_def TextMessage_def)
    have "s' = put_conn t c1 s \<or> writePump_return io t r (put_conn t c1 s) = Return s'"
      using round Outgoing ws_WriteMessage_fst [of io now TextMessage "Payload (hd (wsc_send ?c))" c0]
      by (auto simp: c0_def [symmetric] c1_def split: prod.splits if_splits)
    then show ?thesis
      using sw(1) [of c1 Writing] sw(2) [of c1 io s'] ok1 goto_same [OF pc] by auto
  next
    case Tick
    define c1 where "c1 = after_calls (write_calls now PingMessage (Payload []) ?c) ?c"
    have ok1: "ws_conn_ok c1" "wsc_id c1 = wsc_id ?c" "ws_UserID c1 = ws_UserID ?c" "wsc_done c1 = wsc_done ?c"
      "text_writes (wsc_conn c1) @ wsc_send c1 = text_writes (wsc_conn ?c) @ wsc_send ?c"
      using c by (auto simp: c1_def PingMessage_def TextMessage_def)
    have "s' = put_conn t c1 s \<or> writePump_return io t r (put_conn t c1 s) = Return s'"
      using round Tick ws_WriteMessage_fst [of io now PingMessage "Payload []" ?c]
      by (auto simp: c1_def split: prod.splits if_splits)
    then show ?thesis
      using sw(1) [of c1 Writing] sw(2) [of c1 io s'] ok1 goto_same [OF pc] by auto
  qed
qed

lemma step_send:
  assumes "session_inv s" and "th_created (sys_thread s t) \<noteq> None" and "other_send t choice ctx msg s = Return s'"
  shows "thread_step s s'"
proof -
  note ok = session_invD(1) [OF assms(1), of t]
  let ?c = "sys_heap s t" and ?th = "sys_thread s t"
  have c: "ws_conn_ok ?c" "text_writes (wsc_conn ?c) @ wsc_send ?c = th_sent ?th"
    using thread_okD(2,3) [OF ok] assms(2) by auto
  obtain c' err where send: "ws_Send choice ctx msg ?c = Return (c', err)"
    and s': "s' = put_conn t c' (if err = None then update_thread t (\<lambda>th. th\<lparr>th_sent := th_sent th @ [msg]\<rparr>) s else s)"
    using assms(3) by (auto simp: other_send_def)
  from send show ?thesis
  proof (cases rule: ws_Send_ReturnE)
    case queued
    have "thread_ok (sys_server s) (?th\<lparr>th_sent := th_sent ?th @ [msg]\<rparr>) c'"
      by (rule thread_ok_conn [OF ok assms(2)]) (use c queued in \<open>auto simp: ws_conn_ok_def ws_UserID_def\<close>)
    then show ?thesis
      by (rule thread_step_quiet [rotated 1]) (use queued s' in \<open>auto simp: update_defs ws_UserID_def\<close>)
  next
    case cancelled
    then show ?thesis
      by (intro thread_step_quiet [where t = t and th = ?th and c = ?c]) (use ok s' in \<open>auto simp: update_defs\<close>)
  next
    case down
    then show ?thesis
      by (intro thread_step_quiet [where t = t and th = ?th and c = ?c]) (use ok s' in \<open>auto simp: update_defs\<close>)
  qed
qed

lemma step_close:
  assumes "session_inv s" and "th_created (sys_thread s t) \<noteq> None" and "close_conn io t s = Return s'"
  shows "thread_step s s'"
proof -
  note ok = session_invD(1) [OF assms(1), of t]
  let ?c = "sys_heap s t" and ?th = "sys_thread s t"
  have c: "ws_conn_ok ?c" "text_writes (wsc_conn ?c) @ wsc_send ?c = th_sent ?th"
    using thread_okD(2,3) [OF ok] assms(2) by auto
  have th: "thread_ok (sys_server s) ?th (shut ?c)"
    using thread_ok_conn [OF ok assms(2), of "shut ?c" "[]"] c by simp
  have s': "s' = put_conn t (shut ?c) s" using assms(3) c by (simp add: close_conn_eq)
  show ?thesis
    by (rule thread_step_quiet [where t = t and th = ?th and c = "shut ?c"]) (use th s' in \<open>auto simp: update_defs\<close>)
qed

lemma step_start_write:
  assumes "session_inv s" and "th_pc (sys_thread s t) = Serving WriteStart r" and "writePump_start t r s = Return s'"
  shows "thread_step s s'"
proof -
  have "ws_conn_ok (sys_heap s t)" using thread_okD(2) [OF session_invD(1) [OF assms(1)]] assms(2) by simp
  moreover have "s' = goto t (Serving Writing r) (put_conn t (sys_heap s t) s)"
    using assms(3) by (auto simp: writePump_start_def put_conn_def split: if_splits)
  ultimately show ?thesis using step_write(1) [OF assms(1,2), of "sys_heap s t" Writing] by simp
qed

lemma step_start_read:
  assumes "session_inv s" and "th_pc (sys_thread s t) = Serving w ReadStart"
  shows "thread_step s (readPump_start io t now w s)"
  using step_read [OF assms, of Reading] by (simp add: readPump_start_def ws_SetReadDeadline_eq)

lemma step_pong:
  assumes "session_inv s" and "th_pc (sys_thread s t) = Serving w Reading"
  shows "thread_step s (readPump_pong io t now s)"
  using step_read [OF assms, of Reading] goto_same [of "put_conn t _ s" t "Serving w Reading"] assms(2)
  by (simp add: readPump_pong_def ws_SetReadDeadline_eq put_conn_def)

lemmas thread_steps = step_check step_upgrade step_auth step_register step_connect step_start_read step_pong
  step_message step_read_error step_start_write step_write_round step_return step_send step_close

lemma session_exec_step:
  assumes "session_inv s" and "event_ok ev s" and "session_exec io ev s = Some (Return s')"
  shows "thread_step s s' \<or> other_stop s = Return s'"
  using assms
  by (cases ev) (auto intro: thread_steps split: if_splits ws_pc.splits write_pc.splits read_pc.splits)

section \<open>The shared state\<close>

text \<open>The number of counted goroutines after a step.\<close>

lemma slots_update:
  assumes "sys_thread s' = (sys_thread s)(t := th)"
  shows "slots s' = (if holds_slot (th_pc th) then insert t (slots s) else slots s - {t})"
  using assms by (auto simp: slots_def)

lemma count_update:
  assumes "finite (slots s)" and "sys_thread s' = (sys_thread s)(t := th)"
  shows "finite (slots s')"
    and "of_nat (card (slots s')) = (of_nat (card (slots s)) :: int64) +
      (if holds_slot (th_pc th) \<and> \<not> holds_slot (th_pc (sys_thread s t)) then 1
       else if \<not> holds_slot (th_pc th) \<and> holds_slot (th_pc (sys_thread s t)) then - 1 else 0)"
proof -
  have t: "t \<in> slots s \<longleftrightarrow> holds_slot (th_pc (sys_thread s t))" by (simp add: slots_def)
  show "finite (slots s')" using assms(1) by (simp add: slots_update [OF assms(2)])
  have "0 < card (slots s)" if "t \<in> slots s" using assms(1) that card_gt_0_iff by blast
  then show "of_nat (card (slots s')) = (of_nat (card (slots s)) :: int64) +
      (if holds_slot (th_pc th) \<and> \<not> holds_slot (th_pc (sys_thread s t)) then 1
       else if \<not> holds_slot (th_pc th) \<and> holds_slot (th_pc (sys_thread s t)) then - 1 else 0)"
    using assms(1) t by (auto simp: slots_update [OF assms(2)] insert_absorb of_nat_diff)
qed

lemma admitted_holds [simp]: "is_admitted p \<Longrightarrow> holds_slot p" "is_joined p \<Longrightarrow> holds_slot p" "is_joined p \<Longrightarrow> is_admitted p"
  by (cases p; simp)+

lemma effect_count:
  assumes "shared_effect t th c s srv"
  shows "wss_connCount srv = wss_connCount (sys_server s) +
      (if holds_slot (th_pc th) \<and> \<not> holds_slot (th_pc (sys_thread s t)) then 1
       else if \<not> holds_slot (th_pc th) \<and> holds_slot (th_pc (sys_thread s t)) then - 1 else 0)"
  using assms by cases (auto simp: ws_registerConnection_def ws_unregisterConnection_def Let_def)

lemma effect_maps_ok: "shared_effect t th c s srv \<Longrightarrow> ws_maps_ok (sys_server s) \<Longrightarrow> ws_maps_ok srv"
  by (erule shared_effect.cases)
    (auto simp: ws_maps_ok_def ws_registerConnection_def ws_unregisterConnection_def Let_def)

text \<open>Connections of different goroutines have different IDs.\<close>

lemma session_ids:
  assumes "session_inv s" and "holds_slot (th_pc (sys_thread s t))" and "holds_slot (th_pc (sys_thread s t'))"
    and "wsc_id (sys_heap s t) = wsc_id (sys_heap s t')"
  shows "t = t'"
proof -
  have "th_pc (sys_thread s x) \<notin> {Idle, Checked, Finished}" if "holds_slot (th_pc (sys_thread s x))" for x
    using that by auto
  then obtain a b where "th_created (sys_thread s t) = Some a" "wsc_id (sys_heap s t) = generateConnID a"
    "th_created (sys_thread s t') = Some b" "wsc_id (sys_heap s t') = generateConnID b"
    using assms(2,3) thread_okD(1) [OF session_invD(1) [OF assms(1)]] by metis
  then show ?thesis using assms(4) session_invD(7) [OF assms(1)] by (auto simp: generateConnID_inject)
qed

lemma effect_maps_match:
  assumes inv: "session_inv s" and e: "shared_effect t th c s (sys_server s')"
    and th: "sys_thread s' = (sys_thread s)(t := th)" and c: "sys_heap s' = (sys_heap s)(t := c)"
  shows "maps_match s'"
proof -
  note m = session_invD(5) [OF inv, unfolded maps_match_def]
  note ids = session_ids [OF inv]
  from e show ?thesis
  proof cases
    case quiet
    then show ?thesis using m by (auto simp: maps_match_def th c)
  next
    case (accept now)
    then show ?thesis using m by (auto simp: maps_match_def th c)
  next
    case admit
    then show ?thesis using m ids by (fastforce simp: maps_match_def th c)
  next
    case reject
    then show ?thesis using m by (auto simp: maps_match_def th c)
  next
    case join
    then show ?thesis using m ids by (fastforce simp: maps_match_def th c ws_registerConnection_def)
  next
    case leave
    then show ?thesis using m ids by (fastforce simp: maps_match_def th c ws_unregisterConnection_def Let_def)
  qed
qed

lemma thread_ok_cong:
  "wss_conf a = wss_conf b \<Longrightarrow> wss_authenticator a = wss_authenticator b \<Longrightarrow> thread_ok a = thread_ok b"
  by (simp add: thread_ok_def auth_result_def fun_eq_iff)

lemma thread_ok_setup: "same_setup a b \<Longrightarrow> thread_ok a = thread_ok b"
  by (rule thread_ok_cong) (simp_all add: same_setup_def)

lemma effect_created:
  assumes "shared_effect t th c s srv"
  shows "th_created th = th_created (sys_thread s t) \<or> (\<forall>t'. th_created th \<noteq> th_created (sys_thread s t'))"
  using assms
proof cases
  case (accept now)
  then show ?thesis by metis
qed simp_all

lemma inv_thread_step:
  assumes inv: "session_inv s" and "thread_step s s'"
  shows "session_inv s'"
proof -
  obtain t th c where th: "sys_thread s' = (sys_thread s)(t := th)" and c: "sys_heap s' = (sys_heap s)(t := c)"
    and ok: "thread_ok (sys_server s) th c" and e: "shared_effect t th c s (sys_server s')"
    and same: "same_setup (sys_server s) (sys_server s')"
    using assms(2) by (auto simp: thread_step_def)
  note D = session_invD [OF inv]
  have "thread_ok (sys_server s') (sys_thread s' x) (sys_heap s' x)" for x
    using ok D(1) by (simp add: th c thread_ok_setup [OF same, symmetric])
  moreover have "t2 = t1" if "th_created (sys_thread s' t1) = Some now" "th_created (sys_thread s' t2) = Some now" for t1 t2 now
    using that D(7) [of t1 now t2] D(7) [of t now t2] D(7) [of t1 now t] effect_created [OF e]
    by (auto simp: th split: if_splits) metis+
  moreover have "finite (slots s')" by (rule count_update(1) [OF D(2) th])
  moreover have "wss_connCount (sys_server s') = of_nat (card (slots s'))"
    by (simp add: effect_count [OF e] count_update(2) [OF D(2) th] D(3))
  moreover have "wss_once (sys_server s') = wss_done (sys_server s')" using same D(6) by (auto simp: same_setup_def)
  ultimately show ?thesis
    unfolding session_inv_def using effect_maps_ok [OF e D(4)] effect_maps_match [OF inv e th c] by blast
qed

lemma inv_stop:
  assumes inv: "session_inv s" and "other_stop s = Return s'"
  shows "session_inv s'"
proof -
  have "s' = s \<or> s' = s\<lparr>sys_server := (sys_server s)\<lparr>wss_once := True, wss_done := True\<rparr>\<rparr>"
    using assms(2) by (auto simp: other_stop_def ws_Stop_def Let_def split: if_splits)
  moreover have "thread_ok ((sys_server s)\<lparr>wss_once := True, wss_done := True\<rparr>) = thread_ok (sys_server s)"
    by (rule thread_ok_cong) simp_all
  ultimately show ?thesis using inv
    by (elim disjE) (simp_all add: session_inv_def slots_def maps_match_def ws_maps_ok_def)
qed

lemma session_inv_exec:
  "session_inv s \<Longrightarrow> event_ok ev s \<Longrightarrow> session_exec io ev s = Some (Return s') \<Longrightarrow> session_inv s'"
  using session_exec_step inv_thread_step inv_stop by blast

lemma fresh_NewServer: "ws_NewServer e conf opts = Inr srv \<Longrightarrow> fresh_server srv \<and> fresh_server (ws_Start srv) \<and> wss_conf srv = conf"
  by (auto simp: ws_NewServer_def fresh_server_def ws_Start_def Let_def split: option.splits prod.splits)

lemma session_inv_initial: "fresh_server srv \<Longrightarrow> session_inv (initial_system srv)"
  by (simp add: session_inv_def fresh_server_def initial_system_def idle_thread_def thread_ok_def slots_def
      ws_maps_ok_def maps_match_def)

lemma session_inv_reach:
  assumes "session_reach io (initial_system srv) s" and "fresh_server srv"
  shows "session_inv s"
  using assms by (induction rule: session_reach.induct) (auto intro: session_inv_initial session_inv_exec)

text \<open>Configuration and authenticator never change.\<close>

lemma exec_setup:
  assumes "session_inv s" and "event_ok ev s" and "session_exec io ev s = Some (Return s')"
  shows "wss_conf (sys_server s') = wss_conf (sys_server s) \<and>
    wss_authenticator (sys_server s') = wss_authenticator (sys_server s) \<and> wss_server (sys_server s') = wss_server (sys_server s)"
  using session_exec_step [OF assms]
  by (auto simp: thread_step_def same_setup_def other_stop_def ws_Stop_def Let_def split: if_splits)

lemma reach_setup:
  assumes "session_reach io (initial_system srv) s" and "fresh_server srv"
  shows "wss_conf (sys_server s) = wss_conf srv \<and> wss_authenticator (sys_server s) = wss_authenticator srv \<and>
    wss_server (sys_server s) = wss_server srv"
  using assms
proof (induction rule: session_reach.induct)
  case start
  then show ?case by (simp add: initial_system_def)
next
  case (step s ev s')
  then show ?case using exec_setup [OF session_inv_reach [OF step.hyps(1) step.prems] step.hyps(2,3)] by simp
qed

section \<open>Connection limit\<close>

lemma session_run_reach: "session_run io evs s = Some s' \<Longrightarrow> session_reach io s0 s \<Longrightarrow> session_reach io s0 s'"
  by (induction evs arbitrary: s) (auto intro: session_reach.step split: if_splits option.splits outcome.splits)

lemma paced_reach_reach: "paced_reach n io s0 s \<Longrightarrow> session_reach io s0 s"
  by (induction rule: paced_reach.induct) (auto intro: session_reach.intros)

text \<open>A goroutine that passes the check finds the counter below the limit; all other steps keep
  or lower the number of goroutines that are checked or counted.\<close>

definition admission :: "ws_system \<Rightarrow> ws_ref set" where
  "admission s = pending s \<union> slots s"

lemma close_conn_thread: "close_conn io t s = Return s' \<Longrightarrow> sys_thread s' = sys_thread s"
  by (auto simp: close_conn_def put_conn_def)

text \<open>The calls that an event makes, goroutine by goroutine; requests change only on arrival.\<close>

fun event_call :: "ws_event \<Rightarrow> (ws_ref \<times> callback) option" where
  "event_call (Connect t err) = Some (t, OnConnect err)"
| "event_call (ReadMessage t msg) = Some (t, OnMessage msg)"
| "event_call (ReadError t err) = Some (t, OnDisconnect err)"
| "event_call ev = None"

definition event_calls :: "ws_event \<Rightarrow> ws_ref \<Rightarrow> callback list" where
  "event_calls ev t = (case event_call ev of None \<Rightarrow> [] | Some (t', x) \<Rightarrow> if t = t' then [x] else [])"

lemmas exec_defs = update_defs handle_check_def handle_upgrade_def handle_auth_def handle_register_def
  handle_connect_def handle_return_def readPump_start_def readPump_pong_def readPump_message_def readPump_error_def
  writePump_start_def writePump_round_def writePump_return_def other_send_def other_stop_def Let_def

lemma exec_calls:
  assumes "session_exec io ev s = Some (Return s')"
  shows "th_calls (sys_thread s' t) = th_calls (sys_thread s t) @ event_calls ev t"
  using assms
  by (cases ev)
    (auto simp: exec_defs event_calls_def dest!: close_conn_thread split: if_splits option.splits sum.splits prod.splits ws_pc.splits read_pc.splits
       write_pc.splits write_case.splits)

lemma exec_request:
  assumes "session_exec io ev s = Some (Return s')" and "th_pc (sys_thread s t) \<noteq> Idle"
  shows "th_request (sys_thread s' t) = th_request (sys_thread s t)"
  using assms
  by (cases ev)
    (auto simp: exec_defs dest!: close_conn_thread split: if_splits option.splits sum.splits prod.splits ws_pc.splits read_pc.splits
       write_pc.splits write_case.splits)

lemma exec_created:
  assumes "session_exec io ev s = Some (Return s')" and "th_created (sys_thread s t) = Some now" and "th_pc (sys_thread s t) \<noteq> Checked"
  shows "th_created (sys_thread s' t) = Some now"
  using assms
  by (cases ev)
    (auto simp: exec_defs dest!: close_conn_thread split: if_splits option.splits sum.splits prod.splits ws_pc.splits read_pc.splits
       write_pc.splits write_case.splits)

lemma exec_entered:
  assumes "session_exec io ev s = Some (Return s')" and "\<nexists>t r. ev = Arrive t r" and "t \<in> admission s'"
  shows "t \<in> admission s"
  using assms
  by (cases ev)
    (auto simp: admission_def pending_def slots_def exec_defs dest!: close_conn_thread split: if_splits option.splits sum.splits prod.splits ws_pc.splits read_pc.splits
       write_pc.splits write_case.splits)

lemma admission_step:
  assumes inv: "session_inv s" and "event_ok ev s" and "session_exec io ev s = Some (Return s')"
  shows "admission s' \<subseteq> admission s \<or>
    (\<exists>t. admission s' = insert t (admission s) \<and> pending s' = insert t (pending s) \<and> slots s' = slots s \<and>
       (0 < sint (ws_MaxConnections (wss_conf (sys_server s))) \<longrightarrow>
        int64_less (wss_connCount (sys_server s)) (ws_MaxConnections (wss_conf (sys_server s)))))"
proof (cases "\<exists>t r. ev = Arrive t r")
  case True
  then obtain t r where "ev = Arrive t r" "th_pc (sys_thread s t) = Idle" "s' = handle_check t r s"
    using assms(3) by (auto split: if_splits)
  then show ?thesis
    by (auto simp: handle_check_def update_defs admission_def pending_def slots_def Let_def)
next
  case False
  then show ?thesis using exec_entered [OF assms(3)] by blast
qed

lemma paced_admission:
  assumes "paced_reach n io (initial_system srv) s" and fresh: "fresh_server srv"
    and M: "M = nat (sint (ws_MaxConnections (wss_conf srv)))" "0 < M" and small: "M + n < 2 ^ 63"
  shows "finite (admission s) \<and> card (admission s) < M + n"
  using assms(1)
proof (induction rule: paced_reach.induct)
  case start
  have "admission (initial_system srv) = {}"
    by (simp add: admission_def pending_def slots_def initial_system_def idle_thread_def)
  then show ?case using M by simp
next
  case (step s ev s')
  have reach: "session_reach io (initial_system srv) s" by (rule paced_reach_reach [OF step.hyps(1)])
  note inv = session_inv_reach [OF reach fresh]
  have sub: "slots s \<subseteq> admission s" by (simp add: admission_def)
  show ?case
  proof (cases "admission s' \<subseteq> admission s")
    case True
    then have "card (admission s') \<le> card (admission s)" "finite (admission s')"
      using step.IH card_mono finite_subset by blast+
    then show ?thesis using step.IH by linarith
  next
    case False
    then obtain t where t: "admission s' = insert t (admission s)" "pending s' = insert t (pending s)" "slots s' = slots s"
      "0 < sint (ws_MaxConnections (wss_conf srv)) \<longrightarrow> int64_less (wss_connCount (sys_server s)) (ws_MaxConnections (wss_conf srv))"
      using admission_step [OF inv step.hyps(2,3)] reach_setup [OF reach fresh] by auto
    have le: "card (slots s) \<le> card (admission s)" using sub step.IH card_mono by blast
    then have "card (slots s) < 2 ^ 63" using step.IH small by linarith
    then have "sint (wss_connCount (sys_server s)) = int (card (slots s))"
      using session_invD(3) [OF inv] by (simp add: sint_of_nat64)
    then have "card (slots s) < M" using t(4) M by simp
    moreover have "card (admission s') \<le> card (pending s') + card (slots s')"
      unfolding admission_def by (rule card_Un_le)
    ultimately show ?thesis using t step.hyps(4) step.IH by simp
  qed
qed

section \<open>Panics\<close>

lemma WriteMessage_ok:
  assumes "ws_WriteMessage io now ty d c = (c', err)" and "ws_conn_ok c"
  shows "ws_conn_ok c'"
  using ws_WriteMessage_fst [of io now ty d c] assms by simp

lemma close_conn_safe: "ws_conn_ok (sys_heap s t) \<Longrightarrow> close_conn io t s \<noteq> Panics"
  by (simp add: close_conn_eq)

lemma put_conn_heap [simp]: "sys_heap (put_conn t c s) t = c"
  by (simp add: put_conn_def)

lemma writePump_return_safe: "ws_conn_ok c \<Longrightarrow> writePump_return io t r (put_conn t c s) \<noteq> Panics"
  by (simp add: writePump_return_def close_conn_safe)

lemma writePump_round_safe:
  assumes "ws_conn_ok (sys_heap s t)"
  shows "writePump_round io t now choice tick r s \<noteq> Panics"
proof -
  let ?c = "sys_heap s t"
  have same: "put_conn t ?c s = s" by (simp add: put_conn_def)
  have tl: "ws_conn_ok (?c\<lparr>wsc_send := tl (wsc_send ?c)\<rparr>)"
    using assms by (cases "wsc_send ?c") (auto simp: ws_conn_ok_def)
  show ?thesis
    using assms writePump_return_safe [of ?c io t r s]
    by (auto simp: writePump_return_safe writePump_round_def Let_def ws_WriteMessage_fst same split: option.splits write_case.splits prod.splits
        dest: WriteMessage_ok [OF _ assms] WriteMessage_ok [OF _ tl])
qed

lemma if_eq_iff: "(if b then x else y) = z \<longleftrightarrow> b \<and> x = z \<or> \<not> b \<and> y = z"
  by simp

lemmas session_defs = handle_check_def handle_upgrade_def handle_auth_def handle_register_def handle_connect_def
  handle_return_def readPump_start_def readPump_pong_def readPump_message_def readPump_error_def writePump_start_def
  writePump_round_def writePump_return_def other_send_def close_conn_def update_defs

lemma sample_session_run:
  "\<exists>s. session_run (\<lambda>_ _ _. None) sample_session (initial_system (sample_server 100)) = Some s \<and>
     th_pc (sys_thread s 0) = Finished \<and> th_created (sys_thread s 0) = Some 7 \<and>
     th_calls (sys_thread s 0) = [OnConnect None, OnMessage [1], OnDisconnect (ErrorString ''closed'')]"
  by (simp add: sample_session_def session_defs initial_system_def sample_server_def idle_thread_def default_WsConf_def
      sample_auth_def ws_registry_defs Let_def ws_NewConnection_def ws_SetUserID_def ws_UserID_def ws_Send_def send_ready_def
      go_select_def send_capacity_def ws_WriteMessage_def ws_call_def ws_SetReadDeadline_def write_ready_def ws_Close_def
      bind_in_eq conns_of_def)

lemma fresh_sample [simp]: "fresh_server (sample_server limit)"
  by (simp add: fresh_server_def sample_server_def)

lemma sample_session_reach:
  obtains s where "session_reach (\<lambda>_ _ _. None) (initial_system (sample_server 100)) s"
    and "th_pc (sys_thread s 0) = Finished" and "th_created (sys_thread s 0) = Some 7"
    and "th_calls (sys_thread s 0) = [OnConnect None, OnMessage [1], OnDisconnect (ErrorString ''closed'')]"
  using sample_session_run session_run_reach [OF _ session_reach.start] by blast

section \<open>Properties\<close>



text \<open>
  A server whose ping interval was left at zero is accepted by NewServer and panics as
  soon as the write pump of its first connection starts, because the ticker needs a positive
  interval.
\<close>

lemma ws_zero_ping_interval:
  "\<exists>srv s. ws_NewServer None ((default_WsConf sample_auth)\<lparr>ws_PingInterval := 0\<rparr>) [] = Inr srv \<and>
     session_reach (\<lambda>_ _ _. None) (initial_system srv) s \<and>
     session_exec (\<lambda>_ _ _. None) (StartWrite 0) s = Some Panics"
proof -
  obtain srv where srv: "ws_NewServer None ((default_WsConf sample_auth)\<lparr>ws_PingInterval := 0\<rparr>) [] = Inr srv"
    by (simp add: ws_NewServer_def WsConf_SetUp_def)
  obtain s where run: "session_run (\<lambda>_ _ _. None) [Arrive 0 sample_request, Upgrade 0 None 7, Authenticate 0 8, Register 0, Connect 0 None]
      (initial_system srv) = Some s" and "session_exec (\<lambda>_ _ _. None) (StartWrite 0) s = Some Panics"
    using srv by (auto simp: ws_NewServer_def WsConf_SetUp_def session_defs initial_system_def idle_thread_def default_WsConf_def
        sample_auth_def ws_registry_defs Let_def ws_NewConnection_def NoOp_Authenticate_def)
  then show ?thesis using srv session_run_reach [OF run session_reach.start] by blast
qed







text \<open>
  C3. The protocol of callbacks. The handler of a connection sees OnConnect first; if that
  returns an error, nothing else; if not, the messages in the order in which they were read,
  and exactly one OnDisconnect, after which the goroutine calls it no more. A connection whose
  goroutine has returned is closed, and its socket was closed exactly once.
\<close>

theorem ws_callbacks:
  assumes "fresh_server srv" and "session_reach io (initial_system srv) s" and "th_pc (sys_thread s t) = Finished"
  shows "(th_calls (sys_thread s t) = [] \<or> (\<exists>err. th_calls (sys_thread s t) = [OnConnect (Some err)]) \<or>
      (\<exists>msgs err. th_calls (sys_thread s t) = OnConnect None # map OnMessage msgs @ [OnDisconnect err])) \<and>
    (th_created (sys_thread s t) \<noteq> None \<longrightarrow>
       wsc_done (sys_heap s t) \<and> count_list (wsc_conn (sys_heap s t)) CloseSocket = 1)"
proof -
  note ok = session_invD(1) [OF session_inv_reach [OF assms(2,1)], of t]
  have "th_created (sys_thread s t) \<noteq> None \<Longrightarrow> wsc_done (sys_heap s t) \<and> ws_conn_ok (sys_heap s t)"
    using thread_okD(2,4) [OF ok] assms(3) by simp
  then show ?thesis
    using ok assms(3) by (auto simp: thread_ok_def session_calls_def ws_conn_ok_def)
qed

lemma ws_callbacks_witness:
  "\<exists>s. session_reach (\<lambda>_ _ _. None) (initial_system (sample_server 100)) s \<and>
     count_list (wsc_conn (sys_heap s 0)) CloseSocket = 1"
proof -
  obtain s where s: "session_reach (\<lambda>_ _ _. None) (initial_system (sample_server 100)) s" "th_pc (sys_thread s 0) = Finished"
    "th_created (sys_thread s 0) = Some 7"
    by (rule sample_session_reach)
  then show ?thesis using ws_callbacks [OF fresh_sample s(1,2)] by auto
qed

text \<open>
  C10. Messages are written in order. At every moment the messages written to the socket of a
  connection, followed by those in its queue, are the messages that Send has accepted for it, in
  the order of acceptance: nothing is reordered or written twice, and what is missing is still
  queued.
\<close>

theorem ws_write_order:
  assumes "fresh_server srv" and "session_reach io (initial_system srv) s" and "th_created (sys_thread s t) \<noteq> None"
  shows "text_writes (wsc_conn (sys_heap s t)) @ wsc_send (sys_heap s t) = th_sent (sys_thread s t)"
  using thread_okD(3) [OF session_invD(1) [OF session_inv_reach [OF assms(2,1)]]] assms(3) by blast

lemma ws_write_order_witness:
  "\<exists>s. session_reach (\<lambda>_ _ _. None) (initial_system (sample_server 100)) s \<and> th_created (sys_thread s 0) = Some 7 \<and>
     text_writes (wsc_conn (sys_heap s 0)) @ wsc_send (sys_heap s 0) = th_sent (sys_thread s 0)"
proof -
  obtain s where s: "session_reach (\<lambda>_ _ _. None) (initial_system (sample_server 100)) s" "th_created (sys_thread s 0) = Some 7"
    by (rule sample_session_reach)
  then show ?thesis using ws_write_order [OF fresh_sample s(1), of 0] by auto
qed

text \<open>
  C12. The connection limit, up to a race. If at most \<open>n\<close> goroutines are ever between the
  limit check and the upgrade at the same time, the number of connections stays below the limit
  plus \<open>n\<close>. In particular the limit holds when requests are checked and upgraded one at a time.
\<close>

theorem ws_limit:
  assumes "fresh_server srv" and "paced_reach n io (initial_system srv) s"
    and "0 < sint (ws_MaxConnections (wss_conf srv))" and "nat (sint (ws_MaxConnections (wss_conf srv))) + n < 2 ^ 63"
  shows "sint (ws_ConnectionCount (sys_server s)) < sint (ws_MaxConnections (wss_conf srv)) + int n"
proof -
  let ?M = "nat (sint (ws_MaxConnections (wss_conf srv)))"
  note inv = session_inv_reach [OF paced_reach_reach [OF assms(2)] assms(1)]
  have "finite (admission s) \<and> card (admission s) < ?M + n"
    by (rule paced_admission [OF assms(2,1) refl _ assms(4)]) (use assms(3) in simp)
  moreover from this have "card (slots s) \<le> card (admission s)" by (auto simp: admission_def intro: card_mono)
  ultimately have "card (slots s) < ?M + n" by linarith
  moreover from this assms(4) have "sint (ws_ConnectionCount (sys_server s)) = int (card (slots s))"
    using session_invD(3) [OF inv] by (simp add: ws_ConnectionCount_def sint_of_nat64)
  ultimately show ?thesis using assms(3) by simp
qed

lemma ws_limit_witness:
  "sint (ws_ConnectionCount (sys_server (initial_system (sample_server 100)))) < 100 + int 1"
proof -
  have "ws_MaxConnections (wss_conf (sample_server 100)) = 100" by (simp add: sample_server_def)
  then show ?thesis
    using ws_limit [OF fresh_sample [of 100] paced_reach.start [of 1 "\<lambda>_ _ _. None"]] by simp
qed

text \<open>
  The race is real. With a limit of one, two requests that are checked before either is
  upgraded are both served, and the connection count is two.
\<close>

lemma ws_limit_race:
  "\<exists>s. session_reach io (initial_system (sample_server 1)) s \<and> ws_ConnectionCount (sys_server s) = 2"
proof -
  obtain s where run: "session_run io [Arrive 0 sample_request, Arrive 1 sample_request, Upgrade 0 None 7, Upgrade 1 None 8]
      (initial_system (sample_server 1)) = Some s" and "ws_ConnectionCount (sys_server s) = 2"
    by (simp add: session_defs initial_system_def sample_server_def idle_thread_def default_WsConf_def Let_def
        ws_ConnectionCount_def if_distrib [of th_created] if_eq_iff [where z = "Some _"])
  then show ?thesis using session_run_reach [OF run session_reach.start] by blast
qed

end
