(* ===== verification/Wt_Config.thy ===== *)
theory Wt_Config
  imports Protocol
begin

text \<open>
  The configuration of the WebTransport server (\<^verbatim>\<open>wt/config.go\<close>): where the TLS certificate
  and key come from, and the temporary files made for those that come from environment
  variables. The operating system answers through arguments: \<open>getenv\<close> for the environment and
  one \<open>temp_io\<close> per call to \<^verbatim>\<open>writeTempFile\<close>; the set of files that exist is the state.
\<close>

section \<open>Definitions\<close>

record WtConf =
  wt_Name :: string
  wt_Addr :: string
  wt_Path :: string
  wt_CertFile :: string
  wt_KeyFile :: string
  wt_CertEnvVar :: string
  wt_KeyEnvVar :: string
  wt_MaxConnections :: int64
  wt_MaxStreamsPerConn :: int64
  wt_ReadBufferSize :: int64
  wt_WriteBufferSize :: int64
  wt_IdleTimeout :: int64
  wt_KeepAliveInterval :: int64
  wt_WriteTimeout :: int64
  wt_Auth :: AuthConfig
  wt_resolvedCertFile :: string
  wt_resolvedKeyFile :: string
  wt_tempFiles :: "string list"

text \<open>The results of creating, writing and closing a temporary file.\<close>

record temp_io =
  tmp_create :: "go_error + string"
  tmp_write :: "go_error option"
  tmp_close :: "go_error option"

type_synonym files = "string set"

text \<open>\<^verbatim>\<open>fmt.Errorf\<close> without a wrapped error.\<close>

definition errorf :: "string \<Rightarrow> go_error" where
  "errorf msg = OtherError ''*errors.errorString'' msg"

definition writeTempFile :: "temp_io \<Rightarrow> WtConf \<times> files \<Rightarrow> (WtConf \<times> files) \<times> (go_error + string)" where
  "writeTempFile io s =
     (case tmp_create io of
        Inl err \<Rightarrow> (s, Inl err)
      | Inr name \<Rightarrow>
          let fs = insert name (snd s)
          in case tmp_write io of
               Some err \<Rightarrow> ((fst s, fs - {name}), Inl err)
             | None \<Rightarrow>
                 (case tmp_close io of
                    Some err \<Rightarrow> ((fst s, fs - {name}), Inl err)
                  | None \<Rightarrow> (((fst s)\<lparr>wt_tempFiles := wt_tempFiles (fst s) @ [name]\<rparr>, fs), Inr name)))"

definition resolveCertFile ::
  "(string \<Rightarrow> string) \<Rightarrow> temp_io \<Rightarrow> WtConf \<times> files \<Rightarrow> (WtConf \<times> files) \<times> go_error option" where
  "resolveCertFile getenv io s =
     (let c = fst s
      in if wt_CertEnvVar c \<noteq> []
         then
           if getenv (wt_CertEnvVar c) = []
           then (s, Some (errorf (''environment variable '' @ wt_CertEnvVar c @ '' is not set or empty'')))
           else
             (case writeTempFile io s of
                (s', Inl err) \<Rightarrow> (s', Some (WrapError (''failed to write cert from env var '' @ wt_CertEnvVar c) err))
              | ((c', fs), Inr tmpFile) \<Rightarrow> ((c'\<lparr>wt_resolvedCertFile := tmpFile\<rparr>, fs), None))
         else if wt_CertFile c \<noteq> [] then ((c\<lparr>wt_resolvedCertFile := wt_CertFile c\<rparr>, snd s), None)
         else (s, Some (errorf ''TLS certificate not configured: set CertFile or CertEnvVar'')))"

definition resolveKeyFile ::
  "(string \<Rightarrow> string) \<Rightarrow> temp_io \<Rightarrow> WtConf \<times> files \<Rightarrow> (WtConf \<times> files) \<times> go_error option" where
  "resolveKeyFile getenv io s =
     (let c = fst s
      in if wt_KeyEnvVar c \<noteq> []
         then
           if getenv (wt_KeyEnvVar c) = []
           then (s, Some (errorf (''environment variable '' @ wt_KeyEnvVar c @ '' is not set or empty'')))
           else
             (case writeTempFile io s of
                (s', Inl err) \<Rightarrow> (s', Some (WrapError (''failed to write key from env var '' @ wt_KeyEnvVar c) err))
              | ((c', fs), Inr tmpFile) \<Rightarrow> ((c'\<lparr>wt_resolvedKeyFile := tmpFile\<rparr>, fs), None))
         else if wt_KeyFile c \<noteq> [] then ((c\<lparr>wt_resolvedKeyFile := wt_KeyFile c\<rparr>, snd s), None)
         else (s, Some (errorf ''TLS private key not configured: set KeyFile or KeyEnvVar'')))"

definition WtConf_SetUp ::
  "(string \<Rightarrow> string) \<Rightarrow> temp_io \<Rightarrow> temp_io \<Rightarrow> WtConf \<times> files \<Rightarrow> (WtConf \<times> files) \<times> go_error option" where
  "WtConf_SetUp getenv io1 io2 s =
     (case resolveCertFile getenv io1 s of
        (s', Some err) \<Rightarrow> (s', Some err)
      | (s', None) \<Rightarrow> resolveKeyFile getenv io2 s')"

text \<open>Errors of \<^verbatim>\<open>os.Remove\<close> are ignored: the files it cannot remove stay.\<close>

definition WtConf_Cleanup :: "(string \<Rightarrow> bool) \<Rightarrow> WtConf \<times> files \<Rightarrow> WtConf \<times> files" where
  "WtConf_Cleanup removable s =
     ((fst s)\<lparr>wt_tempFiles := []\<rparr>, foldl (\<lambda>fs f. if removable f then fs - {f} else fs) (snd s) (wt_tempFiles (fst s)))"

text \<open>The operating system gives a new file a name of its own.\<close>

definition temp_fresh :: "temp_io \<Rightarrow> files \<Rightarrow> bool" where
  "temp_fresh io fs \<longleftrightarrow> (case tmp_create io of Inl _ \<Rightarrow> True | Inr name \<Rightarrow> name \<noteq> [] \<and> name \<notin> fs)"

definition temp_ok :: "temp_io" where
  "temp_ok = \<lparr>tmp_create = Inr ''/tmp/wt-1.pem'', tmp_write = None, tmp_close = None\<rparr>"

definition empty_auth :: AuthConfig where
  "empty_auth = \<lparr>auth_Enabled = False, auth_Mode = [], auth_Source = [], auth_TokenSource = [], auth_TokenName = [],
     auth_HeaderName = [], auth_JWTSecret = [], auth_Timeout = 0\<rparr>"

definition sample_WtConf :: WtConf where
  "sample_WtConf =
     \<lparr>wt_Name = [], wt_Addr = '':443'', wt_Path = ''/wt'', wt_CertFile = [], wt_KeyFile = [],
      wt_CertEnvVar = ''CERT'', wt_KeyEnvVar = ''KEY'', wt_MaxConnections = 10000, wt_MaxStreamsPerConn = 100,
      wt_ReadBufferSize = 4096, wt_WriteBufferSize = 4096, wt_IdleTimeout = 120000000000,
      wt_KeepAliveInterval = 30000000000, wt_WriteTimeout = 10000000000, wt_Auth = empty_auth,
      wt_resolvedCertFile = [], wt_resolvedKeyFile = [], wt_tempFiles = []\<rparr>"

text \<open>A call leaves behind exactly the files that it adds to the list of temporary files.\<close>

definition files_tracked :: "WtConf \<times> files \<Rightarrow> WtConf \<times> files \<Rightarrow> bool" where
  "files_tracked s s' \<longleftrightarrow>
     (\<exists>new. wt_tempFiles (fst s') = wt_tempFiles (fst s) @ new \<and> snd s' = snd s \<union> set new \<and> set new \<inter> snd s = {})"

section \<open>Lemmas\<close>

lemma Cleanup_files:
  "foldl (\<lambda>fs f. if removable f then fs - {f} else fs) fs xs = fs - {f \<in> set xs. removable f}"
  by (induction xs arbitrary: fs) auto

lemma files_tracked_refl [simp]: "files_tracked s s"
  by (simp add: files_tracked_def)

lemma files_tracked_trans: "files_tracked a b \<Longrightarrow> files_tracked b c \<Longrightarrow> files_tracked a c"
  by (fastforce simp: files_tracked_def)

lemma files_tracked_resolved [simp]:
  "files_tracked s (c\<lparr>wt_resolvedCertFile := f\<rparr>, fs) = files_tracked s (c, fs)"
  "files_tracked s (c\<lparr>wt_resolvedKeyFile := f\<rparr>, fs) = files_tracked s (c, fs)"
  by (simp_all add: files_tracked_def)

lemma writeTempFile_tracked:
  "temp_fresh io (snd s) \<Longrightarrow> writeTempFile io s = (s', r) \<Longrightarrow> files_tracked s s'"
  by (cases s; cases s')
    (auto simp: writeTempFile_def temp_fresh_def files_tracked_def Let_def split: sum.splits option.splits)

lemma resolve_tracked:
  assumes "temp_fresh io (snd s)"
  shows "resolveCertFile getenv io s = (s', e) \<Longrightarrow> files_tracked s s'"
    and "resolveKeyFile getenv io s = (s', e) \<Longrightarrow> files_tracked s s'"
  using writeTempFile_tracked [OF assms]
  by (cases s; auto simp: resolveCertFile_def resolveKeyFile_def Let_def split: if_splits prod.splits sum.splits)+

text \<open>So does the whole of \<^verbatim>\<open>SetUp\<close>.\<close>

lemma SetUp_tracked:
  assumes "temp_fresh io1 fs" and "temp_fresh io2 (snd (fst (resolveCertFile getenv io1 (c, fs))))"
    and "WtConf_SetUp getenv io1 io2 (c, fs) = (s', err)"
  shows "files_tracked (c, fs) s'"
proof -
  obtain s1 e1 where s1: "resolveCertFile getenv io1 (c, fs) = (s1, e1)" by fastforce
  have t1: "files_tracked (c, fs) s1" using resolve_tracked(1) [OF _ s1] assms(1) by simp
  show ?thesis
  proof (cases e1)
    case None
    then have "resolveKeyFile getenv io2 s1 = (s', err)" using assms(3) s1 by (simp add: WtConf_SetUp_def)
    then have "files_tracked s1 s'" using resolve_tracked(2) assms(2) s1 by simp
    with t1 show ?thesis by (rule files_tracked_trans)
  next
    case (Some e)
    then show ?thesis using assms(3) s1 t1 by (simp add: WtConf_SetUp_def)
  qed
qed

text \<open>The resolved files.\<close>

lemma resolve_cert:
  assumes "resolveCertFile getenv io s = (s', None)" and "temp_fresh io (snd s)"
  shows "wt_resolvedCertFile (fst s') \<noteq> [] \<and> wt_KeyEnvVar (fst s') = wt_KeyEnvVar (fst s) \<and> wt_KeyFile (fst s') = wt_KeyFile (fst s) \<and>
    (wt_CertEnvVar (fst s) = [] \<longrightarrow> wt_resolvedCertFile (fst s') = wt_CertFile (fst s))"
  using assms
  by (auto simp: resolveCertFile_def writeTempFile_def temp_fresh_def Let_def
      split: if_splits prod.splits sum.splits option.splits)

lemma resolve_key:
  assumes "resolveKeyFile getenv io s = (s', None)" and "temp_fresh io (snd s)"
  shows "wt_resolvedKeyFile (fst s') \<noteq> [] \<and> wt_resolvedCertFile (fst s') = wt_resolvedCertFile (fst s) \<and>
    (wt_KeyEnvVar (fst s) = [] \<longrightarrow> wt_resolvedKeyFile (fst s') = wt_KeyFile (fst s))"
  using assms
  by (auto simp: resolveKeyFile_def writeTempFile_def temp_fresh_def Let_def
      split: if_splits prod.splits sum.splits option.splits)

section \<open>Properties\<close>



end
