(* ===== verification/Wt_Server.thy ===== *)
theory Wt_Server
  imports Registry Delivery Buffer_Pool Wt_Config
begin

text \<open>
  The WebTransport server (\<^verbatim>\<open>wt/server.go\<close>): construction, the maps of connections, sending,
  lookups and shutdown. \<open>Wt_Session\<close> adds the goroutines that serve a session. The code of the
  maps mirrors the WebSocket server except that registering a connection counts it.
\<close>

section \<open>The server\<close>

definition wt_ErrConnectionLimit :: go_error where
  "wt_ErrConnectionLimit = ErrorString ''wt.ErrConnectionLimit''"

definition wt_ErrUserNotFound :: go_error where
  "wt_ErrUserNotFound = ErrorString ''wt.ErrUserNotFound''"

definition ErrTLSCertRequired :: go_error where
  "ErrTLSCertRequired = ErrorString ''wt.ErrTLSCertRequired''"

type_synonym wt_ref = nat
type_synonym wt_heap = "wt_ref \<Rightarrow> wt_connection"

text \<open>The TLS configuration is known by the certificate and key files it was loaded from.\<close>

record wt_server =
  wts_conf :: WtConf
  wts_authenticator :: authenticator
  wts_metrics :: string
  wts_tlsConfig :: "string \<times> string"
  wts_connections :: "(string, wt_ref) gomap"
  wts_userConns :: "(string, string, wt_ref) nested"
  wts_connCount :: int64
  wts_done :: bool
  wts_once :: bool
  wts_closed :: bool
  wts_bufPool :: Pool

datatype WtServerOption = WtWithMetrics string | WtWithTLSConfig "string \<times> string" | WtWithAuthenticator authenticator

fun wt_apply_option ::
  "WtServerOption \<Rightarrow> string option \<times> (string \<times> string) \<times> authenticator option \<Rightarrow>
     string option \<times> (string \<times> string) \<times> authenticator option" where
  "wt_apply_option (WtWithMetrics m) (metrics, tls, auth) = (Some m, tls, auth)"
| "wt_apply_option (WtWithTLSConfig cfg) (metrics, tls, auth) = (metrics, cfg, auth)"
| "wt_apply_option (WtWithAuthenticator a) (metrics, tls, auth) = (metrics, tls, Some a)"

text \<open>\<open>load\<close> is the result of \<^verbatim>\<open>tls.LoadX509KeyPair\<close>. The files that exist are returned too.\<close>

definition wt_NewServer ::
  "(string \<Rightarrow> string) \<Rightarrow> temp_io \<Rightarrow> temp_io \<Rightarrow> (string \<Rightarrow> string \<Rightarrow> go_error option) \<Rightarrow> WtConf \<Rightarrow>
     WtServerOption list \<Rightarrow> files \<Rightarrow> (go_error + wt_server) \<times> files" where
  "wt_NewServer getenv io1 io2 load conf0 opts fs0 =
     (case WtConf_SetUp getenv io1 io2 (conf0, fs0) of
        ((conf, fs), Some err) \<Rightarrow> (Inl err, fs)
      | ((conf, fs), None) \<Rightarrow>
          if wt_resolvedCertFile conf = [] \<or> wt_resolvedKeyFile conf = [] then (Inl ErrTLSCertRequired, fs)
          else
            (case load (wt_resolvedCertFile conf) (wt_resolvedKeyFile conf) of
               Some err \<Rightarrow> (Inl (WrapError ''failed to load TLS certificate'' err), fs)
             | None \<Rightarrow>
                 let (metrics, tls, auth) =
                       foldl (\<lambda>s opt. wt_apply_option opt s) (None, (wt_resolvedCertFile conf, wt_resolvedKeyFile conf), None) opts;
                     name = (if wt_Name conf = [] then ''webtransport-server'' else wt_Name conf)
                 in (Inr \<lparr>wts_conf = conf,
                          wts_authenticator = (case auth of None \<Rightarrow> NoOp_Authenticate | Some a \<Rightarrow> a),
                          wts_metrics = (case metrics of None \<Rightarrow> name | Some m \<Rightarrow> m), wts_tlsConfig = tls,
                          wts_connections = [], wts_userConns = [], wts_connCount = 0,
                          wts_done = False, wts_once = False, wts_closed = False,
                          wts_bufPool = NewPool (sint (wt_ReadBufferSize conf))\<rparr>, fs)))"

definition wt_Protocol :: "wt_server \<Rightarrow> Protocol" where
  "wt_Protocol s = ProtocolWebTransport"

section \<open>Connection management\<close>

definition wt_registerConnection :: "wt_ref \<Rightarrow> wt_server \<times> wt_heap \<Rightarrow> wt_server \<times> wt_heap" where
  "wt_registerConnection conn s =
     (let s1 = (fst s)\<lparr>wts_connections := mapassign (wtc_id (snd s conn)) conn (wts_connections (fst s))\<rparr>
      in (s1\<lparr>wts_connCount := wts_connCount s1 + 1\<rparr>, snd s))"

definition wt_unregisterConnection :: "wt_ref \<Rightarrow> wt_server \<times> wt_heap \<Rightarrow> wt_server \<times> wt_heap" where
  "wt_unregisterConnection conn s =
     (let connID = wtc_id (snd s conn);
          s1 = (fst s)\<lparr>wts_connections := mapdelete connID (wts_connections (fst s))\<rparr>;
          userID = wt_UserID (snd s conn);
          s2 = (if userID \<noteq> [] then s1\<lparr>wts_userConns := unbind_in userID connID (wts_userConns s1)\<rparr> else s1)
      in (s2\<lparr>wts_connCount := wts_connCount s2 - 1\<rparr>, snd s))"

definition wt_BindUser :: "wt_ref \<Rightarrow> string \<Rightarrow> wt_server \<times> wt_heap \<Rightarrow> wt_server \<times> wt_heap" where
  "wt_BindUser conn userID s =
     (let h = (snd s)(conn := wt_SetUserID userID (snd s conn))
      in ((fst s)\<lparr>wts_userConns := bind_in userID (wtc_id (h conn)) conn (wts_userConns (fst s))\<rparr>, h))"

section \<open>Sending\<close>

definition wt_Broadcast ::
  "(nat \<Rightarrow> nat) \<Rightarrow> (string \<times> wt_ref) range_order \<Rightarrow> bytes \<Rightarrow> wt_server \<Rightarrow> wt_heap \<Rightarrow> (wt_heap \<times> go_error option) outcome" where
  "wt_Broadcast ch ord msg s h =
     send_loop (\<lambda>i. wt_send_at (ch i) msg) (map snd (ord 0 (wts_connections s))) h None"

definition wt_BroadcastTo ::
  "(nat \<Rightarrow> nat \<Rightarrow> nat) \<Rightarrow> (string \<times> wt_ref) range_order \<Rightarrow> string list \<Rightarrow> bytes \<Rightarrow> wt_server \<Rightarrow> wt_heap \<Rightarrow>
     (wt_heap \<times> go_error option) outcome" where
  "wt_BroadcastTo ch ord userIDs msg s h =
     send_users (\<lambda>i j. wt_send_at (ch i j) msg) ord 0 (wts_userConns s) userIDs h None"

definition wt_SendTo ::
  "(nat \<Rightarrow> nat) \<Rightarrow> (string \<times> wt_ref) range_order \<Rightarrow> string \<Rightarrow> bytes \<Rightarrow> wt_server \<Rightarrow> wt_heap \<Rightarrow>
     (wt_heap \<times> go_error option) outcome" where
  "wt_SendTo ch ord userID msg s h =
     (case map_of (wts_userConns s) userID of
        None \<Rightarrow> Return (h, Some wt_ErrUserNotFound)
      | Some conns \<Rightarrow> send_loop (\<lambda>i. wt_send_at (ch i) msg) (map snd (ord 0 conns)) h None)"

section \<open>Lookups\<close>

definition wt_GetConnection :: "(string \<times> wt_ref) range_order \<Rightarrow> wt_server \<Rightarrow> string \<Rightarrow> wt_ref option" where
  "wt_GetConnection ord s userID = first_conn ord (wts_userConns s) userID"

definition wt_GetConnections :: "(string \<times> wt_ref) range_order \<Rightarrow> wt_server \<Rightarrow> string list \<Rightarrow> wt_ref list" where
  "wt_GetConnections ord s userIDs = collect_users ord 0 (wts_userConns s) userIDs"

definition wt_ConnectionCount :: "wt_server \<Rightarrow> int64" where
  "wt_ConnectionCount s = wts_connCount s"

definition wt_ForEachConnection ::
  "(string \<times> wt_ref) range_order \<Rightarrow> (wt_ref \<Rightarrow> 'a \<Rightarrow> 'a \<times> bool) \<Rightarrow> wt_server \<Rightarrow> 'a \<Rightarrow> 'a" where
  "wt_ForEachConnection ord fn s a = fst (foreach_conns fn (map snd (ord 0 (wts_connections s))) a)"

definition wt_generateConnID :: "int64 \<Rightarrow> string" where
  "wt_generateConnID now = show_int (sint now)"

section \<open>Shutdown\<close>

fun close_all :: "(wt_ref \<Rightarrow> wt_io) \<Rightarrow> wt_ref list \<Rightarrow> wt_heap \<Rightarrow> wt_heap outcome" where
  "close_all io [] h = Return h"
| "close_all io (r # rs) h = bind_outcome (wt_Close (io r) (h r)) (\<lambda>(c, _). close_all io rs (h(r := c)))"

text \<open>
  The wait for the goroutines ends, at the latest, after five seconds: its outcome does not
  change what \<^verbatim>\<open>Stop\<close> does next. The WebTransport server is never nil.
\<close>

definition wt_Stop ::
  "(wt_ref \<Rightarrow> wt_io) \<Rightarrow> (string \<times> wt_ref) range_order \<Rightarrow> (string \<Rightarrow> bool) \<Rightarrow> wt_server \<times> wt_heap \<times> files \<Rightarrow>
     (wt_server \<times> wt_heap \<times> files) outcome" where
  "wt_Stop io ord removable s =
     (let (srv, h, fs) = s
      in if wts_once srv then Return s
         else
           let srv1 = srv\<lparr>wts_once := True\<rparr>
           in if wts_done srv1 then Panics
              else
                let srv2 = srv1\<lparr>wts_done := True\<rparr>
                in bind_outcome (close_all io (map snd (ord 0 (wts_connections srv2))) h)
                     (\<lambda>h'. let (conf, fs') = WtConf_Cleanup removable (wts_conf srv2, fs)
                           in Return (srv2\<lparr>wts_closed := True, wts_conf := conf\<rparr>, h', fs')))"

section \<open>Invariant\<close>

definition wt_maps_ok :: "wt_server \<Rightarrow> bool" where
  "wt_maps_ok s \<longleftrightarrow> gomap_ok (wts_connections s) \<and> nested_ok (wts_userConns s)"

definition sample_wt_server :: wt_server where
  "sample_wt_server =
     \<lparr>wts_conf = sample_WtConf, wts_authenticator = NoOp_Authenticate, wts_metrics = [], wts_tlsConfig = ([], []),
      wts_connections = [(''1'', 0), (''2'', 1)], wts_userConns = [(''bob'', [(''1'', 0)])], wts_connCount = 4,
      wts_done = False, wts_once = False, wts_closed = False, wts_bufPool = NewPool 0\<rparr>"

definition sample_wt_heap :: wt_heap where
  "sample_wt_heap r = wt_NewConnection (if r = 0 then ''1'' else ''2'') [] 0"

section \<open>Lemmas\<close>

lemma wt_generateConnID_inject: "wt_generateConnID a = wt_generateConnID b \<longleftrightarrow> a = b"
  unfolding wt_generateConnID_def show_int_inject by (auto intro: signed_word_eqI)

lemmas wt_registry_defs = wt_registerConnection_def wt_unregisterConnection_def wt_BindUser_def

lemma wt_SetUserID_simps [simp]:
  "wtc_id (wt_SetUserID u c) = wtc_id c" "wt_UserID (wt_SetUserID u c) = u"
  "wtc_send (wt_SetUserID u c) = wtc_send c" "wtc_done (wt_SetUserID u c) = wtc_done c"
  by (simp_all add: wt_SetUserID_def wt_UserID_def)

interpretation wtr: conn_registry "\<lambda>s. wt_maps_ok (fst s)" "\<lambda>s. map_of (wts_connections (fst s))"
  "\<lambda>s. user_view (wts_userConns (fst s))" "\<lambda>s c. wtc_id (snd s c)" "\<lambda>s c. wt_UserID (snd s c)"
  wt_registerConnection wt_unregisterConnection wt_BindUser
  by unfold_locales (auto simp: wt_registry_defs wt_maps_ok_def Let_def fun_eq_iff)

lemma close_all_closes:
  assumes "\<And>r. r \<in> set rs \<Longrightarrow> wt_conn_ok (h r)"
  shows "\<exists>h'. close_all io rs h = Return h' \<and> (\<forall>r \<in> set rs. wtc_done (h' r) \<and> wt_conn_ok (h' r)) \<and>
    (\<forall>r. wtc_done (h r) \<longrightarrow> wtc_done (h' r)) \<and> (\<forall>r. r \<notin> set rs \<longrightarrow> h' r = h r)"
  using assms
proof (induction rs arbitrary: h)
  case Nil
  then show ?case by simp
next
  case (Cons r rs)
  obtain c err where c: "wt_Close (io r) (h r) = Return (c, err)" using wt_Close_safe [of "h r" "io r"] Cons.prems by force
  have ok: "wt_conn_ok c \<and> wtc_done c" using wt_conn_ok_Close [OF _ c] Cons.prems by simp
  obtain h' where h': "close_all io rs (h(r := c)) = Return h'" "\<forall>x \<in> set rs. wtc_done (h' x) \<and> wt_conn_ok (h' x)"
    "\<forall>x. wtc_done ((h(r := c)) x) \<longrightarrow> wtc_done (h' x)" "\<forall>x. x \<notin> set rs \<longrightarrow> h' x = (h(r := c)) x"
    using Cons.IH [of "h(r := c)"] Cons.prems ok by fastforce
  have "wtc_done (h' r) \<and> wt_conn_ok (h' r)" using h'(2,4) ok by (cases "r \<in> set rs") auto
  then show ?case using c h' ok by (auto split: if_splits)
qed

section \<open>Properties\<close>

text \<open>
  Broadcast on the WebTransport server. As on the WebSocket server: no panic, it returns
  exactly when no registered open connection has a full queue, every registered open connection
  gets the message once, and nobody else gets it.
\<close>

lemma wt_broadcast:
  assumes "wt_maps_ok s" and "order_ok ord" and "distinct (map snd (wts_connections s))"
  shows "wt_Broadcast ch ord msg s h \<noteq> Panics \<and>
    (returns (wt_Broadcast ch ord msg s h) \<longleftrightarrow>
       (\<forall>r \<in> snd ` set (wts_connections s). wtc_done (h r) \<or> length (wtc_send (h r)) < 256)) \<and>
    (\<forall>h' err. wt_Broadcast ch ord msg s h = Return (h', err) \<longrightarrow>
       (\<forall>r \<in> snd ` set (wts_connections s). \<not> wtc_done (h r) \<longrightarrow> wtc_send (h' r) = wtc_send (h r) @ [msg]) \<and>
       (\<forall>r. r \<notin> snd ` set (wts_connections s) \<longrightarrow> wtc_send (h' r) = wtc_send (h r)))"
proof -
  let ?rs = "map snd (ord 0 (wts_connections s))"
  have set: "set ?rs = snd ` set (wts_connections s)" using order_ok_set [OF assms(2)] by simp
  have dist: "distinct ?rs" using assms(2,3) by (simp add: order_ok_distinct_map)
  have "wt_Broadcast ch ord msg s h \<noteq> Panics"
    unfolding wt_Broadcast_def by (rule wt_out.loop_no_panic)
  moreover have "returns (wt_Broadcast ch ord msg s h) \<longleftrightarrow>
      (\<forall>r \<in> set ?rs. wtc_done (h r) \<or> length (wtc_send (h r)) < 256)"
    unfolding wt_Broadcast_def using wt_out.loop_returns_iff [OF dist] by (simp add: send_capacity_def)
  moreover have "(\<forall>r \<in> set ?rs. \<not> wtc_done (h r) \<longrightarrow> wtc_send (h' r) = wtc_send (h r) @ [msg]) \<and>
      (\<forall>r. r \<notin> set ?rs \<longrightarrow> wtc_send (h' r) = wtc_send (h r))"
    if "wt_Broadcast ch ord msg s h = Return (h', err)" for h' err
    using wt_out.loop_delivers [OF that [unfolded wt_Broadcast_def] dist]
      wt_out.loop_other [OF that [unfolded wt_Broadcast_def]] by blast
  ultimately show ?thesis unfolding set by blast
qed

text \<open>
  The first Stop returns, closes every registered connection (its session exactly once), leaves
  the others alone, and removes the temporary TLS files.
\<close>

lemma wt_stop:
  assumes "\<not> wts_once srv" and "\<not> wts_done srv" and "order_ok ord"
    and "\<And>r. r \<in> snd ` set (wts_connections srv) \<Longrightarrow> wt_conn_ok (h r)"
  shows "\<exists>srv' h' fs'. wt_Stop io ord (\<lambda>_. True) (srv, h, fs) = Return (srv', h', fs') \<and>
    wts_once srv' \<and> wts_done srv' \<and> wts_connections srv' = wts_connections srv \<and>
    (\<forall>r \<in> snd ` set (wts_connections srv). wtc_done (h' r) \<and> count_list (wtc_session (h' r)) (CloseSession 0 []) = 1) \<and>
    (\<forall>r. r \<notin> snd ` set (wts_connections srv) \<longrightarrow> h' r = h r) \<and>
    fs' = fs - set (wt_tempFiles (wts_conf srv))"
proof -
  let ?rs = "map snd (ord 0 (wts_connections srv))"
  have set: "set ?rs = snd ` set (wts_connections srv)" using order_ok_set [OF assms(3)] by simp
  obtain h' where h': "close_all io ?rs h = Return h'" "\<forall>r \<in> set ?rs. wtc_done (h' r) \<and> wt_conn_ok (h' r)"
    "\<forall>r. r \<notin> set ?rs \<longrightarrow> h' r = h r"
    using close_all_closes [of ?rs h io] assms(4) set by auto
  have "count_list (wtc_session (h' r)) (CloseSession 0 []) = 1" if "r \<in> set ?rs" for r
    using h'(2) [rule_format, OF that] by (simp add: wt_conn_ok_def)
  then show ?thesis
    using assms(1,2) h' Cleanup_files [of "\<lambda>_. True" fs "wt_tempFiles (wts_conf srv)"] unfolding set [symmetric]
    by (simp add: wt_Stop_def WtConf_Cleanup_def Let_def)
qed

text \<open>
  A failed start leaves the private key on disk. If certificate and key come from
  environment variables and loading them fails, NewServer returns the error and both temporary
  files stay: nothing holds the list of files any more.
\<close>

lemma wt_new_server_leaks_files:
  assumes "wt_CertEnvVar conf \<noteq> []" and "getenv (wt_CertEnvVar conf) \<noteq> []"
    and "wt_KeyEnvVar conf \<noteq> []" and "getenv (wt_KeyEnvVar conf) \<noteq> []"
    and "cert \<noteq> []" and "key \<noteq> []"
    and "load cert key = Some err"
  shows "wt_NewServer getenv \<lparr>tmp_create = Inr cert, tmp_write = None, tmp_close = None\<rparr>
      \<lparr>tmp_create = Inr key, tmp_write = None, tmp_close = None\<rparr> load conf opts fs =
    (Inl (WrapError ''failed to load TLS certificate'' err), insert key (insert cert fs))"
  using assms
  by (simp add: wt_NewServer_def WtConf_SetUp_def resolveCertFile_def resolveKeyFile_def writeTempFile_def Let_def)

end
