(* ===== verification/Wt_Session.thy ===== *)
theory Wt_Session
  imports Wt_Server
begin

text \<open>
  The goroutines that serve WebTransport sessions (\<^verbatim>\<open>handleWebTransport\<close>, \<^verbatim>\<open>handleStream\<close> and
  \<^verbatim>\<open>writePump\<close> in \<^verbatim>\<open>wt/server.go\<close>), interleaved in any order with each other, with senders and
  closers, and with \<^verbatim>\<open>Stop\<close>. The session with the number \<open>t\<close> uses the connection object at the
  address \<open>t\<close>; its streams are numbered by the library. As for the WebSocket server, a step
  runs a goroutine from one point to the next and carries what other code returned.
\<close>

section \<open>States\<close>

text \<open>
  The accept loop of the handler is at \<open>WtServing\<close> before its select statement and at
  \<open>WtAccepting\<close> in \<^verbatim>\<open>AcceptStream\<close>; the goroutine of a stream is at \<open>StreamReading\<close> before its
  select statement and at \<open>StreamBlocked\<close> in \<^verbatim>\<open>Read\<close>. Anything may happen while they block.
\<close>

datatype wt_pc = WtIdle | WtChecked | WtUpgraded | WtAdmitted | WtJoined | WtServing | WtAccepting | WtLeaving | WtFinished
datatype writer_pc = WriterOff | WriterWaiting | WriterPumping | WriterStopped
datatype stream_pc = StreamAccepted | StreamReading | StreamBlocked | StreamStopped

record wt_thread =
  wth_pc :: wt_pc
  wth_request :: HTTPRequest
  wth_status :: "nat option"
  wth_created :: "int64 option"
  wth_calls :: "callback list"
  wth_sent :: "bytes list"
  wth_writer :: writer_pc
  wth_streams :: "nat \<rightharpoonup> stream_pc"

record wt_system =
  wsys_server :: wt_server
  wsys_heap :: wt_heap
  wsys_thread :: "wt_ref \<Rightarrow> wt_thread"
  wsys_files :: files

definition wt_update_thread :: "wt_ref \<Rightarrow> (wt_thread \<Rightarrow> wt_thread) \<Rightarrow> wt_system \<Rightarrow> wt_system" where
  "wt_update_thread t f s = s\<lparr>wsys_thread := (wsys_thread s)(t := f (wsys_thread s t))\<rparr>"

definition wt_goto :: "wt_ref \<Rightarrow> wt_pc \<Rightarrow> wt_system \<Rightarrow> wt_system" where
  "wt_goto t p s = wt_update_thread t (\<lambda>th. th\<lparr>wth_pc := p\<rparr>) s"

definition wt_called :: "wt_ref \<Rightarrow> callback \<Rightarrow> wt_system \<Rightarrow> wt_system" where
  "wt_called t x s = wt_update_thread t (\<lambda>th. th\<lparr>wth_calls := wth_calls th @ [x]\<rparr>) s"

definition wt_put_conn :: "wt_ref \<Rightarrow> wt_connection \<Rightarrow> wt_system \<Rightarrow> wt_system" where
  "wt_put_conn t c s = s\<lparr>wsys_heap := (wsys_heap s)(t := c)\<rparr>"

definition wt_put_server :: "wt_server \<times> wt_heap \<Rightarrow> wt_system \<Rightarrow> wt_system" where
  "wt_put_server sh s = s\<lparr>wsys_server := fst sh, wsys_heap := snd sh\<rparr>"

definition set_writer :: "wt_ref \<Rightarrow> writer_pc \<Rightarrow> wt_system \<Rightarrow> wt_system" where
  "set_writer t w s = wt_update_thread t (\<lambda>th. th\<lparr>wth_writer := w\<rparr>) s"

definition set_stream :: "wt_ref \<Rightarrow> nat \<Rightarrow> stream_pc \<Rightarrow> wt_system \<Rightarrow> wt_system" where
  "set_stream t sid p s = wt_update_thread t (\<lambda>th. th\<lparr>wth_streams := (wth_streams th)(sid \<mapsto> p)\<rparr>) s"

section \<open>The handler\<close>

definition wt_handle_check :: "wt_ref \<Rightarrow> HTTPRequest \<Rightarrow> wt_system \<Rightarrow> wt_system" where
  "wt_handle_check t r s =
     (let s1 = wt_update_thread t (\<lambda>th. th\<lparr>wth_request := r\<rparr>) s;
          limit = wt_MaxConnections (wts_conf (wsys_server s))
      in if 0 < sint limit \<and> int64_le limit (wts_connCount (wsys_server s))
         then wt_goto t WtFinished (wt_update_thread t (\<lambda>th. th\<lparr>wth_status := Some 503\<rparr>) s1)
         else wt_goto t WtChecked s1)"

definition wt_handle_upgrade :: "wt_ref \<Rightarrow> go_error option \<Rightarrow> int64 \<Rightarrow> wt_system \<Rightarrow> wt_system" where
  "wt_handle_upgrade t err now s =
     (case err of
        Some _ \<Rightarrow> wt_goto t WtFinished s
      | None \<Rightarrow>
          let conn = wt_NewConnection (wt_generateConnID now) [] (wt_WriteTimeout (wts_conf (wsys_server s)))
          in wt_goto t WtUpgraded (wt_update_thread t (\<lambda>th. th\<lparr>wth_created := Some now\<rparr>) (wt_put_conn t conn s)))"

definition wt_handle_auth :: "wt_io \<Rightarrow> wt_ref \<Rightarrow> wt_system \<Rightarrow> wt_system" where
  "wt_handle_auth io t s =
     (if auth_Enabled (wt_Auth (wts_conf (wsys_server s)))
      then
        (let authReq = \<lparr>ar_Protocol = ProtocolWebTransport, ar_HTTPRequest = Some (wth_request (wsys_thread s t)),
                        ar_FirstMessage = []\<rparr>
         in case wts_authenticator (wsys_server s) authReq of
              Inl err \<Rightarrow>
                wt_goto t WtFinished
                  (wt_put_conn t (fst (wt_call io (CloseSession 0 ''authentication failed'') (wsys_heap s t))) s)
            | Inr userID \<Rightarrow>
                (let s1 = (if userID \<noteq> []
                           then (let s' = wt_put_conn t (wt_SetUserID userID (wsys_heap s t)) s
                                 in wt_put_server (wt_BindUser t userID (wsys_server s', wsys_heap s')) s')
                           else s)
                 in wt_goto t WtAdmitted s1))
      else wt_goto t WtAdmitted s)"

text \<open>The count is raised here and once more in \<^verbatim>\<open>registerConnection\<close>.\<close>

definition wt_handle_register :: "wt_ref \<Rightarrow> wt_system \<Rightarrow> wt_system" where
  "wt_handle_register t s =
     (let s1 = s\<lparr>wsys_server := (wsys_server s)\<lparr>wts_connCount := wts_connCount (wsys_server s) + 1\<rparr>\<rparr>
      in wt_goto t WtJoined (wt_put_server (wt_registerConnection t (wsys_server s1, wsys_heap s1)) s1))"

definition wt_handle_connect :: "wt_io \<Rightarrow> wt_ref \<Rightarrow> go_error option \<Rightarrow> wt_system \<Rightarrow> wt_system outcome" where
  "wt_handle_connect io t err s =
     (let s1 = wt_called t (OnConnect err) s
      in case err of
           Some _ \<Rightarrow> bind_outcome (wt_Close io (wsys_heap s1 t)) (\<lambda>(c, _). Return (wt_goto t WtLeaving (wt_put_conn t c s1)))
         | None \<Rightarrow> Return (wt_goto t WtServing (set_writer t WriterWaiting s1)))"

text \<open>The select statement of the accept loop; its default case runs when the other two are not ready.\<close>

definition wt_handle_select :: "wt_ref \<Rightarrow> wt_system \<Rightarrow> wt_system" where
  "wt_handle_select t s =
     wt_goto t (if wts_done (wsys_server s) \<or> wtc_done (wsys_heap s t) then WtLeaving else WtAccepting) s"

text \<open>The return of \<^verbatim>\<open>AcceptStream\<close>; a new goroutine serves the stream.\<close>

definition wt_handle_accept :: "wt_ref \<Rightarrow> go_error + nat \<Rightarrow> wt_system \<Rightarrow> wt_system" where
  "wt_handle_accept t accepted s =
     (case accepted of
        Inl err \<Rightarrow> wt_goto t WtLeaving s
      | Inr sid \<Rightarrow> wt_goto t WtServing (set_stream t sid StreamAccepted s))"

definition wt_handle_return :: "wt_ref \<Rightarrow> wt_system \<Rightarrow> wt_system" where
  "wt_handle_return t s =
     wt_goto t WtFinished (wt_put_server (wt_unregisterConnection t (wsys_server s, wsys_heap s)) s)"

section \<open>Streams\<close>

text \<open>\<^verbatim>\<open>make([]byte, ReadBufferSize)\<close> panics on a negative size.\<close>

definition handleStream_start :: "wt_ref \<Rightarrow> nat \<Rightarrow> wt_system \<Rightarrow> wt_system outcome" where
  "handleStream_start t sid s =
     bind_outcome (wt_SetResponseStream (Some sid) (wsys_heap s t))
       (\<lambda>c. if sint (wt_ReadBufferSize (wts_conf (wsys_server s))) < 0 then Panics
            else Return (set_stream t sid StreamReading (wt_put_conn t c s)))"

definition handleStream_select :: "wt_io \<Rightarrow> wt_ref \<Rightarrow> nat \<Rightarrow> int \<Rightarrow> wt_system \<Rightarrow> wt_system" where
  "handleStream_select io t sid now s =
     (if wts_done (wsys_server s) \<or> wtc_done (wsys_heap s t) then set_stream t sid StreamStopped s
      else
        let idle = sint (wt_IdleTimeout (wts_conf (wsys_server s)));
            s1 = (if 0 < idle then wt_put_conn t (fst (wt_call io (StreamReadDeadline sid (now + idle)) (wsys_heap s t))) s else s)
        in set_stream t sid StreamBlocked s1)"

text \<open>The return of \<^verbatim>\<open>Read\<close>. The error that \<^verbatim>\<open>OnMessage\<close> returns is logged and has no other effect.\<close>

definition handleStream_read :: "wt_ref \<Rightarrow> nat \<Rightarrow> go_error + bytes \<Rightarrow> wt_system \<Rightarrow> wt_system" where
  "handleStream_read t sid result s =
     (case result of
        Inl err \<Rightarrow> set_stream t sid StreamStopped s
      | Inr msg \<Rightarrow> set_stream t sid StreamReading (wt_called t (OnMessage msg) s))"

section \<open>The write pump\<close>

datatype wt_write_case = WtServerDone | WtConnectionDone | WtProceed

definition ready_cases :: "bool \<Rightarrow> bool \<Rightarrow> bool \<Rightarrow> wt_write_case list" where
  "ready_cases stopped closed proceed =
     (if stopped then [WtServerDone] else []) @ (if closed then [WtConnectionDone] else []) @
     (if proceed then [WtProceed] else [])"

text \<open>The first select waits for a stream to answer on.\<close>

definition wt_writePump_wait :: "wt_ref \<Rightarrow> nat \<Rightarrow> wt_system \<Rightarrow> wt_system outcome" where
  "wt_writePump_wait t choice s =
     (let c = wsys_heap s t
      in case go_select choice (ready_cases (wts_done (wsys_server s)) (wtc_done c) (wtc_streamReady c)) of
           None \<Rightarrow> Blocks
         | Some WtProceed \<Rightarrow> Return (set_writer t WriterPumping s)
         | Some _ \<Rightarrow> Return (set_writer t WriterStopped s))"

definition wt_writePump_round :: "wt_io \<Rightarrow> wt_ref \<Rightarrow> int \<Rightarrow> nat \<Rightarrow> wt_system \<Rightarrow> wt_system outcome" where
  "wt_writePump_round io t now choice s =
     (let c = wsys_heap s t
      in case go_select choice (ready_cases (wts_done (wsys_server s)) (wtc_done c) (wtc_send c \<noteq> [])) of
           None \<Rightarrow> Blocks
         | Some WtProceed \<Rightarrow>
             (let msg = hd (wtc_send c); c0 = c\<lparr>wtc_send := tl (wtc_send c)\<rparr>
              in case wt_ResponseStream c0 of
                   None \<Rightarrow> Return (set_writer t WriterStopped (wt_put_conn t c0 s))
                 | Some sid \<Rightarrow>
                     let timeout = sint (wt_WriteTimeout (wts_conf (wsys_server s)));
                         c1 = (if 0 < timeout then fst (wt_call io (StreamWriteDeadline sid (now + timeout)) c0) else c0);
                         (c2, err) = wt_call io (StreamWrite sid msg) c1;
                         s1 = wt_put_conn t c2 s
                     in Return (if err \<noteq> None then set_writer t WriterStopped s1 else s1))
         | Some _ \<Rightarrow> Return (set_writer t WriterStopped s))"

section \<open>Other goroutines\<close>

definition wt_other_send :: "wt_ref \<Rightarrow> nat \<Rightarrow> go_context \<Rightarrow> bytes \<Rightarrow> wt_system \<Rightarrow> wt_system outcome" where
  "wt_other_send t choice ctx msg s =
     bind_outcome (wt_Send choice ctx msg (wsys_heap s t))
       (\<lambda>(c, err). Return (wt_put_conn t c
          (if err = None then wt_update_thread t (\<lambda>th. th\<lparr>wth_sent := wth_sent th @ [msg]\<rparr>) s else s)))"

definition wt_other_close :: "wt_io \<Rightarrow> wt_ref \<Rightarrow> wt_system \<Rightarrow> wt_system outcome" where
  "wt_other_close io t s = bind_outcome (wt_Close io (wsys_heap s t)) (\<lambda>(c, _). Return (wt_put_conn t c s))"

definition wt_other_stop ::
  "(wt_ref \<Rightarrow> wt_io) \<Rightarrow> (string \<times> wt_ref) range_order \<Rightarrow> (string \<Rightarrow> bool) \<Rightarrow> wt_system \<Rightarrow> wt_system outcome" where
  "wt_other_stop io ord removable s =
     bind_outcome (wt_Stop io ord removable (wsys_server s, wsys_heap s, wsys_files s))
       (\<lambda>(srv, h, fs). Return (s\<lparr>wsys_server := srv, wsys_heap := h, wsys_files := fs\<rparr>))"

section \<open>Interleaving\<close>

datatype wt_event =
    WtArrive wt_ref HTTPRequest
  | WtUpgrade wt_ref "go_error option" int64
  | WtAuthenticate wt_ref
  | WtRegister wt_ref
  | WtConnect wt_ref "go_error option"
  | WtSelect wt_ref
  | WtAccept wt_ref "go_error + nat"
  | WtLeave wt_ref
  | WtStreamStart wt_ref nat
  | WtStreamSelect wt_ref nat int
  | WtStreamRead wt_ref nat "go_error + bytes"
  | WtWriterWait wt_ref nat
  | WtWriterRound wt_ref int nat
  | WtSendBy wt_ref nat go_context bytes
  | WtCloseBy wt_ref
  | WtStopBy "(string \<times> wt_ref) range_order" "string \<Rightarrow> bool"

fun wt_exec :: "(wt_ref \<Rightarrow> wt_io) \<Rightarrow> wt_event \<Rightarrow> wt_system \<Rightarrow> wt_system outcome option" where
  "wt_exec io (WtArrive t r) s =
     (if wth_pc (wsys_thread s t) = WtIdle then Some (Return (wt_handle_check t r s)) else None)"
| "wt_exec io (WtUpgrade t err now) s =
     (if wth_pc (wsys_thread s t) = WtChecked then Some (Return (wt_handle_upgrade t err now s)) else None)"
| "wt_exec io (WtAuthenticate t) s =
     (if wth_pc (wsys_thread s t) = WtUpgraded then Some (Return (wt_handle_auth (io t) t s)) else None)"
| "wt_exec io (WtRegister t) s =
     (if wth_pc (wsys_thread s t) = WtAdmitted then Some (Return (wt_handle_register t s)) else None)"
| "wt_exec io (WtConnect t err) s =
     (if wth_pc (wsys_thread s t) = WtJoined then Some (wt_handle_connect (io t) t err s) else None)"
| "wt_exec io (WtSelect t) s =
     (if wth_pc (wsys_thread s t) = WtServing then Some (Return (wt_handle_select t s)) else None)"
| "wt_exec io (WtAccept t accepted) s =
     (if wth_pc (wsys_thread s t) = WtAccepting then Some (Return (wt_handle_accept t accepted s)) else None)"
| "wt_exec io (WtLeave t) s =
     (if wth_pc (wsys_thread s t) = WtLeaving then Some (Return (wt_handle_return t s)) else None)"
| "wt_exec io (WtStreamStart t sid) s =
     (if wth_streams (wsys_thread s t) sid = Some StreamAccepted then Some (handleStream_start t sid s) else None)"
| "wt_exec io (WtStreamSelect t sid now) s =
     (if wth_streams (wsys_thread s t) sid = Some StreamReading
      then Some (Return (handleStream_select (io t) t sid now s)) else None)"
| "wt_exec io (WtStreamRead t sid result) s =
     (if wth_streams (wsys_thread s t) sid = Some StreamBlocked
      then Some (Return (handleStream_read t sid result s)) else None)"
| "wt_exec io (WtWriterWait t choice) s =
     (if wth_writer (wsys_thread s t) = WriterWaiting then Some (wt_writePump_wait t choice s) else None)"
| "wt_exec io (WtWriterRound t now choice) s =
     (if wth_writer (wsys_thread s t) = WriterPumping then Some (wt_writePump_round (io t) t now choice s) else None)"
| "wt_exec io (WtSendBy t choice ctx msg) s =
     (if wth_created (wsys_thread s t) \<noteq> None then Some (wt_other_send t choice ctx msg s) else None)"
| "wt_exec io (WtCloseBy t) s =
     (if wth_created (wsys_thread s t) \<noteq> None then Some (wt_other_close (io t) t s) else None)"
| "wt_exec io (WtStopBy ord removable) s = Some (wt_other_stop io ord removable s)"

definition wt_idle_thread :: wt_thread where
  "wt_idle_thread =
     \<lparr>wth_pc = WtIdle, wth_request = \<lparr>req_Header = [], req_Query = [], req_Cookies = [], req_Host = []\<rparr>,
      wth_status = None, wth_created = None, wth_calls = [], wth_sent = [], wth_writer = WriterOff, wth_streams = Map.empty\<rparr>"

definition wt_initial :: "wt_server \<Rightarrow> wt_system" where
  "wt_initial srv = \<lparr>wsys_server = srv, wsys_heap = (\<lambda>_. wt_NewConnection [] [] 0), wsys_thread = (\<lambda>_. wt_idle_thread),
     wsys_files = {}\<rparr>"

definition wt_fresh_server :: "wt_server \<Rightarrow> bool" where
  "wt_fresh_server srv \<longleftrightarrow> wts_connections srv = [] \<and> wts_userConns srv = [] \<and> wts_connCount srv = 0 \<and>
     \<not> wts_done srv \<and> \<not> wts_once srv"

fun wt_event_ok :: "wt_event \<Rightarrow> bool" where
  "wt_event_ok (WtStopBy ord removable) = order_ok ord"
| "wt_event_ok _ = True"

inductive wt_reach :: "(wt_ref \<Rightarrow> wt_io) \<Rightarrow> wt_system \<Rightarrow> wt_system \<Rightarrow> bool" for io s0 where
  start: "wt_reach io s0 s0"
| step: "wt_reach io s0 s \<Longrightarrow> wt_event_ok ev \<Longrightarrow> wt_exec io ev s = Some (Return s') \<Longrightarrow> wt_reach io s0 s'"

section \<open>Invariants\<close>

fun wt_active :: "wt_pc \<Rightarrow> bool" where
  "wt_active WtJoined = True" | "wt_active WtServing = True" | "wt_active WtAccepting = True" | "wt_active WtLeaving = True" | "wt_active _ = False"

text \<open>What a goroutine contributes to the connection count: two while its connection is registered
  and one after it has returned.\<close>

definition weight :: "wt_thread \<Rightarrow> nat" where
  "weight th = (if wt_active (wth_pc th) then 2 else if wth_pc th = WtFinished \<and> wth_calls th \<noteq> [] then 1 else 0)"

fun stream_write :: "wt_call \<Rightarrow> bytes list" where
  "stream_write (StreamWrite sid b) = [b]" | "stream_write _ = []"

definition stream_writes :: "wt_call list \<Rightarrow> bytes list" where
  "stream_writes calls = concat (map stream_write calls)"

definition wt_auth_result :: "wt_server \<Rightarrow> wt_thread \<Rightarrow> go_error + string" where
  "wt_auth_result srv th =
     (if auth_Enabled (wt_Auth (wts_conf srv))
      then wts_authenticator srv
             \<lparr>ar_Protocol = ProtocolWebTransport, ar_HTTPRequest = Some (wth_request th), ar_FirstMessage = []\<rparr>
      else Inr [])"

text \<open>The state of the connection object of a session.\<close>

definition wt_object_ok :: "wt_thread \<Rightarrow> wt_connection \<Rightarrow> bool" where
  "wt_object_ok th c \<longleftrightarrow>
     wt_conn_ok c \<and> stream_writes (wtc_session c) @ wtc_send c = wth_sent th \<and>
     (wth_writer th = WriterPumping \<longrightarrow> wtc_streamReady c)"

definition wt_thread_ok :: "wt_server \<Rightarrow> wt_thread \<Rightarrow> wt_connection \<Rightarrow> bool" where
  "wt_thread_ok srv th c \<longleftrightarrow>
     (wth_pc th \<in> {WtIdle, WtChecked, WtUpgraded, WtAdmitted, WtJoined} \<longrightarrow> wth_calls th = []) \<and>
     (wth_pc th \<in> {WtServing, WtAccepting, WtLeaving} \<longrightarrow> wth_calls th \<noteq> []) \<and>
     (wth_calls th = [] \<longrightarrow> wth_streams th = Map.empty) \<and>
     (wth_calls th = [] \<or> (\<exists>e msgs. wth_calls th = OnConnect e # map OnMessage msgs)) \<and>
     (wth_calls th \<noteq> [] \<or> wth_pc th \<in> {WtAdmitted, WtJoined} \<longrightarrow> (\<exists>u. wt_auth_result srv th = Inr u)) \<and>
     (wth_created th = None \<longrightarrow> wth_pc th \<in> {WtIdle, WtChecked, WtFinished} \<and> wth_calls th = [] \<and> wth_sent th = []) \<and>
     (wth_pc th \<in> {WtIdle, WtChecked} \<longrightarrow> wth_created th = None) \<and>
     (wth_calls th = [] \<longrightarrow> wth_writer th = WriterOff) \<and>
     (wth_created th \<noteq> None \<longrightarrow> wt_object_ok th c)"

definition wt_weighted :: "wt_system \<Rightarrow> wt_ref set" where
  "wt_weighted s = {t. weight (wsys_thread s t) \<noteq> 0}"

definition wt_inv :: "wt_system \<Rightarrow> bool" where
  "wt_inv s \<longleftrightarrow>
     (\<forall>t. wt_thread_ok (wsys_server s) (wsys_thread s t) (wsys_heap s t)) \<and>
     finite (wt_weighted s) \<and>
     wts_connCount (wsys_server s) = of_nat (\<Sum>t \<in> wt_weighted s. weight (wsys_thread s t)) \<and>
     (\<forall>t \<in> snd ` set (wts_connections (wsys_server s)). wth_created (wsys_thread s t) \<noteq> None) \<and>
     wts_once (wsys_server s) = wts_done (wsys_server s)"

definition wt_same :: "wt_server \<Rightarrow> wt_server \<Rightarrow> bool" where
  "wt_same a b \<longleftrightarrow> wts_conf a = wts_conf b \<and> wts_authenticator a = wts_authenticator b \<and>
     wts_done a = wts_done b \<and> wts_once a = wts_once b"

text \<open>A step of one goroutine: it changes its own state and connection, and the count by the
  difference of its weights.\<close>

definition wt_thread_step :: "wt_system \<Rightarrow> wt_system \<Rightarrow> bool" where
  "wt_thread_step s s' \<longleftrightarrow>
     (\<exists>t th c. wsys_thread s' = (wsys_thread s)(t := th) \<and> wsys_heap s' = (wsys_heap s)(t := c) \<and>
        wt_thread_ok (wsys_server s) th c \<and>
        wts_connCount (wsys_server s') + of_nat (weight (wsys_thread s t)) = wts_connCount (wsys_server s) + of_nat (weight th) \<and>
        (wth_created (wsys_thread s t) \<noteq> None \<longrightarrow> wth_created th \<noteq> None) \<and>
        snd ` set (wts_connections (wsys_server s')) \<subseteq>
          snd ` set (wts_connections (wsys_server s)) \<union> (if wth_created th \<noteq> None then {t} else {}) \<and>
        wt_same (wsys_server s) (wsys_server s'))"

definition wt_total :: "wt_system \<Rightarrow> nat" where
  "wt_total s = (\<Sum>t \<in> wt_weighted s. weight (wsys_thread s t))"

text \<open>A run given by its events; a server with room for one connection; a session that answers one
  message and ends.\<close>

fun wt_run :: "(wt_ref \<Rightarrow> wt_io) \<Rightarrow> wt_event list \<Rightarrow> wt_system \<Rightarrow> wt_system option" where
  "wt_run io [] s = Some s"
| "wt_run io (ev # evs) s =
     (if wt_event_ok ev then (case wt_exec io ev s of Some (Return s') \<Rightarrow> wt_run io evs s' | _ \<Rightarrow> None) else None)"

definition sample_wt_fresh :: wt_server where
  "sample_wt_fresh = sample_wt_server\<lparr>wts_connections := [], wts_userConns := [], wts_connCount := 0,
     wts_conf := sample_WtConf\<lparr>wt_MaxConnections := 1\<rparr>\<rparr>"

definition sample_wt_session :: "wt_event list" where
  "sample_wt_session =
     [WtArrive 0 \<lparr>req_Header = [], req_Query = [], req_Cookies = [], req_Host = []\<rparr>, WtUpgrade 0 None 7, WtAuthenticate 0,
      WtRegister 0, WtConnect 0 None, WtSelect 0, WtAccept 0 (Inr 4), WtStreamStart 0 4, WtStreamSelect 0 4 9,
      WtStreamRead 0 4 (Inr [1]),
      WtSendBy 0 0 None [42], WtWriterWait 0 0, WtWriterRound 0 10 0, WtSelect 0,
      WtAccept 0 (Inl (ErrorString ''closed'')), WtLeave 0]"

section \<open>Lemmas on single steps\<close>

lemmas wt_update_defs = wt_update_thread_def wt_goto_def wt_called_def wt_put_conn_def wt_put_server_def
  set_writer_def set_stream_def

lemma stream_writes_simps [simp]:
  "stream_writes (xs @ ys) = stream_writes xs @ stream_writes ys" "stream_writes (x # xs) = stream_write x @ stream_writes xs"
  "stream_writes [] = []"
  by (simp_all add: stream_writes_def)

lemma wt_same_refl [simp]: "wt_same a a"
  by (simp add: wt_same_def)

lemma wt_thread_stepI:
  assumes "wsys_thread s' = (wsys_thread s)(t := th)" and "wsys_heap s' = (wsys_heap s)(t := c)"
    and "wt_thread_ok (wsys_server s) th c"
    and "wts_connCount (wsys_server s') + of_nat (weight (wsys_thread s t)) = wts_connCount (wsys_server s) + of_nat (weight th)"
    and "wth_created (wsys_thread s t) \<noteq> None \<Longrightarrow> wth_created th \<noteq> None"
    and "snd ` set (wts_connections (wsys_server s')) \<subseteq>
      snd ` set (wts_connections (wsys_server s)) \<union> (if wth_created th \<noteq> None then {t} else {})"
    and "wt_same (wsys_server s) (wsys_server s')"
  shows "wt_thread_step s s'"
  using assms unfolding wt_thread_step_def by blast

text \<open>A step that leaves the server alone.\<close>

lemma wt_step_local:
  assumes "wsys_server s' = wsys_server s" and "wsys_thread s' = (wsys_thread s)(t := th)"
    and "wsys_heap s' = (wsys_heap s)(t := c)"
    and "wt_thread_ok (wsys_server s) th c" and "weight th = weight (wsys_thread s t)"
    and "wth_created (wsys_thread s t) \<noteq> None \<Longrightarrow> wth_created th \<noteq> None"
  shows "wt_thread_step s s'"
  by (rule wt_thread_stepI [OF assms(2-4)]) (use assms in auto)

lemma wt_invD:
  assumes "wt_inv s"
  shows "wt_thread_ok (wsys_server s) (wsys_thread s t) (wsys_heap s t)" "finite (wt_weighted s)"
    "wts_connCount (wsys_server s) = of_nat (\<Sum>t \<in> wt_weighted s. weight (wsys_thread s t))"
    "t \<in> snd ` set (wts_connections (wsys_server s)) \<Longrightarrow> wth_created (wsys_thread s t) \<noteq> None"
    "wts_once (wsys_server s) = wts_done (wsys_server s)"
  using assms by (auto simp: wt_inv_def)

lemma wt_step_check:
  assumes "wt_inv s" and "wth_pc (wsys_thread s t) = WtIdle"
  shows "wt_thread_step s (wt_handle_check t r s)"
  by (rule wt_step_local [where t = t and th = "wsys_thread (wt_handle_check t r s) t" and c = "wsys_heap s t"])
    (use assms(2) wt_invD(1) [OF assms(1), of t] in
      \<open>auto simp: wt_handle_check_def wt_update_defs wt_thread_ok_def weight_def Let_def\<close>)

lemma wt_step_upgrade:
  assumes "wt_inv s" and "wth_pc (wsys_thread s t) = WtChecked"
  shows "wt_thread_step s (wt_handle_upgrade t err now s)"
  by (rule wt_step_local [where t = t and th = "wsys_thread (wt_handle_upgrade t err now s) t" and
        c = "wsys_heap (wt_handle_upgrade t err now s) t"])
    (use assms(2) wt_invD(1) [OF assms(1), of t] in
      \<open>auto simp: wt_handle_upgrade_def wt_update_defs wt_thread_ok_def weight_def Let_def wt_object_ok_def wt_conn_ok_New
        split: option.splits\<close>, auto simp: wt_NewConnection_def)

lemma wt_SetUserID_more [simp]:
  "wt_conn_ok (wt_SetUserID u c) = wt_conn_ok c" "wtc_session (wt_SetUserID u c) = wtc_session c"
  "wtc_streamReady (wt_SetUserID u c) = wtc_streamReady c"
  by (simp_all add: wt_SetUserID_def wt_conn_ok_def)

lemma wt_call_fst [simp]:
  "x \<noteq> CloseSession 0 [] \<Longrightarrow> wt_conn_ok (fst (wt_call io x c)) = wt_conn_ok c"
  "wtc_session (fst (wt_call io x c)) = wtc_session c @ [x]" "wtc_send (fst (wt_call io x c)) = wtc_send c"
  "wtc_streamReady (fst (wt_call io x c)) = wtc_streamReady c" "wtc_done (fst (wt_call io x c)) = wtc_done c"
  by (auto simp: wt_call_def wt_conn_ok_def)

lemma wt_step_auth:
  assumes "wt_inv s" and "wth_pc (wsys_thread s t) = WtUpgraded"
  shows "wt_thread_step s (wt_handle_auth io t s)"
proof -
  let ?s = "wt_handle_auth io t s"
  show ?thesis
    by (rule wt_thread_stepI [where t = t and th = "wsys_thread ?s t" and c = "wsys_heap ?s t"])
      (use assms(2) wt_invD(1) [OF assms(1), of t] in
        \<open>auto simp: wt_handle_auth_def wt_update_defs wt_thread_ok_def weight_def Let_def wt_BindUser_def
          wt_same_def wt_auth_result_def wt_object_ok_def split: sum.splits if_splits\<close>)
qed

lemma wt_step_register:
  assumes "wt_inv s" and "wth_pc (wsys_thread s t) = WtAdmitted"
  shows "wt_thread_step s (wt_handle_register t s)"
proof -
  let ?s = "wt_handle_register t s"
  have "snd ` set (mapassign k t m) \<subseteq> snd ` set m \<union> {t}" for k and m :: "(string, wt_ref) gomap"
    by (induction m) auto
  then show ?thesis
    by (intro wt_thread_stepI [where t = t and th = "wsys_thread ?s t" and c = "wsys_heap ?s t"])
      (use assms(2) wt_invD(1) [OF assms(1), of t] in
        \<open>auto simp: wt_handle_register_def wt_update_defs wt_thread_ok_def weight_def Let_def wt_registerConnection_def
          wt_same_def wt_auth_result_def wt_object_ok_def\<close>)
qed

lemma wt_step_return:
  assumes "wt_inv s" and "wth_pc (wsys_thread s t) = WtLeaving"
  shows "wt_thread_step s (wt_handle_return t s)"
proof -
  let ?s = "wt_handle_return t s"
  have "snd ` set (mapdelete k m) \<subseteq> snd ` set m" for k and m :: "(string, wt_ref) gomap"
    by (auto simp: set_mapdelete)
  then show ?thesis
    by (intro wt_thread_stepI [where t = t and th = "wsys_thread ?s t" and c = "wsys_heap ?s t"])
      (use assms(2) wt_invD(1) [OF assms(1), of t] in
        \<open>auto simp: wt_handle_return_def wt_update_defs wt_thread_ok_def weight_def Let_def wt_unregisterConnection_def
          wt_same_def wt_auth_result_def wt_object_ok_def\<close>)
qed

text \<open>What \<^verbatim>\<open>Close\<close> makes of a connection object.\<close>

lemma wt_Close_object:
  assumes "wt_Close io c = Return (c', err)" and "wt_object_ok th c"
  shows "wt_object_ok th c'"
  using assms wt_conn_ok_Close [OF _ assms(1)]
  by (auto simp: wt_object_ok_def wt_Close_eq split: if_splits)

lemma wt_step_connect:
  assumes "wt_inv s" and "wth_pc (wsys_thread s t) = WtJoined" and "wt_handle_connect io t err s = Return s'"
  shows "wt_thread_step s s'"
proof -
  note ok = wt_invD(1) [OF assms(1), of t]
  have o: "wt_object_ok (wsys_thread s t) (wsys_heap s t)" using ok assms(2) by (auto simp: wt_thread_ok_def)
  show ?thesis
    by (rule wt_step_local [where t = t and th = "wsys_thread s' t" and c = "wsys_heap s' t"])
      (use assms(2,3) ok wt_Close_object [OF _ o] in
        \<open>auto simp: wt_handle_connect_def wt_update_defs wt_thread_ok_def weight_def Let_def wt_auth_result_def wt_object_ok_def
          split: option.splits\<close>)
qed

text \<open>Steps after \<^verbatim>\<open>OnConnect\<close>: the goroutines of the session only add \<^verbatim>\<open>OnMessage\<close> calls.\<close>

lemma wt_thread_ok_running:
  assumes "wt_thread_ok srv th c" and "wth_calls th \<noteq> []" and "wth_calls th' = wth_calls th @ map OnMessage msgs"
    and "wth_pc th' \<in> {WtServing, WtAccepting, WtLeaving, WtFinished}" and "wth_request th' = wth_request th"
    and "wth_created th' = wth_created th" and "wt_object_ok th' c'"
  shows "wt_thread_ok srv th' c'"
proof -
  obtain e ms u where calls: "wth_calls th = OnConnect e # map OnMessage ms" and u: "wt_auth_result srv th = Inr u"
    and created: "wth_created th \<noteq> None"
    using assms(1,2) by (auto simp: wt_thread_ok_def)
  have "wth_calls th' = OnConnect e # map OnMessage (ms @ msgs)" using calls assms(3) by simp
  then have "wth_calls th' = OnConnect e # map OnMessage (ms @ msgs)" "wth_calls th' \<noteq> []" by auto
  moreover have "wt_auth_result srv th' = wt_auth_result srv th" using assms(5) by (simp add: wt_auth_result_def)
  ultimately show ?thesis using u assms(4,6,7) created unfolding wt_thread_ok_def by fastforce
qed

lemma wt_step_running:
  assumes "wt_inv s" and "wth_calls (wsys_thread s t) \<noteq> []"
    and "wsys_server s' = wsys_server s" and "wsys_thread s' = (wsys_thread s)(t := th)" and "wsys_heap s' = (wsys_heap s)(t := c)"
    and "wth_calls th = wth_calls (wsys_thread s t) @ map OnMessage msgs"
    and "wth_pc th = wth_pc (wsys_thread s t) \<or> {wth_pc (wsys_thread s t), wth_pc th} \<subseteq> {WtServing, WtAccepting, WtLeaving}"
    and "wth_request th = wth_request (wsys_thread s t)" and "wth_created th = wth_created (wsys_thread s t)"
    and "wt_object_ok th c"
  shows "wt_thread_step s s'"
proof (rule wt_step_local [OF assms(3-5)])
  note ok = wt_invD(1) [OF assms(1), of t]
  have "wth_pc (wsys_thread s t) \<in> {WtServing, WtAccepting, WtLeaving, WtFinished}"
    using ok assms(2) by (cases "wth_pc (wsys_thread s t)") (auto simp: wt_thread_ok_def)
  then have "wth_pc th \<in> {WtServing, WtAccepting, WtLeaving, WtFinished}" using assms(7) by auto
  then show "wt_thread_ok (wsys_server s) th c" using wt_thread_ok_running [OF ok] assms by blast
  show "weight th = weight (wsys_thread s t)"
    using assms(2,6,7) by (auto simp: weight_def)
qed (use assms in simp)

lemma wt_object:
  assumes "wt_inv s" and "wth_created (wsys_thread s t) \<noteq> None"
  shows "wt_object_ok (wsys_thread s t) (wsys_heap s t)"
  using wt_invD(1) [OF assms(1), of t] assms(2) by (simp add: wt_thread_ok_def)

lemma wt_calls_created:
  assumes "wt_inv s" and "wth_calls (wsys_thread s t) \<noteq> []"
  shows "wth_created (wsys_thread s t) \<noteq> None" "wt_object_ok (wsys_thread s t) (wsys_heap s t)"
proof -
  show "wth_created (wsys_thread s t) \<noteq> None"
    using wt_invD(1) [OF assms(1), of t] assms(2) by (auto simp: wt_thread_ok_def)
  then show "wt_object_ok (wsys_thread s t) (wsys_heap s t)" by (rule wt_object [OF assms(1)])
qed

lemma wt_step_accept:
  assumes "wt_inv s" and "wth_pc (wsys_thread s t) \<in> {WtServing, WtAccepting}"
  shows "wt_thread_step s (wt_handle_accept t accepted s)" and "wt_thread_step s (wt_handle_select t s)"
proof -
  have calls: "wth_calls (wsys_thread s t) \<noteq> []"
    using wt_invD(1) [OF assms(1), of t] assms(2) by (auto simp: wt_thread_ok_def)
  note run = wt_step_running [OF assms(1) calls, where c = "wsys_heap s t" and msgs = "[]"]
  note obj = wt_calls_created [OF assms(1) calls]
  show "wt_thread_step s (wt_handle_accept t accepted s)"
    by (rule run [where th = "wsys_thread (wt_handle_accept t accepted s) t"])
      (use assms(2) obj in \<open>auto simp: wt_handle_accept_def wt_update_defs wt_object_ok_def split: sum.splits\<close>)
  show "wt_thread_step s (wt_handle_select t s)"
    by (rule run [where th = "wsys_thread (wt_handle_select t s) t"])
      (use assms(2) obj in \<open>auto simp: wt_handle_select_def wt_update_defs wt_object_ok_def\<close>)
qed

lemma wt_SetResponseStream_object:
  assumes "wt_SetResponseStream (Some sid) c = Return c'" and "wt_object_ok th c"
  shows "wt_object_ok th c'"
  using assms by (auto simp: wt_SetResponseStream_def wt_object_ok_def wt_conn_ok_def Let_def split: if_splits)

text \<open>Streams and the write pump exist only after \<^verbatim>\<open>OnConnect\<close> has returned nil.\<close>

lemma wt_stream_calls:
  assumes "wt_inv s" and "wth_streams (wsys_thread s t) sid = Some p \<or> wth_writer (wsys_thread s t) \<noteq> WriterOff"
  shows "wth_calls (wsys_thread s t) \<noteq> []"
proof
  assume "wth_calls (wsys_thread s t) = []"
  then have "wth_streams (wsys_thread s t) = Map.empty" "wth_writer (wsys_thread s t) = WriterOff"
    using wt_invD(1) [OF assms(1), of t] unfolding wt_thread_ok_def by blast+
  with assms(2) show False by simp
qed

lemma wt_step_stream_start:
  assumes "wt_inv s" and "wth_streams (wsys_thread s t) sid = Some p" and "handleStream_start t sid s = Return s'"
  shows "wt_thread_step s s'"
proof -
  have calls: "wth_calls (wsys_thread s t) \<noteq> []" using wt_stream_calls assms(1,2) by blast
  note obj = wt_calls_created(2) [OF assms(1) calls]
  show ?thesis
    by (rule wt_step_running [OF assms(1) calls, where th = "wsys_thread s' t" and c = "wsys_heap s' t" and msgs = "[]"])
      (use assms(3) wt_SetResponseStream_object [OF _ obj] in
        \<open>auto simp: handleStream_start_def wt_update_defs wt_object_ok_def split: if_splits\<close>)
qed

lemma wt_step_stream_round:
  assumes "wt_inv s" and "wth_streams (wsys_thread s t) sid = Some p"
  shows "wt_thread_step s (handleStream_select io t sid now s)" and "wt_thread_step s (handleStream_read t sid result s)"
proof -
  have calls: "wth_calls (wsys_thread s t) \<noteq> []" using wt_stream_calls assms(1,2) by blast
  note obj = wt_calls_created(2) [OF assms(1) calls]
  note run = wt_step_running [OF assms(1) calls]
  let ?s = "handleStream_select io t sid now s" and ?r = "handleStream_read t sid result s"
  show "wt_thread_step s ?s"
    by (rule run [where th = "wsys_thread ?s t" and c = "wsys_heap ?s t" and msgs = "[]"])
      (use obj in \<open>auto simp: handleStream_select_def wt_update_defs wt_object_ok_def Let_def\<close>)
  show "wt_thread_step s ?r"
    by (rule run [where th = "wsys_thread ?r t" and c = "wsys_heap ?r t" and msgs = "case result of Inl _ \<Rightarrow> [] | Inr m \<Rightarrow> [m]"])
      (use obj in \<open>auto simp: handleStream_read_def wt_update_defs wt_object_ok_def split: sum.splits\<close>)
qed

lemma wt_step_writer_wait:
  assumes "wt_inv s" and "wth_writer (wsys_thread s t) = WriterWaiting" and "wt_writePump_wait t choice s = Return s'"
  shows "wt_thread_step s s'"
proof -
  have calls: "wth_calls (wsys_thread s t) \<noteq> []" using wt_stream_calls assms(1,2) by force
  note obj = wt_calls_created(2) [OF assms(1) calls]
  let ?ready = "ready_cases (wts_done (wsys_server s)) (wtc_done (wsys_heap s t)) (wtc_streamReady (wsys_heap s t))"
  obtain x where x: "go_select choice ?ready = Some x"
    using assms(3) by (cases "go_select choice ?ready") (simp_all add: wt_writePump_wait_def Let_def del: go_select_None)
  have "x = WtProceed \<Longrightarrow> wtc_streamReady (wsys_heap s t)"
    using go_select_in [OF x] by (auto simp: ready_cases_def split: if_splits)
  then show ?thesis
    by (intro wt_step_running [OF assms(1) calls, where th = "wsys_thread s' t" and c = "wsys_heap s' t" and msgs = "[]"])
      (use assms(3) x obj in \<open>auto simp: wt_writePump_wait_def wt_update_defs wt_object_ok_def Let_def split: wt_write_case.splits\<close>)
qed

lemma wt_step_writer_round:
  assumes "wt_inv s" and "wth_writer (wsys_thread s t) = WriterPumping" and "wt_writePump_round io t now choice s = Return s'"
  shows "wt_thread_step s s'"
proof -
  have calls: "wth_calls (wsys_thread s t) \<noteq> []" using wt_stream_calls assms(1,2) by force
  let ?c = "wsys_heap s t"
  have obj: "wt_conn_ok ?c" "stream_writes (wtc_session ?c) @ wtc_send ?c = wth_sent (wsys_thread s t)" "wtc_streamReady ?c"
    using wt_calls_created(2) [OF assms(1) calls] assms(2) by (simp_all add: wt_object_ok_def)
  then obtain sid where sid: "wtc_responseStream ?c = Some sid" by (auto simp: wt_conn_ok_def)
  let ?ready = "ready_cases (wts_done (wsys_server s)) (wtc_done ?c) (wtc_send ?c \<noteq> [])"
  obtain x where x: "go_select choice ?ready = Some x"
    using assms(3) by (cases "go_select choice ?ready") (simp_all add: wt_writePump_round_def Let_def del: go_select_None)
  show ?thesis
  proof (cases "x = WtProceed")
    case True
    have ne: "wtc_send ?c \<noteq> []"
      using go_select_in [OF x] True by (auto simp: ready_cases_def split: if_splits)
    then have tl: "wt_conn_ok (?c\<lparr>wtc_send := tl (wtc_send ?c)\<rparr>)" using obj(1) by (auto simp: wt_conn_ok_def)
    define c0 where "c0 = ?c\<lparr>wtc_send := tl (wtc_send ?c)\<rparr>"
    define timeout where "timeout = sint (wt_WriteTimeout (wts_conf (wsys_server s)))"
    define c1 where "c1 = (if 0 < timeout then fst (wt_call io (StreamWriteDeadline sid (now + timeout)) c0) else c0)"
    define c2 where "c2 = fst (wt_call io (StreamWrite sid (hd (wtc_send ?c))) c1)"
    have c2: "wt_conn_ok c2" "stream_writes (wtc_session c2) @ wtc_send c2 = wth_sent (wsys_thread s t)" "wtc_streamReady c2"
      using tl obj ne by (simp_all add: c2_def c1_def c0_def)
    have "s' = wt_put_conn t c2 s \<or> s' = set_writer t WriterStopped (wt_put_conn t c2 s)"
      using assms(3) x True sid
      by (auto simp: wt_writePump_round_def Let_def wt_ResponseStream_def c2_def c1_def c0_def timeout_def split: prod.splits)
    then show ?thesis
      by (intro wt_step_running [OF assms(1) calls, where th = "wsys_thread s' t" and c = c2 and msgs = "[]"])
        (use c2 in \<open>auto simp: wt_update_defs wt_object_ok_def\<close>)
  next
    case False
    then have "s' = set_writer t WriterStopped s"
      using assms(3) x by (cases x) (simp_all add: wt_writePump_round_def Let_def)
    then show ?thesis
      by (intro wt_step_running [OF assms(1) calls, where th = "wsys_thread s' t" and c = ?c and msgs = "[]"])
        (use obj in \<open>auto simp: wt_update_defs wt_object_ok_def\<close>)
  qed
qed

text \<open>Sending and closing, at any point after the connection was created.\<close>

lemma wt_thread_ok_object:
  assumes "wt_thread_ok srv th c" and "wth_created th \<noteq> None" and "wt_object_ok (th\<lparr>wth_sent := sent\<rparr>) c'"
  shows "wt_thread_ok srv (th\<lparr>wth_sent := sent\<rparr>) c'"
proof -
  have "wt_auth_result srv (th\<lparr>wth_sent := sent\<rparr>) = wt_auth_result srv th" by (simp add: wt_auth_result_def)
  then show ?thesis using assms unfolding wt_thread_ok_def by auto
qed

lemma wt_step_send:
  assumes "wt_inv s" and "wth_created (wsys_thread s t) \<noteq> None" and "wt_other_send t choice ctx msg s = Return s'"
  shows "wt_thread_step s s'"
proof -
  let ?c = "wsys_heap s t" and ?th = "wsys_thread s t"
  note obj = wt_object [OF assms(1,2)]
  obtain c' err where send: "wt_Send choice ctx msg ?c = Return (c', err)"
    and s': "s' = wt_put_conn t c' (if err = None then wt_update_thread t (\<lambda>th. th\<lparr>wth_sent := wth_sent th @ [msg]\<rparr>) s else s)"
    using assms(3) by (auto simp: wt_other_send_def)
  let ?sent = "if err = None then wth_sent ?th @ [msg] else wth_sent ?th"
  have "wt_object_ok (?th\<lparr>wth_sent := ?sent\<rparr>) c'"
    using send obj by (cases rule: wt_Send_ReturnE) (auto simp: wt_object_ok_def wt_conn_ok_def)
  then have "wt_thread_ok (wsys_server s) (?th\<lparr>wth_sent := ?sent\<rparr>) c'"
    by (rule wt_thread_ok_object [OF wt_invD(1) [OF assms(1)] assms(2)])
  then show ?thesis
    by (rule wt_step_local [rotated 3]) (use s' assms(2) in \<open>auto simp: wt_update_defs weight_def\<close>)
qed

lemma wt_step_close:
  assumes "wt_inv s" and "wth_created (wsys_thread s t) \<noteq> None" and "wt_other_close io t s = Return s'"
  shows "wt_thread_step s s'"
proof -
  let ?c = "wsys_heap s t" and ?th = "wsys_thread s t"
  obtain c' err where close: "wt_Close io ?c = Return (c', err)" and s': "s' = wt_put_conn t c' s"
    using assms(3) by (auto simp: wt_other_close_def)
  have "wt_object_ok (?th\<lparr>wth_sent := wth_sent ?th\<rparr>) c'" using wt_Close_object [OF close wt_object [OF assms(1,2)]] by simp
  then have "wt_thread_ok (wsys_server s) (?th\<lparr>wth_sent := wth_sent ?th\<rparr>) c'"
    by (rule wt_thread_ok_object [OF wt_invD(1) [OF assms(1)] assms(2)])
  then show ?thesis
    by (intro wt_step_local [where t = t and th = ?th and c = c']) (use s' assms(2) in \<open>auto simp: wt_update_defs\<close>)
qed

lemmas wt_thread_steps = wt_step_check wt_step_upgrade wt_step_auth wt_step_register wt_step_return wt_step_connect
  wt_step_accept wt_step_stream_start wt_step_stream_round wt_step_writer_wait wt_step_writer_round wt_step_send wt_step_close

lemma wt_exec_step:
  assumes "wt_inv s" and "wt_exec io ev s = Some (Return s')"
  shows "wt_thread_step s s' \<or> (\<exists>ord removable. ev = WtStopBy ord removable \<and> wt_other_stop io ord removable s = Return s')"
  using assms by (cases ev) (auto intro: wt_thread_steps split: if_splits)

section \<open>The shared state\<close>

lemma wt_total_update:
  assumes "finite (wt_weighted s)" and "wsys_thread s' = (wsys_thread s)(t := th)"
  shows "finite (wt_weighted s')" and "wt_total s' + weight (wsys_thread s t) = wt_total s + weight th"
proof -
  let ?A = "insert t (wt_weighted s)"
  have sub: "wt_weighted s' \<subseteq> ?A" using assms(2) by (auto simp: wt_weighted_def)
  show "finite (wt_weighted s')" using sub assms(1) finite_subset by blast
  have "wt_total s = (\<Sum>x \<in> ?A. weight (wsys_thread s x))"
    unfolding wt_total_def using assms(1) by (intro sum.mono_neutral_left) (auto simp: wt_weighted_def)
  moreover have "wt_total s' = (\<Sum>x \<in> ?A. weight (wsys_thread s' x))"
    unfolding wt_total_def using assms(1) sub by (intro sum.mono_neutral_left) (auto simp: wt_weighted_def)
  moreover have "(\<Sum>x \<in> ?A - {t}. weight (wsys_thread s' x)) = (\<Sum>x \<in> ?A - {t}. weight (wsys_thread s x))"
    using assms(2) by (intro sum.cong) auto
  ultimately show "wt_total s' + weight (wsys_thread s t) = wt_total s + weight th"
    using assms by (simp add: sum.remove [of ?A t])
qed

lemma wt_thread_ok_same: "wts_conf a = wts_conf b \<Longrightarrow> wts_authenticator a = wts_authenticator b \<Longrightarrow> wt_thread_ok a = wt_thread_ok b"
  by (simp add: wt_thread_ok_def wt_auth_result_def fun_eq_iff)

lemma wt_inv_thread_step:
  assumes inv: "wt_inv s" and "wt_thread_step s s'"
  shows "wt_inv s'"
proof -
  obtain t th c where th: "wsys_thread s' = (wsys_thread s)(t := th)" and c: "wsys_heap s' = (wsys_heap s)(t := c)"
    and ok: "wt_thread_ok (wsys_server s) th c"
    and count: "wts_connCount (wsys_server s') + of_nat (weight (wsys_thread s t)) = wts_connCount (wsys_server s) + of_nat (weight th)"
    and created: "wth_created (wsys_thread s t) \<noteq> None \<longrightarrow> wth_created th \<noteq> None"
    and conns: "snd ` set (wts_connections (wsys_server s')) \<subseteq>
      snd ` set (wts_connections (wsys_server s)) \<union> (if wth_created th \<noteq> None then {t} else {})"
    and same: "wt_same (wsys_server s) (wsys_server s')"
    using assms(2) unfolding wt_thread_step_def by blast
  note D = wt_invD [OF inv]
  have eq: "wt_thread_ok (wsys_server s') = wt_thread_ok (wsys_server s)"
    by (rule wt_thread_ok_same) (use same in \<open>simp_all add: wt_same_def\<close>)
  have "wt_thread_ok (wsys_server s') (wsys_thread s' x) (wsys_heap s' x)" for x
    using ok D(1) by (simp add: th c eq)
  moreover note total = wt_total_update [OF D(2) th]
  moreover have "(of_nat (wt_total s') :: int64) + of_nat (weight (wsys_thread s t)) = of_nat (wt_total s) + of_nat (weight th)"
    using total(2) by (metis of_nat_add)
  then have "wts_connCount (wsys_server s') = of_nat (wt_total s')"
    using count D(3) unfolding wt_total_def [symmetric] by (metis add_right_cancel)
  moreover have "\<forall>x \<in> snd ` set (wts_connections (wsys_server s')). wth_created (wsys_thread s' x) \<noteq> None"
    using conns created D(4) unfolding th by (fastforce split: if_splits)
  moreover have "wts_once (wsys_server s') = wts_done (wsys_server s')" using same D(5) by (auto simp: wt_same_def)
  ultimately show ?thesis unfolding wt_inv_def wt_total_def by blast
qed

text \<open>Closing all registered connections keeps the state of every connection object valid.\<close>

lemma close_all_object:
  assumes "\<And>r. r \<in> set rs \<Longrightarrow> wt_object_ok (ths r) (h r)"
  shows "\<exists>h'. close_all io rs h = Return h' \<and> (\<forall>r. wt_object_ok (ths r) (h r) \<longrightarrow> wt_object_ok (ths r) (h' r)) \<and>
    (\<forall>r. wtc_id (h' r) = wtc_id (h r))"
  using assms
proof (induction rs arbitrary: h)
  case Nil
  then show ?case by simp
next
  case (Cons r rs)
  have obj: "wt_object_ok (ths r) (h r)" using Cons.prems by simp
  then have "wt_conn_ok (h r)" by (simp add: wt_object_ok_def)
  then obtain c err where c: "wt_Close (io r) (h r) = Return (c, err)" "wtc_id c = wtc_id (h r)"
    by (cases "wtc_done (h r)") (auto simp: wt_Close_eq)
  have obj': "wt_object_ok (ths x) ((h(r := c)) x)" if "wt_object_ok (ths x) (h x)" for x
    using that wt_Close_object [OF c(1) obj] by simp
  obtain h' where h': "close_all io rs (h(r := c)) = Return h'"
    "\<And>x. wt_object_ok (ths x) ((h(r := c)) x) \<Longrightarrow> wt_object_ok (ths x) (h' x)" "\<And>x. wtc_id (h' x) = wtc_id ((h(r := c)) x)"
    using Cons.IH [of "h(r := c)"] Cons.prems obj' by (meson list.set_intros(2))
  have "wtc_id (h' x) = wtc_id (h x)" for x using h'(3) c(2) by simp
  then show ?case using c(1) h'(1,2) obj' by auto
qed

lemma wt_inv_stop:
  assumes inv: "wt_inv s" and "wt_other_stop io ord removable s = Return s'" and "order_ok ord"
  shows "wt_inv s'"
proof (cases "wts_once (wsys_server s)")
  case True
  then have "s' = s" using assms(2) by (simp add: wt_other_stop_def wt_Stop_def)
  then show ?thesis using inv by simp
next
  case False
  note D = wt_invD [OF inv]
  let ?rs = "map snd (ord 0 (wts_connections (wsys_server s)))"
  have "wt_object_ok (wsys_thread s r) (wsys_heap s r)" if "r \<in> set ?rs" for r
    using wt_object [OF inv] D(4) that order_ok_set [OF assms(3)] by auto
  then obtain h' where h': "close_all io ?rs (wsys_heap s) = Return h'"
    "\<And>r. wt_object_ok (wsys_thread s r) (wsys_heap s r) \<Longrightarrow> wt_object_ok (wsys_thread s r) (h' r)"
    using close_all_object [of ?rs "wsys_thread s" "wsys_heap s" io] by auto
  have srv: "wsys_thread s' = wsys_thread s" "wsys_heap s' = h'" "wts_connections (wsys_server s') = wts_connections (wsys_server s)"
    "wts_connCount (wsys_server s') = wts_connCount (wsys_server s)" "wts_once (wsys_server s')" "wts_done (wsys_server s')"
    "wts_authenticator (wsys_server s') = wts_authenticator (wsys_server s)"
    "wt_Auth (wts_conf (wsys_server s')) = wt_Auth (wts_conf (wsys_server s))"
    using assms(2) False D(5) h'(1) by (auto simp: wt_other_stop_def wt_Stop_def Let_def WtConf_Cleanup_def split: if_splits prod.splits)
  have auth: "wt_auth_result (wsys_server s') = wt_auth_result (wsys_server s)"
    using srv by (simp add: wt_auth_result_def fun_eq_iff)
  have "wt_thread_ok (wsys_server s') (wsys_thread s' t) (wsys_heap s' t)" for t
    using D(1) [of t] h'(2) [of t] unfolding wt_thread_ok_def srv(1,2) auth by blast
  then show ?thesis
    using D srv by (simp add: wt_inv_def wt_weighted_def)
qed

lemma wt_inv_exec:
  assumes "wt_inv s" and "wt_event_ok ev" and "wt_exec io ev s = Some (Return s')"
  shows "wt_inv s'"
  using wt_exec_step [OF assms(1,3)] wt_inv_thread_step [OF assms(1)] wt_inv_stop [OF assms(1)] assms(2) by auto

lemma wt_inv_initial: "wt_fresh_server srv \<Longrightarrow> wt_inv (wt_initial srv)"
  by (simp add: wt_inv_def wt_fresh_server_def wt_initial_def wt_idle_thread_def wt_thread_ok_def wt_weighted_def weight_def)

lemma wt_inv_reach:
  assumes "wt_reach io (wt_initial srv) s" and "wt_fresh_server srv"
  shows "wt_inv s"
  using assms by (induction rule: wt_reach.induct) (auto intro: wt_inv_initial wt_inv_exec)

text \<open>What the steps never change.\<close>

lemma wt_exec_setup:
  assumes "wt_inv s" and "wt_exec io ev s = Some (Return s')"
  shows "wts_authenticator (wsys_server s') = wts_authenticator (wsys_server s) \<and>
    wt_Auth (wts_conf (wsys_server s')) = wt_Auth (wts_conf (wsys_server s)) \<and>
    wt_MaxConnections (wts_conf (wsys_server s')) = wt_MaxConnections (wts_conf (wsys_server s)) \<and>
    wt_ReadBufferSize (wts_conf (wsys_server s')) = wt_ReadBufferSize (wts_conf (wsys_server s))"
  using wt_exec_step [OF assms]
  by (auto simp: wt_thread_step_def wt_same_def wt_other_stop_def wt_Stop_def WtConf_Cleanup_def Let_def split: if_splits prod.splits)

lemma wt_reach_setup:
  assumes "wt_reach io (wt_initial srv) s" and "wt_fresh_server srv"
  shows "wts_authenticator (wsys_server s) = wts_authenticator srv \<and>
    wt_Auth (wts_conf (wsys_server s)) = wt_Auth (wts_conf srv) \<and>
    wt_MaxConnections (wts_conf (wsys_server s)) = wt_MaxConnections (wts_conf srv) \<and>
    wt_ReadBufferSize (wts_conf (wsys_server s)) = wt_ReadBufferSize (wts_conf srv)"
  using assms
proof (induction rule: wt_reach.induct)
  case start
  then show ?case by (simp add: wt_initial_def)
next
  case (step s ev s')
  then show ?case using wt_exec_setup [OF wt_inv_reach [OF step.hyps(1) step.prems] step.hyps(3)] by simp
qed

text \<open>The total weight, by kinds of goroutines.\<close>

lemma wt_total_eq:
  assumes "finite (wt_weighted s)"
  shows "wt_total s = 2 * card {t. wt_active (wth_pc (wsys_thread s t))} +
    card {t. wth_pc (wsys_thread s t) = WtFinished \<and> wth_calls (wsys_thread s t) \<noteq> []}"
proof -
  let ?A = "{t. wt_active (wth_pc (wsys_thread s t))}"
  let ?F = "{t. wth_pc (wsys_thread s t) = WtFinished \<and> wth_calls (wsys_thread s t) \<noteq> []}"
  have split: "wt_weighted s = ?A \<union> ?F" by (auto simp: wt_weighted_def weight_def)
  have disj: "?A \<inter> ?F = {}" by auto
  have fin: "finite ?A" "finite ?F" using assms unfolding split by auto
  have "(\<Sum>t \<in> ?A. weight (wsys_thread s t)) = (\<Sum>t \<in> ?A. 2)" "(\<Sum>t \<in> ?F. weight (wsys_thread s t)) = (\<Sum>t \<in> ?F. 1)"
    by (auto simp: weight_def intro!: sum.cong)
  then show ?thesis using fin disj by (simp add: wt_total_def split sum.union_disjoint)
qed

section \<open>Panics\<close>

lemma wt_SetResponseStream_safe: "wt_conn_ok c \<Longrightarrow> wt_SetResponseStream (Some sid) c \<noteq> Panics"
  by (auto simp: wt_SetResponseStream_def wt_conn_ok_def Let_def)

lemma wt_Close_no_panic: "wt_conn_ok c \<Longrightarrow> wt_Close io c \<noteq> Panics"
  by (simp add: wt_Close_eq)

lemma wt_stop_no_panic:
  assumes "wt_inv s" and "order_ok ord"
  shows "wt_other_stop io ord removable s \<noteq> Panics"
proof -
  let ?rs = "map snd (ord 0 (wts_connections (wsys_server s)))"
  have "wt_object_ok (wsys_thread s r) (wsys_heap s r)" if "r \<in> set ?rs" for r
    using wt_object [OF assms(1)] wt_invD(4) [OF assms(1)] that order_ok_set [OF assms(2)] by auto
  then obtain h' where "close_all io ?rs (wsys_heap s) = Return h'"
    using close_all_object [of ?rs "wsys_thread s" "wsys_heap s" io] by auto
  then show ?thesis
    using wt_invD(5) [OF assms(1)] by (auto simp: wt_other_stop_def wt_Stop_def Let_def split: prod.splits)
qed

lemma wt_exec_no_panic:
  assumes inv: "wt_inv s" and ev: "wt_event_ok ev" and "0 \<le> sint (wt_ReadBufferSize (wts_conf (wsys_server s)))"
  shows "wt_exec io ev s \<noteq> Some Panics"
proof -
  have obj: "wt_conn_ok (wsys_heap s t)" if "wth_created (wsys_thread s t) \<noteq> None" for t
    using wt_object [OF inv that] by (simp add: wt_object_ok_def)
  have calls: "wt_conn_ok (wsys_heap s t)" if "wth_streams (wsys_thread s t) sid = Some p" for t sid p
    using obj wt_calls_created(1) [OF inv] wt_stream_calls [OF inv] that by blast
  have joined: "wt_conn_ok (wsys_heap s t)" if "wth_pc (wsys_thread s t) = WtJoined" for t
    using obj wt_invD(1) [OF inv, of t] that by (auto simp: wt_thread_ok_def)
  show ?thesis
  proof (cases ev)
    case (WtConnect t err)
    then show ?thesis using joined [of t]
      by (auto simp: wt_handle_connect_def wt_called_def wt_update_thread_def wt_Close_no_panic Let_def split: option.splits if_splits)
  next
    case (WtStreamStart t sid)
    then show ?thesis using calls [of t sid] assms(3)
      by (auto simp: handleStream_start_def wt_SetResponseStream_safe split: if_splits)
  next
    case (WtWriterWait t ch)
    then show ?thesis by (auto simp: wt_writePump_wait_def Let_def split: if_splits option.splits wt_write_case.splits)
  next
    case (WtWriterRound t now ch)
    then show ?thesis
      by (auto simp: wt_writePump_round_def Let_def split: if_splits option.splits wt_write_case.splits prod.splits)
  next
    case (WtSendBy t ch ctx msg)
    then show ?thesis by (auto simp: wt_other_send_def split: if_splits)
  next
    case (WtCloseBy t)
    then show ?thesis using obj [of t] by (auto simp: wt_other_close_def wt_Close_no_panic split: if_splits)
  next
    case (WtStopBy ord removable)
    then show ?thesis using wt_stop_no_panic [OF inv] ev by simp
  qed (auto split: if_splits)
qed

section \<open>A sample session\<close>

lemma wt_run_reach: "wt_run io evs s = Some s' \<Longrightarrow> wt_reach io s0 s \<Longrightarrow> wt_reach io s0 s'"
  by (induction evs arbitrary: s) (auto intro: wt_reach.step split: if_splits option.splits outcome.splits)

lemma fresh_wt_sample [simp]: "wt_fresh_server sample_wt_fresh"
  by (simp add: wt_fresh_server_def sample_wt_fresh_def sample_wt_server_def)

lemma sample_wt_reach:
  obtains s where "wt_reach (\<lambda>_ _ _. None) (wt_initial sample_wt_fresh) s" and "wth_pc (wsys_thread s 0) = WtFinished"
    and "wth_calls (wsys_thread s 0) \<noteq> []" and "\<And>t. t \<noteq> 0 \<Longrightarrow> wth_pc (wsys_thread s t) = WtIdle"
proof -
  have "\<exists>s. wt_run (\<lambda>_ _ _. None) sample_wt_session (wt_initial sample_wt_fresh) = Some s \<and>
      wth_pc (wsys_thread s 0) = WtFinished \<and> wth_calls (wsys_thread s 0) \<noteq> [] \<and> (\<forall>t. t \<noteq> 0 \<longrightarrow> wth_pc (wsys_thread s t) = WtIdle)"
    by (simp add: sample_wt_session_def wt_initial_def sample_wt_fresh_def sample_wt_server_def sample_WtConf_def empty_auth_def
        wt_idle_thread_def wt_handle_check_def wt_handle_upgrade_def wt_handle_auth_def wt_handle_register_def
        wt_handle_connect_def wt_handle_select_def wt_handle_accept_def wt_handle_return_def handleStream_start_def
        handleStream_select_def handleStream_read_def
        wt_writePump_wait_def wt_writePump_round_def wt_other_send_def wt_update_defs wt_registry_defs Let_def
        wt_NewConnection_def wt_SetResponseStream_def wt_UserID_def wt_call_def wt_Send_def send_ready_def go_select_def
        send_capacity_def ready_cases_def wt_ResponseStream_def)
  then show ?thesis using that wt_run_reach [OF _ wt_reach.start] by blast
qed

section \<open>Properties\<close>

text \<open>
  C14. The WebTransport connection count counts sessions that are over. In every reachable
  state it is twice the number of registered connections plus the number of sessions that were
  registered once and have returned: registering adds two and unregistering takes one away.
\<close>

theorem wt_count_leaks:
  assumes "wt_fresh_server srv" and "wt_reach io (wt_initial srv) s"
  shows "wt_ConnectionCount (wsys_server s) =
    of_nat (2 * card {t. wt_active (wth_pc (wsys_thread s t))} +
            card {t. wth_pc (wsys_thread s t) = WtFinished \<and> wth_calls (wsys_thread s t) \<noteq> []})"
proof -
  note inv = wt_inv_reach [OF assms(2,1)]
  show ?thesis
    unfolding wt_ConnectionCount_def wt_invD(3) [OF inv] wt_total_eq [OF wt_invD(2) [OF inv], unfolded wt_total_def] ..
qed

lemma wt_count_leaks_witness:
  "\<exists>s. wt_reach (\<lambda>_ _ _. None) (wt_initial sample_wt_fresh) s \<and> wth_pc (wsys_thread s 0) = WtFinished \<and>
     wt_ConnectionCount (wsys_server s) =
       of_nat (2 * card {t. wt_active (wth_pc (wsys_thread s t))} +
               card {t. wth_pc (wsys_thread s t) = WtFinished \<and> wth_calls (wsys_thread s t) \<noteq> []})"
proof -
  obtain s where s: "wt_reach (\<lambda>_ _ _. None) (wt_initial sample_wt_fresh) s" "wth_pc (wsys_thread s 0) = WtFinished"
    by (rule sample_wt_reach)
  then show ?thesis using wt_count_leaks [OF fresh_wt_sample s(1)] by blast
qed

text \<open>
  C15. After as many sessions as the limit allows, the server is closed to everybody. Once the
  number of sessions that have returned, plus twice the registered ones, has reached the limit,
  every new request is answered with 503, although no connection may be left.
\<close>

theorem wt_refuses_after_limit:
  assumes "wt_fresh_server srv" and "wt_reach io (wt_initial srv) s"
    and "n = 2 * card {t. wt_active (wth_pc (wsys_thread s t))} +
            card {t. wth_pc (wsys_thread s t) = WtFinished \<and> wth_calls (wsys_thread s t) \<noteq> []}"
    and "0 < sint (wt_MaxConnections (wts_conf srv))" and "sint (wt_MaxConnections (wts_conf srv)) \<le> int n" and "n < 2 ^ 63"
    and "wth_pc (wsys_thread s t) = WtIdle"
  shows "\<exists>s'. wt_exec io (WtArrive t r) s = Some (Return s') \<and> wth_pc (wsys_thread s' t) = WtFinished \<and>
    wth_status (wsys_thread s' t) = Some 503"
proof -
  note inv = wt_inv_reach [OF assms(2,1)]
  have "wts_connCount (wsys_server s) = of_nat n"
    unfolding wt_invD(3) [OF inv] wt_total_eq [OF wt_invD(2) [OF inv], unfolded wt_total_def] assms(3) ..
  then have "sint (wts_connCount (wsys_server s)) = int n" using assms(6) by (simp add: sint_of_nat64)
  then show ?thesis
    using assms(4,5,7) wt_reach_setup [OF assms(2,1)]
    by (simp add: wt_handle_check_def wt_update_defs Let_def)
qed

lemma wt_refuses_after_limit_witness:
  "\<exists>s. wt_reach (\<lambda>_ _ _. None) (wt_initial sample_wt_fresh) s \<and>
     (\<exists>s'. wt_exec (\<lambda>_ _ _. None) (WtArrive 1 (wth_request wt_idle_thread)) s = Some (Return s') \<and>
        wth_status (wsys_thread s' 1) = Some 503)"
proof -
  obtain s where s: "wt_reach (\<lambda>_ _ _. None) (wt_initial sample_wt_fresh) s" "wth_pc (wsys_thread s 0) = WtFinished"
    "wth_calls (wsys_thread s 0) \<noteq> []" "\<And>t. t \<noteq> 0 \<Longrightarrow> wth_pc (wsys_thread s t) = WtIdle"
    using sample_wt_reach by metis
  have "{t. wt_active (wth_pc (wsys_thread s t))} = {}"
  proof -
    have "\<not> wt_active (wth_pc (wsys_thread s t))" for t using s(2,4) by (cases "t = 0") simp_all
    then show ?thesis by simp
  qed
  moreover have "{t. wth_pc (wsys_thread s t) = WtFinished \<and> wth_calls (wsys_thread s t) \<noteq> []} = {0}"
  proof -
    have "wth_pc (wsys_thread s t) = WtFinished \<and> wth_calls (wsys_thread s t) \<noteq> [] \<longleftrightarrow> t = 0" for t
      using s(2-4) by (cases "t = 0") simp_all
    then show ?thesis by simp
  qed
  moreover have "wt_MaxConnections (wts_conf sample_wt_fresh) = 1" by (simp add: sample_wt_fresh_def)
  ultimately show ?thesis
    using wt_refuses_after_limit [OF fresh_wt_sample s(1) refl, of 1 "wth_request wt_idle_thread"] s(1,4) by auto
qed

text \<open>
  C17. The WebTransport handler is never told that a connection is gone. The calls made for
  a session are OnConnect and then OnMessage only, in every reachable state; OnDisconnect is
  never called. With authentication enabled, they are made only for requests that the
  authenticator has accepted.
\<close>

theorem wt_callbacks:
  assumes "wt_fresh_server srv" and "wt_reach io (wt_initial srv) s"
  shows "(wth_calls (wsys_thread s t) = [] \<or> (\<exists>e msgs. wth_calls (wsys_thread s t) = OnConnect e # map OnMessage msgs)) \<and>
    (\<forall>e. OnDisconnect e \<notin> set (wth_calls (wsys_thread s t))) \<and>
    (auth_Enabled (wt_Auth (wts_conf srv)) \<longrightarrow> wth_calls (wsys_thread s t) \<noteq> [] \<longrightarrow>
       (\<exists>u. wts_authenticator srv
          \<lparr>ar_Protocol = ProtocolWebTransport, ar_HTTPRequest = Some (wth_request (wsys_thread s t)), ar_FirstMessage = []\<rparr> = Inr u))"
proof -
  note ok = wt_invD(1) [OF wt_inv_reach [OF assms(2,1)], of t]
  have calls: "wth_calls (wsys_thread s t) = [] \<or> (\<exists>e msgs. wth_calls (wsys_thread s t) = OnConnect e # map OnMessage msgs)"
    and auth: "wth_calls (wsys_thread s t) \<noteq> [] \<longrightarrow> (\<exists>u. wt_auth_result (wsys_server s) (wsys_thread s t) = Inr u)"
    using ok unfolding wt_thread_ok_def by blast+
  from calls have "\<forall>e. OnDisconnect e \<notin> set (wth_calls (wsys_thread s t))" by auto
  with calls show ?thesis using auth wt_reach_setup [OF assms(2,1)] by (auto simp: wt_auth_result_def)
qed

lemma wt_callbacks_witness:
  "\<exists>s. wt_reach (\<lambda>_ _ _. None) (wt_initial sample_wt_fresh) s \<and> wth_pc (wsys_thread s 0) = WtFinished \<and>
     (\<forall>e. OnDisconnect e \<notin> set (wth_calls (wsys_thread s 0)))"
proof -
  obtain s where s: "wt_reach (\<lambda>_ _ _. None) (wt_initial sample_wt_fresh) s" "wth_pc (wsys_thread s 0) = WtFinished"
    by (rule sample_wt_reach)
  then show ?thesis using wt_callbacks [OF fresh_wt_sample s(1), of 0] by blast
qed




end
