(* ===== verification/Wt_Maps.thy ===== *)
theory Wt_Maps
  imports Wt_Session
begin

text \<open>
  The maps of the WebTransport server over its interleaved sessions. The count of that server
  leaks (\<open>Wt_Session\<close>), but its maps do not: they hold exactly the live connections. The proof looks
  at a session through its stage, the ID and the user ID of its connection; most steps of a
  session leave this view of every session unchanged.
\<close>

section \<open>Definitions\<close>

text \<open>Runs in which no two connections are created in the same nanosecond.\<close>

fun creation_ok :: "wt_event \<Rightarrow> wt_system \<Rightarrow> bool" where
  "creation_ok (WtUpgrade t err now) s = (\<forall>t'. wth_created (wsys_thread s t') \<noteq> Some now)"
| "creation_ok ev s = True"

inductive wt_timed_reach :: "(wt_ref \<Rightarrow> wt_io) \<Rightarrow> wt_system \<Rightarrow> wt_system \<Rightarrow> bool" for io s0 where
  start: "wt_timed_reach io s0 s0"
| step: "wt_timed_reach io s0 s \<Longrightarrow> wt_event_ok ev \<Longrightarrow> creation_ok ev s \<Longrightarrow> wt_exec io ev s = Some (Return s') \<Longrightarrow>
    wt_timed_reach io s0 s'"

datatype wt_stage = Outside | Upgraded | Bound | Registered

fun stage_of :: "wt_pc \<Rightarrow> wt_stage" where
  "stage_of WtUpgraded = Upgraded"
| "stage_of WtAdmitted = Bound"
| "stage_of WtJoined = Registered"
| "stage_of WtServing = Registered"
| "stage_of WtAccepting = Registered"
| "stage_of WtLeaving = Registered"
| "stage_of _ = Outside"

text \<open>The view of a session: the time of creation, the stage, and for a session that is not
  outside the result of authentication, the ID and the user ID.\<close>

type_synonym wt_view = "int64 option \<times> wt_stage \<times> ((go_error + string) \<times> string \<times> string) option"

definition session_view :: "wt_system \<Rightarrow> wt_ref \<Rightarrow> wt_view" where
  "session_view s t =
     (wth_created (wsys_thread s t), stage_of (wth_pc (wsys_thread s t)),
      if stage_of (wth_pc (wsys_thread s t)) = Outside then None
      else Some (wt_auth_result (wsys_server s) (wsys_thread s t), wtc_id (wsys_heap s t), wt_UserID (wsys_heap s t)))"

text \<open>What the maps should be for given views.\<close>

definition views_ok :: "(wt_ref \<Rightarrow> wt_view) \<Rightarrow> bool" where
  "views_ok v \<longleftrightarrow>
     (\<forall>t created st auth cid uid. v t = (created, st, Some (auth, cid, uid)) \<longrightarrow>
        (\<exists>now. created = Some now \<and> cid = wt_generateConnID now) \<and>
        (st = Upgraded \<longrightarrow> uid = []) \<and> (st \<in> {Bound, Registered} \<longrightarrow> auth = Inr uid)) \<and>
     (\<forall>t t' now. fst (v t) = Some now \<longrightarrow> fst (v t') = Some now \<longrightarrow> t' = t)"

definition registered_as :: "wt_view \<Rightarrow> string \<Rightarrow> bool" where
  "registered_as x k \<longleftrightarrow> (\<exists>created auth uid. x = (created, Registered, Some (auth, k, uid)))"

definition bound_as :: "wt_view \<Rightarrow> string \<Rightarrow> string \<Rightarrow> bool" where
  "bound_as x u k \<longleftrightarrow> u \<noteq> [] \<and> (\<exists>created st auth. st \<in> {Bound, Registered} \<and> x = (created, st, Some (auth, k, u)))"

definition maps_of_views :: "wt_server \<Rightarrow> (wt_ref \<Rightarrow> wt_view) \<Rightarrow> bool" where
  "maps_of_views srv v \<longleftrightarrow>
     wt_maps_ok srv \<and>
     (\<forall>k t. map_of (wts_connections srv) k = Some t \<longleftrightarrow> registered_as (v t) k) \<and>
     (\<forall>u k t. user_view (wts_userConns srv) u k = Some t \<longleftrightarrow> bound_as (v t) u k)"

definition wt_exact :: "wt_system \<Rightarrow> bool" where
  "wt_exact s \<longleftrightarrow> views_ok (session_view s) \<and> maps_of_views (wsys_server s) (session_view s)"

text \<open>Operations on a connection object that keep its ID and its user.\<close>

definition same_ids :: "wt_connection \<Rightarrow> wt_connection \<Rightarrow> bool" where
  "same_ids c c' \<longleftrightarrow> wtc_id c' = wtc_id c \<and> wt_UserID c' = wt_UserID c"

text \<open>A run given by its events; the first half of a session of the user ``bob''.\<close>

fun timed_run :: "(wt_ref \<Rightarrow> wt_io) \<Rightarrow> wt_event list \<Rightarrow> wt_system \<Rightarrow> wt_system option" where
  "timed_run io [] s = Some s"
| "timed_run io (ev # evs) s =
     (if wt_event_ok ev \<and> creation_ok ev s
      then (case wt_exec io ev s of Some (Return s') \<Rightarrow> timed_run io evs s' | _ \<Rightarrow> None) else None)"

definition bob_server :: wt_server where
  "bob_server = sample_wt_fresh\<lparr>wts_authenticator := (\<lambda>_. Inr ''bob''), wts_conf := sample_WtConf\<lparr>wt_Auth := empty_auth\<lparr>auth_Enabled := True\<rparr>\<rparr>\<rparr>"

definition bob_joins :: "wt_event list" where
  "bob_joins = [WtArrive 0 \<lparr>req_Header = [], req_Query = [], req_Cookies = [], req_Host = []\<rparr>, WtUpgrade 0 None 7,
     WtAuthenticate 0, WtRegister 0, WtConnect 0 None]"

section \<open>Lemmas\<close>

lemma timed_run_reach: "timed_run io evs s = Some s' \<Longrightarrow> wt_timed_reach io s0 s \<Longrightarrow> wt_timed_reach io s0 s'"
  by (induction evs arbitrary: s) (auto intro: wt_timed_reach.step split: if_splits option.splits outcome.splits)

lemma wt_timed_reach_reach: "wt_timed_reach io s0 s \<Longrightarrow> wt_reach io s0 s"
  by (induction rule: wt_timed_reach.induct) (auto intro: wt_reach.intros)

lemma session_view_Outside: "stage_of (wth_pc (wsys_thread s t)) = Outside \<Longrightarrow> session_view s t = (wth_created (wsys_thread s t), Outside, None)"
  by (simp add: session_view_def)

lemma same_ids_ops:
  "same_ids c c" "same_ids c (fst (wt_call io x c))"
  "wt_Close io c = Return (c', e) \<Longrightarrow> same_ids c c'"
  "wt_SetResponseStream st c = Return c' \<Longrightarrow> same_ids c c'"
  "wt_Send ch ctx msg c = Return (c', err) \<Longrightarrow> same_ids c c'"
  by (auto simp: same_ids_def wt_UserID_def wt_call_def wt_Close_def wt_SetResponseStream_def Let_def
      split: if_splits elim!: wt_Send_ReturnE)

lemma close_all_ids: "close_all io rs h = Return h' \<Longrightarrow> same_ids (h r) (h' r)"
proof (induction rs arbitrary: h)
  case (Cons r0 rs)
  then obtain c e where c: "wt_Close (io r0) (h r0) = Return (c, e)" and l: "close_all io rs (h(r0 := c)) = Return h'"
    by auto
  show ?case using Cons.IH [OF l] same_ids_ops(3) [OF c] by (cases "r = r0") (auto simp: same_ids_def)
qed (simp add: same_ids_def)

text \<open>A step that no view shows.\<close>

lemma wt_exact_quiet:
  assumes "wt_exact s" and "session_view s' = session_view s"
    and "wts_connections (wsys_server s') = wts_connections (wsys_server s)"
    and "wts_userConns (wsys_server s') = wts_userConns (wsys_server s)"
  shows "wt_exact s'"
  using assms by (simp add: wt_exact_def maps_of_views_def wt_maps_ok_def)

lemma view_eqI:
  assumes "wth_created (wsys_thread s' t) = wth_created (wsys_thread s t)"
    and "stage_of (wth_pc (wsys_thread s' t)) = stage_of (wth_pc (wsys_thread s t))"
    and "wth_request (wsys_thread s' t) = wth_request (wsys_thread s t) \<or> stage_of (wth_pc (wsys_thread s t)) = Outside"
    and "same_ids (wsys_heap s t) (wsys_heap s' t)"
    and "wt_Auth (wts_conf (wsys_server s')) = wt_Auth (wts_conf (wsys_server s))"
    and "wts_authenticator (wsys_server s') = wts_authenticator (wsys_server s)"
  shows "session_view s' t = session_view s t"
  using assms by (auto simp: session_view_def same_ids_def wt_auth_result_def)

lemma wt_exact_local:
  assumes "wt_exact s" and "wsys_server s' = wsys_server s" and "wsys_thread s' = (wsys_thread s)(t := th)"
    and "wsys_heap s' = (wsys_heap s)(t := c)" and "wth_created th = wth_created (wsys_thread s t)"
    and "stage_of (wth_pc th) = stage_of (wth_pc (wsys_thread s t))"
    and "wth_request th = wth_request (wsys_thread s t) \<or> stage_of (wth_pc (wsys_thread s t)) = Outside"
    and "same_ids (wsys_heap s t) c"
  shows "wt_exact s'"
proof (rule wt_exact_quiet [OF assms(1)])
  show "session_view s' = session_view s"
  proof
    fix x show "session_view s' x = session_view s x"
      using assms(2-8) same_ids_ops(1) by (cases "x = t") (auto intro!: view_eqI)
  qed
qed (simp_all add: assms(2))

text \<open>The steps that change one view.\<close>

lemma views_ok_update:
  assumes "views_ok v" and "fst x = fst (v t) \<or> (\<forall>t'. fst x \<noteq> fst (v t'))"
    and "\<And>created st auth cid uid. x = (created, st, Some (auth, cid, uid)) \<Longrightarrow>
        (\<exists>now. created = Some now \<and> cid = wt_generateConnID now) \<and>
        (st = Upgraded \<longrightarrow> uid = []) \<and> (st \<in> {Bound, Registered} \<longrightarrow> auth = Inr uid)"
  shows "views_ok (v(t := x))"
proof -
  have "t2 = t1" if "fst ((v(t := x)) t1) = Some now" "fst ((v(t := x)) t2) = Some now" for t1 t2 now
    using assms(1,2) that unfolding views_ok_def by (metis fun_upd_apply)
  then show ?thesis using assms(1,3) unfolding views_ok_def by (auto split: if_splits)
qed

text \<open>Sessions with the same ID are the same.\<close>

lemma views_ids:
  assumes "views_ok v" and "v t = (c1, st1, Some (a1, k, u1))" and "v t' = (c2, st2, Some (a2, k, u2))"
  shows "t' = t"
proof -
  obtain a b where "c1 = Some a" "k = wt_generateConnID a" "c2 = Some b" "k = wt_generateConnID b"
    using assms unfolding views_ok_def by metis
  then have "fst (v t) = Some a" "fst (v t') = Some a"
    using assms(2,3) by (auto simp: wt_generateConnID_inject)
  then show ?thesis using assms(1) unfolding views_ok_def by blast
qed

lemma maps_unaffected:
  assumes "maps_of_views srv v" and "registered_as (v t) = registered_as x" and "bound_as (v t) = bound_as x"
  shows "maps_of_views srv (v(t := x))"
  using assms unfolding maps_of_views_def by simp

lemma view_simps [simp]:
  "registered_as (cr, st, None) k = False" "bound_as (cr, st, None) u k = False"
  "registered_as (cr, st, Some (a, k', u')) k \<longleftrightarrow> st = Registered \<and> k' = k"
  "bound_as (cr, st, Some (a, k', u')) u k \<longleftrightarrow> u \<noteq> [] \<and> st \<in> {Bound, Registered} \<and> k' = k \<and> u' = u"
  by (auto simp: registered_as_def bound_as_def)

lemma maps_of_viewsD:
  assumes "maps_of_views srv v"
  shows "wt_maps_ok srv" "map_of (wts_connections srv) k = Some t \<longleftrightarrow> registered_as (v t) k"
    "user_view (wts_userConns srv) u k = Some t \<longleftrightarrow> bound_as (v t) u k"
  using assms by (simp_all add: maps_of_views_def)

lemma views_unique:
  assumes "views_ok v" and "v t = (cr, st, Some (a, k, u))"
  shows "registered_as (v x) k \<Longrightarrow> x = t" and "bound_as (v x) u' k \<Longrightarrow> x = t"
  using views_ids [OF assms] by (auto simp: registered_as_def bound_as_def)

lemma maps_bind:
  assumes "maps_of_views srv v" and "views_ok v" and "v t = (cr, Upgraded, Some (a, k, []))" and "u \<noteq> []"
  shows "maps_of_views (srv\<lparr>wts_userConns := bind_in u k t (wts_userConns srv)\<rparr>) (v(t := (cr, Bound, Some (a, k, u))))"
    (is "maps_of_views ?srv ?v")
proof -
  note D = maps_of_viewsD [OF assms(1)] and U = views_unique [OF assms(2,3)]
  have none: "\<not> registered_as (v t) k'" "\<not> bound_as (v t) u' k'" for k' u' by (simp_all add: assms(3))
  have "map_of (wts_connections ?srv) k' = Some x \<longleftrightarrow> registered_as (?v x) k'" for k' x
    using D(2) none(1) by (cases "x = t") simp_all
  moreover have "user_view (wts_userConns ?srv) u' k' = Some x \<longleftrightarrow> bound_as (?v x) u' k'" for u' k' x
    using D(3) [of u' k' x] none(2) U(2) [of x u'] assms(4) by (cases "x = t") auto
  moreover have "wt_maps_ok ?srv" using D(1) by (simp add: wt_maps_ok_def)
  ultimately show ?thesis unfolding maps_of_views_def by blast
qed

lemma maps_register:
  assumes "maps_of_views srv v" and "views_ok v" and "v t = (cr, Bound, Some (a, k, u))"
  shows "maps_of_views (srv\<lparr>wts_connections := mapassign k t (wts_connections srv), wts_connCount := n\<rparr>)
    (v(t := (cr, Registered, Some (a, k, u))))"
    (is "maps_of_views ?srv ?v")
proof -
  note D = maps_of_viewsD [OF assms(1)] and U = views_unique [OF assms(2,3)]
  have none: "\<not> registered_as (v t) k'" for k' by (simp add: assms(3))
  have same: "bound_as (cr, Registered, Some (a, k, u)) = bound_as (v t)" by (simp add: assms(3) fun_eq_iff)
  have "map_of (wts_connections ?srv) k' = Some x \<longleftrightarrow> registered_as (?v x) k'" for k' x
    using D(2) [of k' x] none U(1) [of x] by (cases "x = t") auto
  moreover have "user_view (wts_userConns ?srv) u' k' = Some x \<longleftrightarrow> bound_as (?v x) u' k'" for u' k' x
    using D(3) [of u' k' x] same by (cases "x = t") (simp_all del: view_simps)
  moreover have "wt_maps_ok ?srv" using D(1) by (simp add: wt_maps_ok_def)
  ultimately show ?thesis unfolding maps_of_views_def by blast
qed

lemma maps_unregister:
  assumes "maps_of_views srv v" and "views_ok v" and "v t = (cr, Registered, Some (a, k, u))"
  shows "maps_of_views (srv\<lparr>wts_connections := mapdelete k (wts_connections srv),
      wts_userConns := (if u = [] then wts_userConns srv else unbind_in u k (wts_userConns srv)), wts_connCount := n\<rparr>)
    (v(t := (cr, Outside, None)))"
    (is "maps_of_views ?srv ?v")
proof -
  note D = maps_of_viewsD [OF assms(1)] and U = views_unique [OF assms(2,3)]
  have own: "registered_as (v t) k' \<longleftrightarrow> k' = k" "bound_as (v t) u' k' \<longleftrightarrow> u' \<noteq> [] \<and> u' = u \<and> k' = k" for k' u'
    by (auto simp: assms(3))
  have "map_of (wts_connections ?srv) k' = Some x \<longleftrightarrow> registered_as (?v x) k'" for k' x
  proof (cases "x = t")
    case True
    then show ?thesis using D(2) [of k' t] own(1) [of k'] by simp
  next
    case False
    then have "\<not> registered_as (v x) k" using U(1) by blast
    then show ?thesis using False D(2) [of k' x] by (cases "k' = k") simp_all
  qed
  moreover have "user_view (wts_userConns ?srv) u' k' = Some x \<longleftrightarrow> bound_as (?v x) u' k'" for u' k' x
  proof (cases "x = t")
    case True
    then show ?thesis using D(3) [of u' k' t] own(2) [of u' k'] by (cases "u = []"; cases "u' = u") simp_all
  next
    case False
    then have "\<not> bound_as (v x) u' k" using U(2) by blast
    then show ?thesis using False D(3) [of u' k' x] by (cases "k' = k"; cases "u' = u"; cases "u = []") simp_all
  qed
  moreover have "wt_maps_ok ?srv" using D(1) by (simp add: wt_maps_ok_def)
  ultimately show ?thesis unfolding maps_of_views_def by blast
qed

lemma view_update:
  assumes "wsys_thread s' = (wsys_thread s)(t := th)" and "wsys_heap s' = (wsys_heap s)(t := c)"
    and "wts_conf (wsys_server s') = wts_conf (wsys_server s)" and "wts_authenticator (wsys_server s') = wts_authenticator (wsys_server s)"
  shows "session_view s' = (session_view s)(t := session_view s' t)"
  using assms by (auto simp: session_view_def wt_auth_result_def fun_eq_iff)

lemma wt_exact_step:
  assumes "wt_exact s" and "session_view s' = (session_view s)(t := x)"
    and "fst x = fst (session_view s t) \<or> (\<forall>t'. fst x \<noteq> fst (session_view s t'))"
    and "\<And>created st auth cid uid. x = (created, st, Some (auth, cid, uid)) \<Longrightarrow>
        (\<exists>now. created = Some now \<and> cid = wt_generateConnID now) \<and>
        (st = Upgraded \<longrightarrow> uid = []) \<and> (st \<in> {Bound, Registered} \<longrightarrow> auth = Inr uid)"
    and "maps_of_views (wsys_server s) (session_view s) \<Longrightarrow> views_ok (session_view s) \<Longrightarrow>
      maps_of_views (wsys_server s') ((session_view s)(t := x))"
  shows "wt_exact s'"
  using assms(1,2,5) views_ok_update [OF _ assms(3,4)] by (simp add: wt_exact_def)

lemma exact_upgrade:
  assumes "wt_exact s" and "wt_inv s" and "wth_pc (wsys_thread s t) = WtChecked" and "creation_ok (WtUpgrade t err now) s"
  shows "wt_exact (wt_handle_upgrade t err now s)"
proof (cases err)
  case (Some e)
  show ?thesis
    by (rule wt_exact_local [OF assms(1), where t = t and th = "(wsys_thread s t)\<lparr>wth_pc := WtFinished\<rparr>" and c = "wsys_heap s t"])
      (use Some assms(3) in \<open>simp_all add: wt_handle_upgrade_def wt_update_defs same_ids_ops\<close>)
next
  case None
  let ?s = "wt_handle_upgrade t err now s"
  let ?x = "(Some now, Upgraded, Some (wt_auth_result (wsys_server s) (wsys_thread s t), wt_generateConnID now, []))"
  have v: "session_view ?s = (session_view s)(t := ?x)"
    by (rule ext) (use None in \<open>simp add: session_view_def wt_handle_upgrade_def wt_update_defs wt_NewConnection_def wt_UserID_def wt_auth_result_def Let_def\<close>)
  have old: "session_view s t = (wth_created (wsys_thread s t), Outside, None)" using assms(3) by (simp add: session_view_Outside)
  show ?thesis
  proof (rule wt_exact_step [OF assms(1) v])
    show "fst ?x = fst (session_view s t) \<or> (\<forall>t'. fst ?x \<noteq> fst (session_view s t'))"
      using assms(4) by (auto simp: session_view_def eq_commute)
    show "maps_of_views (wsys_server ?s) ((session_view s)(t := ?x))" if "maps_of_views (wsys_server s) (session_view s)"
      using maps_unaffected [OF that] old None by (simp add: fun_eq_iff wt_handle_upgrade_def wt_update_defs Let_def)
  qed auto
qed

lemma exact_register:
  assumes "wt_exact s" and "wth_pc (wsys_thread s t) = WtAdmitted"
  shows "wt_exact (wt_handle_register t s)"
proof -
  let ?s = "wt_handle_register t s"
  let ?a = "wt_auth_result (wsys_server s) (wsys_thread s t)" and ?k = "wtc_id (wsys_heap s t)" and ?u = "wt_UserID (wsys_heap s t)"
  let ?x = "(wth_created (wsys_thread s t), Registered, Some (?a, ?k, ?u))"
  have v: "session_view ?s = (session_view s)(t := ?x)"
    by (rule ext) (simp add: session_view_def wt_handle_register_def wt_update_defs wt_registerConnection_def wt_auth_result_def Let_def)
  have old: "session_view s t = (wth_created (wsys_thread s t), Bound, Some (?a, ?k, ?u))" using assms(2) by (simp add: session_view_def)
  show ?thesis
  proof (rule wt_exact_step [OF assms(1) v])
    show "maps_of_views (wsys_server ?s) ((session_view s)(t := ?x))"
      if "maps_of_views (wsys_server s) (session_view s)" "views_ok (session_view s)"
      using maps_register [OF that old] by (simp add: wt_handle_register_def wt_update_defs wt_registerConnection_def Let_def)
  qed (use assms(1) old in \<open>auto simp: wt_exact_def views_ok_def\<close>)
qed

lemma exact_return:
  assumes "wt_exact s" and "wth_pc (wsys_thread s t) = WtLeaving"
  shows "wt_exact (wt_handle_return t s)"
proof -
  let ?s = "wt_handle_return t s"
  let ?a = "wt_auth_result (wsys_server s) (wsys_thread s t)" and ?k = "wtc_id (wsys_heap s t)" and ?u = "wt_UserID (wsys_heap s t)"
  let ?x = "(wth_created (wsys_thread s t), Outside, None)"
  have v: "session_view ?s = (session_view s)(t := ?x)"
    by (rule ext) (simp add: session_view_def wt_handle_return_def wt_update_defs wt_unregisterConnection_def wt_auth_result_def Let_def)
  have old: "session_view s t = (wth_created (wsys_thread s t), Registered, Some (?a, ?k, ?u))" using assms(2) by (simp add: session_view_def)
  show ?thesis
  proof (rule wt_exact_step [OF assms(1) v])
    show "maps_of_views (wsys_server ?s) ((session_view s)(t := ?x))"
      if "maps_of_views (wsys_server s) (session_view s)" "views_ok (session_view s)"
      using maps_unregister [OF that old, of "wts_connCount (wsys_server s) - 1"]
      by (cases "?u = []") (simp_all add: wt_handle_return_def wt_update_defs wt_unregisterConnection_def Let_def)
  qed (use old in auto)
qed

lemma exact_auth:
  assumes "wt_exact s" and "wth_pc (wsys_thread s t) = WtUpgraded"
  shows "wt_exact (wt_handle_auth io t s)"
proof -
  let ?s = "wt_handle_auth io t s"
  let ?a = "wt_auth_result (wsys_server s) (wsys_thread s t)" and ?k = "wtc_id (wsys_heap s t)" and ?cr = "wth_created (wsys_thread s t)"
  have "session_view s t = (?cr, Upgraded, Some (?a, ?k, wt_UserID (wsys_heap s t)))" using assms(2) by (simp add: session_view_def)
  moreover have user: "wt_UserID (wsys_heap s t) = []"
    using assms(1) calculation unfolding wt_exact_def views_ok_def by blast
  ultimately have old: "session_view s t = (?cr, Upgraded, Some (?a, ?k, []))" by simp
  have created: "\<exists>now. ?cr = Some now \<and> ?k = wt_generateConnID now"
    using assms(1) old unfolding wt_exact_def views_ok_def by blast
  define x where "x = (case ?a of Inl e \<Rightarrow> (?cr, Outside, None) | Inr u \<Rightarrow> (?cr, Bound, Some (?a, ?k, u)))"
  have v: "session_view ?s = (session_view s)(t := x)"
    by (rule ext) (use user in \<open>auto simp: x_def session_view_def wt_handle_auth_def wt_auth_result_def wt_update_defs wt_BindUser_def Let_def
        split: sum.split\<close>)
  show ?thesis
  proof (rule wt_exact_step [OF assms(1) v])
    show "fst x = fst (session_view s t) \<or> (\<forall>t'. fst x \<noteq> fst (session_view s t'))" using old by (simp add: x_def split: sum.split)
    show "(\<exists>now. created = Some now \<and> cid = wt_generateConnID now) \<and> (st = Upgraded \<longrightarrow> uid = []) \<and> (st \<in> {Bound, Registered} \<longrightarrow> auth = Inr uid)"
      if "x = (created, st, Some (auth, cid, uid))" for created st auth cid uid
      using that created by (simp add: x_def split: sum.splits) (metis)
    assume m: "maps_of_views (wsys_server s) (session_view s)" and ok: "views_ok (session_view s)"
    show "maps_of_views (wsys_server ?s) ((session_view s)(t := x))"
    proof (cases ?a)
      case (Inl e)
      then have "wsys_server ?s = wsys_server s"
        by (auto simp: wt_handle_auth_def wt_auth_result_def wt_update_defs Let_def split: if_splits)
      then show ?thesis using maps_unaffected [OF m, of t x] old Inl by (simp add: x_def fun_eq_iff)
    next
      case (Inr u)
      have srv: "wsys_server ?s = (if u = [] then wsys_server s
          else (wsys_server s)\<lparr>wts_userConns := bind_in u ?k t (wts_userConns (wsys_server s))\<rparr>)"
        using Inr by (auto simp: wt_handle_auth_def wt_auth_result_def wt_update_defs wt_BindUser_def Let_def split: if_splits)
      show ?thesis
      proof (cases "u = []")
        case True
        then have "registered_as (session_view s t) = registered_as x" "bound_as (session_view s t) = bound_as x"
          using old Inr by (auto simp: x_def fun_eq_iff)
        then show ?thesis using maps_unaffected [OF m] True srv by simp
      next
        case False
        then show ?thesis using maps_bind [OF m ok old False] Inr srv by (simp add: x_def)
      qed
    qed
  qed
qed

text \<open>The other steps are not visible.\<close>

lemma exact_stop:
  assumes "wt_exact s" and "wt_other_stop io ord removable s = Return s'"
  shows "wt_exact s'"
proof -
  obtain srv h fs where stop: "wt_Stop io ord removable (wsys_server s, wsys_heap s, wsys_files s) = Return (srv, h, fs)"
    and s': "s' = s\<lparr>wsys_server := srv, wsys_heap := h, wsys_files := fs\<rparr>"
    using assms(2) by (auto simp: wt_other_stop_def)
  have ids: "same_ids (wsys_heap s r) (h r)" for r
    using stop by (auto simp: wt_Stop_def WtConf_Cleanup_def Let_def same_ids_ops intro: close_all_ids split: if_splits)
  have srv: "wt_Auth (wts_conf srv) = wt_Auth (wts_conf (wsys_server s))" "wts_authenticator srv = wts_authenticator (wsys_server s)"
    "wts_connections srv = wts_connections (wsys_server s)" "wts_userConns srv = wts_userConns (wsys_server s)"
    using stop by (auto simp: wt_Stop_def WtConf_Cleanup_def Let_def split: if_splits)
  show ?thesis
    by (rule wt_exact_quiet [OF assms(1)]) (use ids srv in \<open>auto simp: s' intro!: ext view_eqI\<close>)
qed

lemma exact_exec:
  assumes "wt_exact s" and "wt_inv s" and "creation_ok ev s" and "wt_exec io ev s = Some (Return s')"
  shows "wt_exact s'"
proof (cases ev)
  case (WtArrive t r)
  then have s': "s' = wt_handle_check t r s" and pc: "wth_pc (wsys_thread s t) = WtIdle" using assms(4) by (auto split: if_splits)
  show ?thesis
    by (rule wt_exact_local [OF assms(1), where t = t and th = "wsys_thread s' t" and c = "wsys_heap s t"])
      (use pc in \<open>auto simp: s' wt_handle_check_def wt_update_defs same_ids_ops Let_def\<close>)
next
  case (WtUpgrade t err now)
  then show ?thesis using exact_upgrade [OF assms(1,2)] assms(3,4) by (auto split: if_splits)
next
  case (WtAuthenticate t)
  then show ?thesis using exact_auth [OF assms(1)] assms(4) by (auto split: if_splits)
next
  case (WtRegister t)
  then show ?thesis using exact_register [OF assms(1)] assms(4) by (auto split: if_splits)
next
  case (WtConnect t err)
  then have s': "wt_handle_connect (io t) t err s = Return s'" and pc: "wth_pc (wsys_thread s t) = WtJoined"
    using assms(4) by (auto split: if_splits)
  show ?thesis
    by (rule wt_exact_local [OF assms(1), where t = t and th = "wsys_thread s' t" and c = "wsys_heap s' t"])
      (use s' pc in \<open>auto simp: wt_handle_connect_def wt_update_defs same_ids_ops Let_def split: option.splits\<close>)
next
  case (WtSelect t)
  then have s': "s' = wt_handle_select t s" and pc: "wth_pc (wsys_thread s t) = WtServing" using assms(4) by (auto split: if_splits)
  show ?thesis
    by (rule wt_exact_local [OF assms(1), where t = t and th = "wsys_thread s' t" and c = "wsys_heap s t"])
      (use pc in \<open>auto simp: s' wt_handle_select_def wt_update_defs same_ids_ops\<close>)
next
  case (WtAccept t accepted)
  then have s': "s' = wt_handle_accept t accepted s" and pc: "wth_pc (wsys_thread s t) = WtAccepting" using assms(4) by (auto split: if_splits)
  show ?thesis
    by (rule wt_exact_local [OF assms(1), where t = t and th = "wsys_thread s' t" and c = "wsys_heap s t"])
      (use pc in \<open>auto simp: s' wt_handle_accept_def wt_update_defs same_ids_ops split: sum.splits\<close>)
next
  case (WtLeave t)
  then show ?thesis using exact_return [OF assms(1)] assms(4) by (auto split: if_splits)
next
  case (WtStreamStart t sid)
  then have s': "handleStream_start t sid s = Return s'" using assms(4) by (auto split: if_splits)
  show ?thesis
    by (rule wt_exact_local [OF assms(1), where t = t and th = "wsys_thread s' t" and c = "wsys_heap s' t"])
      (use s' in \<open>auto simp: handleStream_start_def wt_update_defs same_ids_ops split: if_splits\<close>)
next
  case (WtStreamSelect t sid now)
  then have s': "s' = handleStream_select (io t) t sid now s" using assms(4) by (auto split: if_splits)
  show ?thesis
    by (rule wt_exact_local [OF assms(1), where t = t and th = "wsys_thread s' t" and c = "wsys_heap s' t"])
      (auto simp: s' handleStream_select_def wt_update_defs same_ids_ops Let_def)
next
  case (WtStreamRead t sid result)
  then have s': "s' = handleStream_read t sid result s" using assms(4) by (auto split: if_splits)
  show ?thesis
    by (rule wt_exact_local [OF assms(1), where t = t and th = "wsys_thread s' t" and c = "wsys_heap s' t"])
      (auto simp: s' handleStream_read_def wt_update_defs same_ids_ops split: sum.splits)
next
  case (WtWriterWait t choice)
  then have s': "wt_writePump_wait t choice s = Return s'" using assms(4) by (auto split: if_splits)
  show ?thesis
    by (rule wt_exact_local [OF assms(1), where t = t and th = "wsys_thread s' t" and c = "wsys_heap s' t"])
      (use s' in \<open>auto simp: wt_writePump_wait_def wt_update_defs same_ids_ops Let_def split: option.splits wt_write_case.splits\<close>)
next
  case (WtWriterRound t now choice)
  then have s': "wt_writePump_round (io t) t now choice s = Return s'" using assms(4) by (auto split: if_splits)
  show ?thesis
    by (rule wt_exact_local [OF assms(1), where t = t and th = "wsys_thread s' t" and c = "wsys_heap s' t"])
      (use s' in \<open>auto simp: wt_writePump_round_def wt_update_defs same_ids_def wt_call_def wt_UserID_def Let_def
         split: option.splits wt_write_case.splits if_splits\<close>)
next
  case (WtSendBy t choice ctx msg)
  then have s': "wt_other_send t choice ctx msg s = Return s'" using assms(4) by (auto split: if_splits)
  show ?thesis
    by (rule wt_exact_local [OF assms(1), where t = t and th = "wsys_thread s' t" and c = "wsys_heap s' t"])
      (use s' in \<open>auto simp: wt_other_send_def wt_update_defs same_ids_ops split: if_splits\<close>)
next
  case (WtCloseBy t)
  then have s': "wt_other_close (io t) t s = Return s'" using assms(4) by (auto split: if_splits)
  show ?thesis
    by (rule wt_exact_local [OF assms(1), where t = t and th = "wsys_thread s' t" and c = "wsys_heap s' t"])
      (use s' in \<open>auto simp: wt_other_close_def wt_update_defs same_ids_ops\<close>)
next
  case (WtStopBy ord removable)
  then show ?thesis using exact_stop [OF assms(1)] assms(4) by simp
qed

lemma wt_exact_initial: "wt_fresh_server srv \<Longrightarrow> wt_exact (wt_initial srv)"
  by (simp add: wt_exact_def wt_initial_def wt_idle_thread_def session_view_def views_ok_def maps_of_views_def wt_fresh_server_def
      wt_maps_ok_def)

lemma wt_exact_reach: "wt_timed_reach io (wt_initial srv) s \<Longrightarrow> wt_fresh_server srv \<Longrightarrow> wt_exact s"
proof (induction rule: wt_timed_reach.induct)
  case start
  then show ?case by (rule wt_exact_initial)
next
  case (step s ev s')
  then show ?case using exact_exec wt_inv_reach [OF wt_timed_reach_reach] by blast
qed

lemma stage_of_iff:
  "stage_of p = Registered \<longleftrightarrow> wt_active p" "stage_of p \<in> {Bound, Registered} \<longleftrightarrow> p = WtAdmitted \<or> wt_active p"
  by (cases p; simp)+

text \<open>The run of bob.\<close>

lemma bob_reach:
  shows "wt_fresh_server bob_server"
    and "\<exists>s. wt_timed_reach (\<lambda>_ _ _. None) (wt_initial bob_server) s \<and> wth_pc (wsys_thread s 0) = WtServing \<and>
      wth_created (wsys_thread s 0) = Some 7 \<and> wth_calls (wsys_thread s 0) = [OnConnect None]"
proof -
  show "wt_fresh_server bob_server" by (simp add: wt_fresh_server_def bob_server_def sample_wt_fresh_def sample_wt_server_def)
  have "\<exists>s. timed_run (\<lambda>_ _ _. None) bob_joins (wt_initial bob_server) = Some s \<and> wth_pc (wsys_thread s 0) = WtServing \<and>
      wth_created (wsys_thread s 0) = Some 7 \<and> wth_calls (wsys_thread s 0) = [OnConnect None]"
    by (simp add: bob_joins_def wt_initial_def bob_server_def sample_wt_fresh_def sample_wt_server_def sample_WtConf_def empty_auth_def
        wt_idle_thread_def wt_handle_check_def wt_handle_upgrade_def wt_handle_auth_def wt_handle_register_def
        wt_handle_connect_def wt_update_defs wt_registry_defs Let_def wt_NewConnection_def)
  then show "\<exists>s. wt_timed_reach (\<lambda>_ _ _. None) (wt_initial bob_server) s \<and> wth_pc (wsys_thread s 0) = WtServing \<and>
      wth_created (wsys_thread s 0) = Some 7 \<and> wth_calls (wsys_thread s 0) = [OnConnect None]"
    using timed_run_reach [OF _ wt_timed_reach.start] by blast
qed

text \<open>The connections of a user in a two-level map.\<close>

lemma GetConnections_view:
  assumes "wt_maps_ok srv" and "order_ok ord"
  shows "set (wt_GetConnections ord srv [u]) = ran (user_view (wts_userConns srv) u)"
proof -
  have "distinct (map fst (conns_of (wts_userConns srv) u))"
    using assms(1) by (auto dest: nested_okD simp: wt_maps_ok_def conns_of_def gomap_ok_def split: option.split)
  then show ?thesis
    unfolding wt_GetConnections_def collect_users_set [OF assms(2)] by (simp add: user_view_def ran_distinct)
qed

section \<open>Properties\<close>



end
