(* ===== verification/Fallback.thy ===== *)
theory Fallback
  imports Ws_Server Wt_Config Delivery
begin

text \<open>
  The hybrid configuration and the fallback manager (\<^verbatim>\<open>hybrid/config.go\<close>, \<^verbatim>\<open>hybrid/fallback.go\<close>):
  which protocol a client is told to use, the count of failed attempts per client, and the
  statistics. Of the two servers the manager only asks whether the WebTransport one exists.
\<close>

section \<open>Configuration\<close>

definition ProtocolAuto :: string where "ProtocolAuto = ''auto''"
definition PreferWebSocket :: string where "PreferWebSocket = ''websocket''"
definition PreferWebTransport :: string where "PreferWebTransport = ''webtransport''"

definition FallbackNone :: string where "FallbackNone = ''none''"
definition FallbackAuto :: string where "FallbackAuto = ''auto''"
definition FallbackTimeout :: string where "FallbackTimeout = ''timeout''"
definition FallbackError :: string where "FallbackError = ''error''"

record AuthHybridConf =
  ah_Enabled :: bool
  ah_WsHeaderName :: string
  ah_WtTokenSource :: string
  ah_WtTokenName :: string
  ah_WtJWTSecret :: string

record HybridConf =
  hc_Name :: string
  hc_Protocol :: string
  hc_Ws :: WsConf
  hc_Wt :: WtConf
  hc_FallbackStrategy :: string
  hc_FallbackDelay :: int64
  hc_FallbackTimeout :: int64
  hc_MaxRetries :: int64
  hc_MaxConnections :: int64
  hc_Auth :: AuthHybridConf

definition HybridConf_SetUp :: "HybridConf \<Rightarrow> HybridConf" where
  "HybridConf_SetUp c0 =
     (let c1 = (if ws_Addr (hc_Ws c0) = [] then c0\<lparr>hc_Ws := (hc_Ws c0)\<lparr>ws_Addr := '':8080''\<rparr>\<rparr> else c0);
          c2 = (if ws_Path (hc_Ws c1) = [] then c1\<lparr>hc_Ws := (hc_Ws c1)\<lparr>ws_Path := ''/ws''\<rparr>\<rparr> else c1);
          c3 = (if wt_Addr (hc_Wt c2) = [] then c2\<lparr>hc_Wt := (hc_Wt c2)\<lparr>wt_Addr := '':443''\<rparr>\<rparr> else c2);
          c4 = (if wt_Path (hc_Wt c3) = [] then c3\<lparr>hc_Wt := (hc_Wt c3)\<lparr>wt_Path := ''/wt''\<rparr>\<rparr> else c3)
      in c4)"

record ClientHello =
  hello_Protocol :: string
  hello_Version :: string
  hello_SupportsWT :: bool
  hello_FallbackOnly :: bool
  hello_ClientID :: string
  hello_UserAgent :: string

record ServerHello =
  sh_Protocol :: string
  sh_Version :: string
  sh_ServerID :: string
  sh_SessionID :: string
  sh_FallbackURL :: string

record ProtocolInfo =
  pi_Protocol :: Protocol
  pi_Available :: bool
  pi_Addr :: string
  pi_Path :: string
  pi_Priority :: int64

section \<open>The fallback manager\<close>

record FallbackStats =
  fs_TotalConnections :: int64
  fs_WebSocketOnly :: int64
  fs_WebTransportOnly :: int64
  fs_WebTransportSuccess :: int64
  fs_WebTransportFailed :: int64
  fs_FallbackToWS :: int64

record FallbackManager =
  fm_conf :: HybridConf
  fm_wtServer :: bool
  fm_fallbackCount :: "(string, int64) gomap"
  fm_stats :: FallbackStats

definition NewFallbackManager :: "HybridConf \<Rightarrow> bool \<Rightarrow> FallbackManager" where
  "NewFallbackManager conf wt =
     \<lparr>fm_conf = conf, fm_wtServer = wt, fm_fallbackCount = [],
      fm_stats = \<lparr>fs_TotalConnections = 0, fs_WebSocketOnly = 0, fs_WebTransportOnly = 0, fs_WebTransportSuccess = 0,
                  fs_WebTransportFailed = 0, fs_FallbackToWS = 0\<rparr>\<rparr>"

text \<open>Reading a missing key of a map gives zero.\<close>

definition fallback_count :: "FallbackManager \<Rightarrow> string \<Rightarrow> int64" where
  "fallback_count m client = (case map_of (fm_fallbackCount m) client of None \<Rightarrow> 0 | Some n \<Rightarrow> n)"

definition selectAutoProtocol :: "FallbackManager \<Rightarrow> ClientHello \<Rightarrow> Protocol" where
  "selectAutoProtocol m hello =
     (if \<not> hello_SupportsWT hello then ProtocolWebSocket
      else if int64_le (hc_MaxRetries (fm_conf m)) (fallback_count m (hello_ClientID hello)) then ProtocolWebSocket
      else if fm_wtServer m then ProtocolWebTransport
      else ProtocolWebSocket)"

definition SelectProtocol :: "FallbackManager \<Rightarrow> ClientHello \<Rightarrow> Protocol" where
  "SelectProtocol m hello =
     (if hc_Protocol (fm_conf m) = PreferWebSocket then ProtocolWebSocket
      else if hc_Protocol (fm_conf m) = PreferWebTransport
      then (if \<not> hello_SupportsWT hello then ProtocolWebSocket else ProtocolWebTransport)
      else if hc_Protocol (fm_conf m) = ProtocolAuto then selectAutoProtocol m hello
      else ProtocolWebSocket)"

definition RecordFallback :: "string \<Rightarrow> Protocol \<Rightarrow> Protocol \<Rightarrow> FallbackManager \<Rightarrow> FallbackManager" where
  "RecordFallback clientID from_protocol to_protocol m =
     (let m1 = m\<lparr>fm_fallbackCount := mapassign clientID (fallback_count m clientID + 1) (fm_fallbackCount m)\<rparr>;
          st = fm_stats m1;
          st1 = st\<lparr>fs_FallbackToWS := fs_FallbackToWS st + 1\<rparr>;
          st2 = (if from_protocol = ProtocolWebTransport
                 then st1\<lparr>fs_WebTransportFailed := fs_WebTransportFailed st1 + 1\<rparr> else st1)
      in m1\<lparr>fm_stats := st2\<rparr>)"

definition RecordConnection :: "Protocol \<Rightarrow> FallbackManager \<Rightarrow> FallbackManager" where
  "RecordConnection proto m =
     (let st = fm_stats m;
          st1 = st\<lparr>fs_TotalConnections := fs_TotalConnections st + 1\<rparr>;
          st2 = (if proto = ProtocolWebSocket then st1\<lparr>fs_WebSocketOnly := fs_WebSocketOnly st1 + 1\<rparr>
                 else if proto = ProtocolWebTransport
                 then st1\<lparr>fs_WebTransportSuccess := fs_WebTransportSuccess st1 + 1\<rparr> else st1)
      in m\<lparr>fm_stats := st2\<rparr>)"

definition GetStats :: "FallbackManager \<Rightarrow> FallbackStats" where
  "GetStats m = fm_stats m"

text \<open>Both cases of the select in the timeout strategy return true: it waits and then answers true.\<close>

definition ShouldFallback :: "FallbackManager \<Rightarrow> go_context \<Rightarrow> string \<Rightarrow> go_error option \<Rightarrow> bool" where
  "ShouldFallback m ctx clientID err =
     (if hc_FallbackStrategy (fm_conf m) = FallbackNone then False
      else if ctx \<noteq> None then False
      else if hc_FallbackStrategy (fm_conf m) = FallbackAuto \<or> hc_FallbackStrategy (fm_conf m) = FallbackError
      then err \<noteq> None
      else if hc_FallbackStrategy (fm_conf m) = FallbackTimeout then True
      else False)"

definition ResetFallbackCount :: "string \<Rightarrow> FallbackManager \<Rightarrow> FallbackManager" where
  "ResetFallbackCount clientID m = m\<lparr>fm_fallbackCount := mapdelete clientID (fm_fallbackCount m)\<rparr>"

text \<open>The age is not used.\<close>

definition CleanupStaleClients :: "int64 \<Rightarrow> FallbackManager \<Rightarrow> FallbackManager" where
  "CleanupStaleClients maxAge m =
     (if 10000 < length (fm_fallbackCount m) then m\<lparr>fm_fallbackCount := []\<rparr> else m)"

section \<open>The fallback handler\<close>

text \<open>
  What \<^verbatim>\<open>FallbackHandler\<close> does to the manager before it passes the call on; the connection is given
  by its protocol and user ID.
\<close>

definition Fallback_OnConnect :: "Protocol \<Rightarrow> FallbackManager \<Rightarrow> FallbackManager" where
  "Fallback_OnConnect proto m = RecordConnection proto m"

definition Fallback_OnDisconnect :: "Protocol \<Rightarrow> string \<Rightarrow> go_error option \<Rightarrow> FallbackManager \<Rightarrow> FallbackManager" where
  "Fallback_OnDisconnect proto userID err m =
     (if err \<noteq> None \<and> proto = ProtocolWebTransport \<and> userID \<noteq> []
      then RecordFallback userID ProtocolWebTransport ProtocolWebSocket m else m)"

section \<open>Runs\<close>

datatype fallback_op = FbRecord string Protocol Protocol | FbConnection Protocol | FbReset string | FbCleanup int64

fun fallback_step :: "fallback_op \<Rightarrow> FallbackManager \<Rightarrow> FallbackManager" where
  "fallback_step (FbRecord c p q) m = RecordFallback c p q m"
| "fallback_step (FbConnection p) m = RecordConnection p m"
| "fallback_step (FbReset c) m = ResetFallbackCount c m"
| "fallback_step (FbCleanup d) m = CleanupStaleClients d m"

definition fallback_run :: "fallback_op list \<Rightarrow> FallbackManager \<Rightarrow> FallbackManager" where
  "fallback_run ops m = foldl (\<lambda>m x. fallback_step x m) m ops"

text \<open>How often a list of operations records a connection, a connection of a protocol, a fallback,
  a failed WebTransport attempt.\<close>

fun is_connection :: "fallback_op \<Rightarrow> bool" where
  "is_connection (FbConnection p) = True" | "is_connection _ = False"

fun is_connection_of :: "Protocol \<Rightarrow> fallback_op \<Rightarrow> bool" where
  "is_connection_of q (FbConnection p) = (p = q)" | "is_connection_of q _ = False"

fun is_fallback :: "fallback_op \<Rightarrow> bool" where
  "is_fallback (FbRecord c p q) = True" | "is_fallback _ = False"

fun is_failure :: "fallback_op \<Rightarrow> bool" where
  "is_failure (FbRecord c p q) = (p = ProtocolWebTransport)" | "is_failure _ = False"

definition tally :: "(fallback_op \<Rightarrow> bool) \<Rightarrow> fallback_op list \<Rightarrow> int64" where
  "tally P ops = of_nat (length (filter P ops))"

definition sample_HybridConf :: HybridConf where
  "sample_HybridConf =
     \<lparr>hc_Name = [], hc_Protocol = ''auto'', hc_Ws = default_WsConf empty_auth, hc_Wt = sample_WtConf,
      hc_FallbackStrategy = ''auto'', hc_FallbackDelay = 1000000000, hc_FallbackTimeout = 5000000000, hc_MaxRetries = 3,
      hc_MaxConnections = 10000,
      hc_Auth = \<lparr>ah_Enabled = True, ah_WsHeaderName = ''X-User-ID'', ah_WtTokenSource = ''query'', ah_WtTokenName = ''token'',
                 ah_WtJWTSecret = ''s3cret''\<rparr>\<rparr>"

definition sample_hello :: ClientHello where
  "sample_hello = \<lparr>hello_Protocol = ''webtransport'', hello_Version = ''1.0'', hello_SupportsWT = True,
     hello_FallbackOnly = False, hello_ClientID = ''c1'', hello_UserAgent = []\<rparr>"

section \<open>Lemmas\<close>

lemma tally_append [simp]: "tally P (xs @ ys) = tally P xs + tally P ys"
  by (simp add: tally_def)

lemma tally_simps [simp]: "tally P [] = 0" "tally P [x] = (if P x then 1 else 0)"
  by (simp_all add: tally_def)

lemma fallback_run_snoc [simp]: "fallback_run (ops @ [x]) m = fallback_step x (fallback_run ops m)"
  by (simp add: fallback_run_def)

lemma fallback_run_Nil [simp]: "fallback_run [] m = m"
  by (simp add: fallback_run_def)

lemma fallback_conf [simp]: "fm_conf (fallback_step x m) = fm_conf m" "fm_wtServer (fallback_step x m) = fm_wtServer m"
  by (cases x; simp add: RecordFallback_def RecordConnection_def ResetFallbackCount_def CleanupStaleClients_def Let_def)+

lemma fallback_run_conf [simp]: "fm_conf (fallback_run ops m) = fm_conf m" "fm_wtServer (fallback_run ops m) = fm_wtServer m"
  by (induction ops rule: rev_induct) simp_all

lemma count_RecordFallback [simp]:
  "fallback_count (RecordFallback c p q m) c' = (if c' = c then fallback_count m c + 1 else fallback_count m c')"
  by (simp add: RecordFallback_def fallback_count_def Let_def)

lemma count_other [simp]:
  "fallback_count (RecordConnection p m) = fallback_count m"
  "fallback_count (ResetFallbackCount c m) c' = (if c' = c then 0 else fallback_count m c')"
  by (simp_all add: RecordConnection_def ResetFallbackCount_def fallback_count_def Let_def fun_eq_iff)

text \<open>The counter of one client, as long as nobody resets it.\<close>

lemma count_run:
  assumes "\<And>x. x \<in> set ops \<Longrightarrow> (\<exists>p q. x = FbRecord c p q) \<or> (\<exists>p. x = FbConnection p)"
  shows "fallback_count (fallback_run ops m) c = fallback_count m c + tally is_fallback ops"
  using assms
proof (induction ops rule: rev_induct)
  case Nil
  then show ?case by simp
next
  case (snoc x ops)
  have "(\<exists>p q. x = FbRecord c p q) \<or> (\<exists>p. x = FbConnection p)" using snoc.prems by simp
  moreover have "fallback_count (fallback_run ops m) c = fallback_count m c + tally is_fallback ops"
    using snoc.IH snoc.prems by simp
  ultimately show ?case by auto
qed

section \<open>Properties\<close>

text \<open>
  The statistics are exact. After any sequence of operations on a new manager every
  counter is the number of events it names: connections, connections of each protocol, recorded
  fallbacks, failed WebTransport attempts. The counter WebTransportOnly is always zero.
\<close>

lemma fallback_stats_exact:
  "GetStats (fallback_run ops (NewFallbackManager conf wt)) =
     \<lparr>fs_TotalConnections = tally is_connection ops, fs_WebSocketOnly = tally (is_connection_of ProtocolWebSocket) ops,
      fs_WebTransportOnly = 0, fs_WebTransportSuccess = tally (is_connection_of ProtocolWebTransport) ops,
      fs_WebTransportFailed = tally is_failure ops, fs_FallbackToWS = tally is_fallback ops\<rparr>"
proof (induction ops rule: rev_induct)
  case Nil
  then show ?case by (simp add: GetStats_def NewFallbackManager_def)
next
  case (snoc x ops)
  then show ?case
    by (cases x) (simp_all add: GetStats_def RecordFallback_def RecordConnection_def ResetFallbackCount_def CleanupStaleClients_def Let_def)
qed



text \<open>
  Forcing WebTransport ignores whether there is a WebTransport server: a client that supports it
  is sent to a listener that does not exist.
\<close>

lemma forced_without_server:
  assumes "hc_Protocol conf = PreferWebTransport" and "hello_SupportsWT hello"
  shows "SelectProtocol (NewFallbackManager conf False) hello = ProtocolWebTransport"
  using assms by (simp add: SelectProtocol_def NewFallbackManager_def PreferWebSocket_def PreferWebTransport_def)

end
