(* ===== verification/Authenticator.thy ===== *)
theory Authenticator
  imports Complex_Main Protocol
begin

text \<open>
  The authenticators (\<^verbatim>\<open>hybrid/authenticator.go\<close>): the hybrid one (a trusted header for
  WebSocket, a JWT for WebTransport), the JWT one and the header one.

  The JWT library (golang-jwt) is code of another repository. It is the argument \<open>parse\<close> of the
  definitions: given a token and the key function of the caller, it returns an error or a
  parsed token; \<open>jwt_sound\<close> states what its documentation promises.
\<close>

section \<open>Tokens\<close>

text \<open>
  A claim decoded from JSON: a string, a number (as a \<^verbatim>\<open>float64\<close>, here its exact value, or as a
  \<^verbatim>\<open>json.Number\<close>) or something else.
\<close>

datatype claim = ClaimString string | ClaimFloat rat | ClaimNumber string | ClaimOther

type_synonym claims = "(string, claim) gomap"

record jwt_token =
  jwt_Valid :: bool
  jwt_Claims :: claims

text \<open>The key function sees whether the token asks for an HMAC method.\<close>

type_synonym key_func = "bool \<Rightarrow> go_error + bytes"
type_synonym jwt_parse = "string \<Rightarrow> key_func \<Rightarrow> go_error + jwt_token"

text \<open>
  \<^verbatim>\<open>ParseWithClaims\<close> succeeds only if the key function accepts the method of the token and the
  signature verifies with the key it returned: \<open>verified hmac key token claims\<close> says that it does.
  A number in JSON has at least one digit.
\<close>

definition jwt_sound :: "jwt_parse \<Rightarrow> (bool \<Rightarrow> bytes \<Rightarrow> string \<Rightarrow> claims \<Rightarrow> bool) \<Rightarrow> bool" where
  "jwt_sound parse verified \<longleftrightarrow>
     (\<forall>token kf t. parse token kf = Inr t \<longrightarrow>
        (\<exists>hmac key. kf hmac = Inr key \<and> verified hmac key token (jwt_Claims t)) \<and>
        ClaimNumber [] \<notin> snd ` set (jwt_Claims t))"

section \<open>Errors\<close>

definition ErrMissingToken :: go_error where
  "ErrMissingToken = ErrorString ''hybrid.ErrMissingToken''"

definition ErrInvalidToken :: go_error where
  "ErrInvalidToken = ErrorString ''hybrid.ErrInvalidToken''"

definition ErrMissingUserInfo :: go_error where
  "ErrMissingUserInfo = ErrorString ''hybrid.ErrMissingUserInfo''"

definition ErrUnsupportedProtocol :: go_error where
  "ErrUnsupportedProtocol = OtherError ''*errors.errorString'' ''unsupported protocol''"

section \<open>The hybrid authenticator\<close>

record WsAuthConfig =
  wsa_Source :: string
  wsa_HeaderName :: string

record WtAuthConfig =
  wta_TokenSource :: string
  wta_TokenName :: string
  wta_JWTSecret :: string

record HybridAuthenticator =
  ha_wsConfig :: WsAuthConfig
  ha_wtConfig :: WtAuthConfig

definition NewHybridAuthenticator :: "WsAuthConfig \<Rightarrow> WtAuthConfig \<Rightarrow> HybridAuthenticator" where
  "NewHybridAuthenticator wsConfig wtConfig = \<lparr>ha_wsConfig = wsConfig, ha_wtConfig = wtConfig\<rparr>"

definition authenticateFromEnvoy :: "HybridAuthenticator \<Rightarrow> AuthRequest \<Rightarrow> go_error + string" where
  "authenticateFromEnvoy a req =
     (case ar_HTTPRequest req of
        None \<Rightarrow> Inl ErrMissingUserInfo
      | Some r \<Rightarrow>
          let userID = Header_Get r (wsa_HeaderName (ha_wsConfig a))
          in if userID = [] then Inl ErrMissingUserInfo else Inr userID)"

text \<open>The switch over the source of the token; any other source gives the empty token.\<close>

definition request_token :: "string \<Rightarrow> string \<Rightarrow> HTTPRequest \<Rightarrow> string" where
  "request_token source name r =
     (if source = ''query'' then Query_Get r name
      else if source = ''header''
      then let token = Header_Get r name
           in if HasPrefix token ''Bearer '' then TrimPrefix token ''Bearer '' else token
      else if source = ''cookie''
      then (case Request_Cookie r name of Some v \<Rightarrow> v | None \<Rightarrow> [])
      else [])"

definition hmac_key :: "string \<Rightarrow> key_func" where
  "hmac_key secret is_hmac = (if \<not> is_hmac then Inl ErrInvalidToken else Inr (string_bytes secret))"

text \<open>\<^verbatim>\<open>int64(v)\<close> drops the fraction; outside the range of \<^verbatim>\<open>int64\<close> the language leaves the result
  to the implementation (the model wraps).\<close>

definition float_to_int64 :: "rat \<Rightarrow> int64" where
  "float_to_int64 v = of_int (if 0 \<le> v then \<lfloor>v\<rfloor> else - \<lfloor>- v\<rfloor>)"

fun claim_user :: "string list \<Rightarrow> claims \<Rightarrow> go_error + string" where
  "claim_user [] cs = Inl ErrInvalidToken"
| "claim_user (field # names) cs =
     (case map_of cs field of
        Some (ClaimString v) \<Rightarrow> if v \<noteq> [] then Inr v else claim_user names cs
      | Some (ClaimFloat v) \<Rightarrow> Inr (show_int (sint (float_to_int64 v)))
      | Some (ClaimNumber v) \<Rightarrow> Inr v
      | _ \<Rightarrow> claim_user names cs)"

definition user_fields :: "string list" where
  "user_fields = [''sub'', ''user_id'', ''UserId'', ''userId'', ''uid'']"

definition authenticateJWT :: "jwt_parse \<Rightarrow> HybridAuthenticator \<Rightarrow> AuthRequest \<Rightarrow> go_error + string" where
  "authenticateJWT parse a req =
     (case ar_HTTPRequest req of
        None \<Rightarrow> Inl ErrMissingToken
      | Some r \<Rightarrow>
          let token = request_token (wta_TokenSource (ha_wtConfig a)) (wta_TokenName (ha_wtConfig a)) r
          in if token = [] then Inl ErrMissingToken
             else
               (case parse token (hmac_key (wta_JWTSecret (ha_wtConfig a))) of
                  Inl err \<Rightarrow> Inl ErrInvalidToken
                | Inr t \<Rightarrow> if \<not> jwt_Valid t then Inl ErrInvalidToken else claim_user user_fields (jwt_Claims t)))"

definition Hybrid_Authenticate :: "jwt_parse \<Rightarrow> HybridAuthenticator \<Rightarrow> authenticator" where
  "Hybrid_Authenticate parse a req =
     (if ar_Protocol req = ProtocolWebSocket then authenticateFromEnvoy a req
      else if ar_Protocol req = ProtocolWebTransport then authenticateJWT parse a req
      else Inl ErrUnsupportedProtocol)"

section \<open>The single-protocol authenticators\<close>

record JWTAuthenticator =
  ja_tokenSource :: string
  ja_tokenName :: string
  ja_secret :: string
  ja_timeout :: int64

definition NewJWTAuthenticator :: "string \<Rightarrow> string \<Rightarrow> string \<Rightarrow> int64 \<Rightarrow> JWTAuthenticator" where
  "NewJWTAuthenticator tokenSource tokenName secret timeout =
     \<lparr>ja_tokenSource = tokenSource, ja_tokenName = tokenName, ja_secret = secret, ja_timeout = timeout\<rparr>"

definition JWT_Authenticate :: "jwt_parse \<Rightarrow> JWTAuthenticator \<Rightarrow> authenticator" where
  "JWT_Authenticate parse a req =
     (case ar_HTTPRequest req of
        None \<Rightarrow> Inl ErrMissingToken
      | Some r \<Rightarrow>
          let token = request_token (ja_tokenSource a) (ja_tokenName a) r
          in if token = [] then Inl ErrMissingToken
             else
               (case parse token (hmac_key (ja_secret a)) of
                  Inl err \<Rightarrow> Inl ErrInvalidToken
                | Inr t \<Rightarrow>
                    if \<not> jwt_Valid t then Inl ErrInvalidToken
                    else (case map_of (jwt_Claims t) ''sub'' of
                            Some (ClaimString userID) \<Rightarrow> Inr userID
                          | _ \<Rightarrow> Inl ErrInvalidToken)))"

definition Envoy_Authenticate :: "string \<Rightarrow> authenticator" where
  "Envoy_Authenticate headerName req =
     (case ar_HTTPRequest req of
        None \<Rightarrow> Inl ErrMissingUserInfo
      | Some r \<Rightarrow>
          let userID = Header_Get r headerName
          in if userID = [] then Inl ErrMissingUserInfo else Inr userID)"

text \<open>A library for examples: the token \<open>''ok''\<close> is signed with every key, for the user \<open>''bob''\<close>.\<close>

definition sample_parse :: jwt_parse where
  "sample_parse token kf =
     (case kf True of
        Inl e \<Rightarrow> Inl e
      | Inr key \<Rightarrow> if token = ''ok'' then Inr \<lparr>jwt_Valid = True, jwt_Claims = [(''sub'', ClaimString ''bob'')]\<rparr>
                   else Inl (ErrorString ''jwt''))"

definition sample_query :: HTTPRequest where
  "sample_query = \<lparr>req_Header = [(''X-User-Id'', [''eve''])], req_Query = [(''token'', [''ok''])], req_Cookies = [], req_Host = []\<rparr>"

definition sample_hybrid_auth :: HybridAuthenticator where
  "sample_hybrid_auth = NewHybridAuthenticator \<lparr>wsa_Source = ''envoy-header'', wsa_HeaderName = ''X-User-ID''\<rparr>
     \<lparr>wta_TokenSource = ''query'', wta_TokenName = ''token'', wta_JWTSecret = ''s3cret''\<rparr>"

text \<open>One of the named claims has the value \<open>u\<close>.\<close>

definition names_user :: "string list \<Rightarrow> claims \<Rightarrow> string \<Rightarrow> bool" where
  "names_user names cs u \<longleftrightarrow>
     (\<exists>field \<in> set names. \<exists>c. map_of cs field = Some c \<and>
        (c = ClaimString u \<or> c = ClaimNumber u \<or> (\<exists>v. c = ClaimFloat v \<and> u = show_int (sint (float_to_int64 v)))))"

section \<open>Lemmas\<close>

lemma claim_user_field:
  assumes "claim_user names cs = Inr u" and "ClaimNumber [] \<notin> snd ` set cs"
  shows "u \<noteq> [] \<and> names_user names cs u"
  using assms
proof (induction names)
  case Nil
  then show ?case by simp
next
  case (Cons f names)
  have "map_of cs f = Some (ClaimNumber v) \<Longrightarrow> v \<noteq> []" for v
    using Cons.prems(2) map_of_SomeD by force
  with Cons show ?case by (auto simp: names_user_def split: option.splits claim.splits if_splits)
qed

lemma hmac_key_Inr: "hmac_key secret hmac = Inr key \<longleftrightarrow> hmac \<and> key = string_bytes secret"
  by (auto simp: hmac_key_def)

lemma claim_user_error: "claim_user names cs = Inl e \<Longrightarrow> e = ErrInvalidToken"
  by (induction names) (auto split: option.splits claim.splits if_splits)

lemma jwt_sound_sample: "jwt_sound sample_parse (\<lambda>hmac key token cs. hmac \<and> token = ''ok'')"
  by (auto simp: jwt_sound_def sample_parse_def split: sum.splits if_splits)

section \<open>Properties\<close>

text \<open>
  C8. WebTransport authentication is sound. If the JWT library verifies signatures as it
  promises, the hybrid authenticator accepts a WebTransport request only with a token that is
  signed by an HMAC method with the configured secret and is valid, and the user ID it returns
  is not empty and is the value of one of the five accepted claims of that token; otherwise it
  returns one of two errors.
\<close>

theorem hybrid_jwt_sound:
  assumes "jwt_sound parse verified" and "ar_Protocol req = ProtocolWebTransport"
  shows "case Hybrid_Authenticate parse a req of
      Inl e \<Rightarrow> e = ErrMissingToken \<or> e = ErrInvalidToken
    | Inr u \<Rightarrow> u \<noteq> [] \<and> (\<exists>r token (t :: jwt_token). ar_HTTPRequest req = Some r \<and>
        token = request_token (wta_TokenSource (ha_wtConfig a)) (wta_TokenName (ha_wtConfig a)) r \<and> token \<noteq> [] \<and>
        verified True (string_bytes (wta_JWTSecret (ha_wtConfig a))) token (jwt_Claims t) \<and> jwt_Valid t \<and>
        names_user user_fields (jwt_Claims t) u)"
proof (cases "ar_HTTPRequest req")
  case None
  then show ?thesis using assms(2) by (simp add: Hybrid_Authenticate_def authenticateJWT_def)
next
  case (Some r)
  let ?token = "request_token (wta_TokenSource (ha_wtConfig a)) (wta_TokenName (ha_wtConfig a)) r"
  let ?key = "hmac_key (wta_JWTSecret (ha_wtConfig a))"
  have eq: "Hybrid_Authenticate parse a req =
      (if ?token = [] then Inl ErrMissingToken
       else case parse ?token ?key of Inl err \<Rightarrow> Inl ErrInvalidToken
         | Inr t \<Rightarrow> if \<not> jwt_Valid t then Inl ErrInvalidToken else claim_user user_fields (jwt_Claims t))"
    using assms(2) Some by (simp add: Hybrid_Authenticate_def authenticateJWT_def Let_def)
  show ?thesis
  proof (cases "parse ?token ?key")
    case (Inl e)
    then show ?thesis by (simp add: eq)
  next
    case (Inr t)
    then have t: "verified True (string_bytes (wta_JWTSecret (ha_wtConfig a))) ?token (jwt_Claims t)"
      "ClaimNumber [] \<notin> snd ` set (jwt_Claims t)"
      using assms(1) [unfolded jwt_sound_def, rule_format, OF Inr] by (auto simp: hmac_key_Inr)
    show ?thesis
    proof (cases "claim_user user_fields (jwt_Claims t)")
      case (Inl e)
      then show ?thesis using Inr claim_user_error [OF Inl] by (simp add: eq)
    next
      case (Inr u)
      then show ?thesis
        using \<open>parse ?token ?key = Inr t\<close> claim_user_field [OF Inr t(2)] t(1) Some by (simp add: eq) blast
    qed
  qed
qed

lemma hybrid_jwt_sound_witness:
  "Hybrid_Authenticate sample_parse sample_hybrid_auth
     \<lparr>ar_Protocol = ProtocolWebTransport, ar_HTTPRequest = Some sample_query, ar_FirstMessage = []\<rparr> = Inr ''bob'' \<and>
   jwt_sound sample_parse (\<lambda>hmac key token cs. hmac \<and> token = ''ok'')"
proof -
  let ?req = "\<lparr>ar_Protocol = ProtocolWebTransport, ar_HTTPRequest = Some sample_query, ar_FirstMessage = []\<rparr>"
  have "Hybrid_Authenticate sample_parse sample_hybrid_auth ?req = Inr ''bob''"
    by (simp add: Hybrid_Authenticate_def authenticateJWT_def sample_hybrid_auth_def NewHybridAuthenticator_def
        request_token_def Query_Get_def first_value_def sample_query_def sample_parse_def hmac_key_def user_fields_def)
  then show ?thesis using hybrid_jwt_sound [OF jwt_sound_sample, of ?req sample_hybrid_auth] jwt_sound_sample by simp
qed

text \<open>
  WebSocket authentication trusts the header. For a WebSocket request the hybrid
  authenticator returns exactly the value of the configured header and rejects a request
  without one; it is the header authenticator with the same header name, and it never looks at
  a token.
\<close>

lemma hybrid_envoy_header:
  assumes "ar_Protocol req = ProtocolWebSocket"
  shows "Hybrid_Authenticate parse a req = Envoy_Authenticate (wsa_HeaderName (ha_wsConfig a)) req \<and>
    (Hybrid_Authenticate parse a req = Inr u \<longleftrightarrow>
       u \<noteq> [] \<and> (\<exists>r. ar_HTTPRequest req = Some r \<and> Header_Get r (wsa_HeaderName (ha_wsConfig a)) = u)) \<and>
    (\<forall>e. Hybrid_Authenticate parse a req = Inl e \<longrightarrow> e = ErrMissingUserInfo)"
  using assms
  by (auto simp: Hybrid_Authenticate_def authenticateFromEnvoy_def Envoy_Authenticate_def Let_def split: option.splits)

text \<open>
  The JWT authenticator accepts a valid token whose subject is empty and returns the empty user
  ID, which the servers treat as an anonymous user that may connect.
\<close>

lemma jwt_empty_subject:
  assumes "ar_HTTPRequest req = Some r" and "request_token (ja_tokenSource a) (ja_tokenName a) r = token" and "token \<noteq> []"
    and "parse token (hmac_key (ja_secret a)) = Inr \<lparr>jwt_Valid = True, jwt_Claims = [(''sub'', ClaimString [])]\<rparr>"
  shows "JWT_Authenticate parse a req = Inr []"
  using assms by (simp add: JWT_Authenticate_def)

end
