(* ===== verification/Hybrid.thy ===== *)
theory Hybrid
  imports Fallback Authenticator Wt_Server
begin

text \<open>
  The hybrid server (\<^verbatim>\<open>hybrid/server.go\<close>): it builds a WebSocket and a WebTransport server that
  share one authenticator, keeps its own maps of the connections of both, fed by the handlers it
  passes to them, and answers protocol negotiation.
\<close>

section \<open>The server\<close>

text \<open>A member of go-zero's service group.\<close>

datatype service = WsService | WtService

record hybrid_server =
  hys_conf :: HybridConf
  hys_authenticator :: "authenticator option"
  hys_metrics :: string
  hys_fallback :: FallbackManager
  hys_wsServer :: ws_server
  hys_wtServer :: "wt_server option"
  hys_connections :: "(string, conn) gomap"
  hys_userConns :: "(string, string, conn) nested"
  hys_connCount :: int64
  hys_services :: "service list"
  hys_done :: bool
  hys_once :: bool

datatype HybridOption = HyWithMetrics string | HyWithAuthenticator authenticator

fun hy_apply_option :: "HybridOption \<Rightarrow> string option \<times> authenticator option \<Rightarrow> string option \<times> authenticator option" where
  "hy_apply_option (HyWithMetrics m) (metrics, auth) = (Some m, auth)"
| "hy_apply_option (HyWithAuthenticator a) (metrics, auth) = (metrics, Some a)"

text \<open>The environment of the constructors: go-zero's set-up, the operating system, TLS, and the JWT library.\<close>

record new_env =
  env_service_setup :: "go_error option"
  env_getenv :: "string \<Rightarrow> string"
  env_cert_io :: temp_io
  env_key_io :: temp_io
  env_load :: "string \<Rightarrow> string \<Rightarrow> go_error option"
  env_parse :: jwt_parse

text \<open>The default authenticator, when none is given and authentication is enabled.\<close>

definition hybrid_authenticator :: "jwt_parse \<Rightarrow> HybridConf \<Rightarrow> authenticator option \<Rightarrow> authenticator option" where
  "hybrid_authenticator parse conf given =
     (if given = None \<and> ah_Enabled (hc_Auth conf)
      then Some (Hybrid_Authenticate parse (NewHybridAuthenticator
             \<lparr>wsa_Source = ''envoy-header'', wsa_HeaderName = ah_WsHeaderName (hc_Auth conf)\<rparr>
             \<lparr>wta_TokenSource = ah_WtTokenSource (hc_Auth conf), wta_TokenName = ah_WtTokenName (hc_Auth conf),
              wta_JWTSecret = ah_WtJWTSecret (hc_Auth conf)\<rparr>))
      else given)"

text \<open>
  A failing WebSocket server ends the process (\<^verbatim>\<open>ws.MustNewServer\<close>, here \<open>Panics\<close>); a failing
  WebTransport server is only logged.
\<close>

definition hybrid_NewServer ::
  "new_env \<Rightarrow> HybridConf \<Rightarrow> HybridOption list \<Rightarrow> files \<Rightarrow> (hybrid_server \<times> files) outcome" where
  "hybrid_NewServer env conf0 opts fs =
     (let conf = HybridConf_SetUp conf0;
          (metrics0, auth0) = foldl (\<lambda>s opt. hy_apply_option opt s) (None, None) opts;
          name = (if hc_Name conf = [] then ws_Name (hc_Ws conf) else hc_Name conf);
          metrics = (case metrics0 of None \<Rightarrow> name | Some m \<Rightarrow> m);
          auth = hybrid_authenticator (env_parse env) conf auth0;
          wsOpts = (case auth of None \<Rightarrow> [] | Some a \<Rightarrow> [WithAuthenticator a]) @ [WithMetrics metrics];
          wtOpts = (case auth of None \<Rightarrow> [] | Some a \<Rightarrow> [WtWithAuthenticator a]) @ [WtWithMetrics metrics]
      in case ws_NewServer (env_service_setup env) (hc_Ws conf) wsOpts of
           Inl err \<Rightarrow> Panics
         | Inr ws \<Rightarrow>
             let (wt, fs') =
                   (if hc_Protocol conf \<noteq> PreferWebSocket \<and> (wt_CertFile (hc_Wt conf) \<noteq> [] \<or> wt_CertEnvVar (hc_Wt conf) \<noteq> [])
                    then (case wt_NewServer (env_getenv env) (env_cert_io env) (env_key_io env) (env_load env) (hc_Wt conf) wtOpts fs of
                            (Inl err, fs1) \<Rightarrow> (None, fs1)
                          | (Inr wt, fs1) \<Rightarrow> (Some wt, fs1))
                    else (None, fs))
             in Return (\<lparr>hys_conf = conf, hys_authenticator = auth, hys_metrics = metrics,
                         hys_fallback = NewFallbackManager conf (wt \<noteq> None), hys_wsServer = ws, hys_wtServer = wt,
                         hys_connections = [], hys_userConns = [], hys_connCount = 0,
                         hys_services = [], hys_done = False, hys_once = False\<rparr>, fs'))"

text \<open>
  The service group is go-zero's: it starts and stops each service that was added, in an order of
  its own. Starting the WebTransport server changes nothing here (the handler is given to the
  HTTP/3 library); \<^verbatim>\<open>httpServer\<close> is never set, so \<^verbatim>\<open>Stop\<close> has none to close.
\<close>

fun start_service :: "service \<Rightarrow> hybrid_server \<Rightarrow> hybrid_server" where
  "start_service WsService s = s\<lparr>hys_wsServer := ws_Start (hys_wsServer s)\<rparr>"
| "start_service WtService s = s"

definition hybrid_Start :: "service range_order \<Rightarrow> hybrid_server \<Rightarrow> hybrid_server" where
  "hybrid_Start sgo s =
     (let s1 = s\<lparr>hys_services := hys_services s @ [WsService]\<rparr>;
          s2 = (if hys_wtServer s1 \<noteq> None then s1\<lparr>hys_services := hys_services s1 @ [WtService]\<rparr> else s1)
      in foldl (\<lambda>s x. start_service x s) s2 (sgo 0 (hys_services s2)))"

fun stop_service ::
  "(wt_ref \<Rightarrow> wt_io) \<Rightarrow> (string \<times> wt_ref) range_order \<Rightarrow> (string \<Rightarrow> bool) \<Rightarrow> service \<Rightarrow>
     hybrid_server \<times> wt_heap \<times> files \<Rightarrow> (hybrid_server \<times> wt_heap \<times> files) outcome" where
  "stop_service io ord removable WsService (s, h, fs) =
     bind_outcome (ws_Stop (hys_wsServer s)) (\<lambda>ws. Return (s\<lparr>hys_wsServer := ws\<rparr>, h, fs))"
| "stop_service io ord removable WtService (s, h, fs) =
     (case hys_wtServer s of
        None \<Rightarrow> Return (s, h, fs)
      | Some wt \<Rightarrow> bind_outcome (wt_Stop io ord removable (wt, h, fs))
          (\<lambda>(wt', h', fs'). Return (s\<lparr>hys_wtServer := Some wt'\<rparr>, h', fs')))"

fun stop_services ::
  "(wt_ref \<Rightarrow> wt_io) \<Rightarrow> (string \<times> wt_ref) range_order \<Rightarrow> (string \<Rightarrow> bool) \<Rightarrow> service list \<Rightarrow>
     hybrid_server \<times> wt_heap \<times> files \<Rightarrow> (hybrid_server \<times> wt_heap \<times> files) outcome" where
  "stop_services io ord removable [] s = Return s"
| "stop_services io ord removable (x # xs) s =
     bind_outcome (stop_service io ord removable x s) (stop_services io ord removable xs)"

definition hybrid_Stop ::
  "service range_order \<Rightarrow> (wt_ref \<Rightarrow> wt_io) \<Rightarrow> (string \<times> wt_ref) range_order \<Rightarrow> (string \<Rightarrow> bool) \<Rightarrow>
     hybrid_server \<times> wt_heap \<times> files \<Rightarrow> (hybrid_server \<times> wt_heap \<times> files) outcome" where
  "hybrid_Stop sgo io ord removable x =
     (let (s, h, fs) = x
      in if hys_once s then Return x
         else
           let s1 = s\<lparr>hys_once := True\<rparr>
           in if hys_done s1 then Panics
              else let s2 = s1\<lparr>hys_done := True\<rparr>
                   in stop_services io ord removable (sgo 1 (hys_services s2)) (s2, h, fs))"

definition hybrid_Protocol :: "hybrid_server \<Rightarrow> Protocol" where
  "hybrid_Protocol s = ProtocolWebSocket"

definition GetProtocolInfo :: "hybrid_server \<Rightarrow> ProtocolInfo list" where
  "GetProtocolInfo s =
     [\<lparr>pi_Protocol = ProtocolWebSocket, pi_Available = True, pi_Addr = ws_Addr (hc_Ws (hys_conf s)),
       pi_Path = ws_Path (hc_Ws (hys_conf s)), pi_Priority = 1\<rparr>] @
     (if hys_wtServer s \<noteq> None
      then [\<lparr>pi_Protocol = ProtocolWebTransport, pi_Available = True, pi_Addr = wt_Addr (hc_Wt (hys_conf s)),
             pi_Path = wt_Path (hc_Wt (hys_conf s)), pi_Priority = 2\<rparr>] else [])"

definition generateSessionID :: "int64 \<Rightarrow> string" where
  "generateSessionID now = show_int (sint now)"

text \<open>The decoded body is an argument; the answer is a status code or the message to encode.\<close>

definition handleNegotiate ::
  "go_error + ClientHello \<Rightarrow> HTTPRequest \<Rightarrow> int64 \<Rightarrow> int64 \<Rightarrow> hybrid_server \<Rightarrow> nat + ServerHello" where
  "handleNegotiate body r unix nano s =
     (case body of
        Inl err \<Rightarrow> Inl 400
      | Inr hello \<Rightarrow>
          Inr \<lparr>sh_Protocol = SelectProtocol (hys_fallback s) hello, sh_Version = ''1.0'',
               sh_ServerID = ''hybrid-'' @ show_int (sint unix), sh_SessionID = generateSessionID nano,
               sh_FallbackURL = ''ws://'' @ req_Host r @ ws_Path (hc_Ws (hys_conf s))\<rparr>)"

section \<open>Connection management\<close>

definition hybrid_RegisterConnection :: "conn \<Rightarrow> hybrid_server \<times> world \<Rightarrow> hybrid_server \<times> world" where
  "hybrid_RegisterConnection c s =
     (let s1 = (fst s)\<lparr>hys_connections := mapassign (conn_ID (snd s) c) c (hys_connections (fst s))\<rparr>
      in (s1\<lparr>hys_connCount := hys_connCount s1 + 1\<rparr>, snd s))"

definition hybrid_UnregisterConnection :: "conn \<Rightarrow> hybrid_server \<times> world \<Rightarrow> hybrid_server \<times> world" where
  "hybrid_UnregisterConnection c s =
     (let connID = conn_ID (snd s) c;
          s1 = (fst s)\<lparr>hys_connections := mapdelete connID (hys_connections (fst s))\<rparr>;
          userID = conn_UserID (snd s) c;
          s2 = (if userID \<noteq> [] then s1\<lparr>hys_userConns := unbind_in userID connID (hys_userConns s1)\<rparr> else s1)
      in (s2\<lparr>hys_connCount := hys_connCount s2 - 1\<rparr>, snd s))"

definition hybrid_BindUser :: "conn \<Rightarrow> string \<Rightarrow> hybrid_server \<times> world \<Rightarrow> hybrid_server \<times> world" where
  "hybrid_BindUser c userID s =
     (let w = conn_SetUserID userID c (snd s)
      in ((fst s)\<lparr>hys_userConns := bind_in userID (conn_ID w c) c (hys_userConns (fst s))\<rparr>, w))"

definition hybrid_Broadcast ::
  "(nat \<Rightarrow> nat) \<Rightarrow> (string \<times> conn) range_order \<Rightarrow> bytes \<Rightarrow> hybrid_server \<Rightarrow> world \<Rightarrow> (world \<times> go_error option) outcome" where
  "hybrid_Broadcast ch ord msg s w =
     send_loop (\<lambda>i. conn_send_at (ch i) msg) (map snd (ord 0 (hys_connections s))) w None"

definition hybrid_BroadcastTo ::
  "(nat \<Rightarrow> nat \<Rightarrow> nat) \<Rightarrow> (string \<times> conn) range_order \<Rightarrow> string list \<Rightarrow> bytes \<Rightarrow> hybrid_server \<Rightarrow> world \<Rightarrow>
     (world \<times> go_error option) outcome" where
  "hybrid_BroadcastTo ch ord userIDs msg s w =
     send_users (\<lambda>i j. conn_send_at (ch i j) msg) ord 0 (hys_userConns s) userIDs w None"

definition hybrid_SendTo ::
  "(nat \<Rightarrow> nat) \<Rightarrow> (string \<times> conn) range_order \<Rightarrow> string \<Rightarrow> bytes \<Rightarrow> hybrid_server \<Rightarrow> world \<Rightarrow>
     (world \<times> go_error option) outcome" where
  "hybrid_SendTo ch ord userID msg s w =
     (case map_of (hys_userConns s) userID of
        None \<Rightarrow> Return (w, Some (OtherError ''*errors.errorString'' ''user not found''))
      | Some conns \<Rightarrow> send_loop (\<lambda>i. conn_send_at (ch i) msg) (map snd (ord 0 conns)) w None)"

definition hybrid_GetConnection :: "(string \<times> conn) range_order \<Rightarrow> hybrid_server \<Rightarrow> string \<Rightarrow> conn option" where
  "hybrid_GetConnection ord s userID = first_conn ord (hys_userConns s) userID"

definition hybrid_GetConnections :: "(string \<times> conn) range_order \<Rightarrow> hybrid_server \<Rightarrow> string list \<Rightarrow> conn list" where
  "hybrid_GetConnections ord s userIDs = collect_users ord 0 (hys_userConns s) userIDs"

definition hybrid_ConnectionCount :: "hybrid_server \<Rightarrow> int64" where
  "hybrid_ConnectionCount s = hys_connCount s"

definition hybrid_ForEachConnection ::
  "(string \<times> conn) range_order \<Rightarrow> (conn \<Rightarrow> 'a \<Rightarrow> 'a \<times> bool) \<Rightarrow> hybrid_server \<Rightarrow> 'a \<Rightarrow> 'a" where
  "hybrid_ForEachConnection ord fn s a = fst (foreach_conns fn (map snd (ord 0 (hys_connections s))) a)"

section \<open>The handlers given to the two servers\<close>

text \<open>\<open>proto\<close> is the protocol of the server that calls; what the user's handler returns is passed on.\<close>

fun hybrid_callback :: "Protocol \<Rightarrow> conn \<Rightarrow> callback \<Rightarrow> hybrid_server \<times> world \<Rightarrow> hybrid_server \<times> world" where
  "hybrid_callback proto c (OnConnect err) s =
     (let s1 = hybrid_RegisterConnection c s
      in ((fst s1)\<lparr>hys_fallback := RecordConnection proto (hys_fallback (fst s1))\<rparr>, snd s1))"
| "hybrid_callback proto c (OnMessage msg) s = s"
| "hybrid_callback proto c (OnDisconnect err) s = hybrid_UnregisterConnection c s"

definition hybrid_callbacks :: "Protocol \<Rightarrow> conn \<Rightarrow> callback list \<Rightarrow> hybrid_server \<times> world \<Rightarrow> hybrid_server \<times> world" where
  "hybrid_callbacks proto c xs s = foldl (\<lambda>s x. hybrid_callback proto c x s) s xs"

definition hybrid_maps_ok :: "hybrid_server \<Rightarrow> bool" where
  "hybrid_maps_ok s \<longleftrightarrow> gomap_ok (hys_connections s) \<and> nested_ok (hys_userConns s)"

text \<open>An environment in which every constructor succeeds.\<close>

definition sample_env :: new_env where
  "sample_env = \<lparr>env_service_setup = None, env_getenv = (\<lambda>_. ''pem''), env_cert_io = temp_ok,
     env_key_io = temp_ok\<lparr>tmp_create := Inr ''/tmp/wt-2.pem''\<rparr>, env_load = (\<lambda>_ _. None), env_parse = sample_parse\<rparr>"

section \<open>Lemmas\<close>

lemmas hybrid_registry_defs = hybrid_RegisterConnection_def hybrid_UnregisterConnection_def hybrid_BindUser_def

interpretation hyr: conn_registry "\<lambda>s. hybrid_maps_ok (fst s)" "\<lambda>s. map_of (hys_connections (fst s))"
  "\<lambda>s. user_view (hys_userConns (fst s))" "\<lambda>s. conn_ID (snd s)" "\<lambda>s. conn_UserID (snd s)"
  hybrid_RegisterConnection hybrid_UnregisterConnection hybrid_BindUser
  by unfold_locales (auto simp: hybrid_registry_defs hybrid_maps_ok_def Let_def fun_eq_iff)

lemma hybrid_callbacks_Cons:
  "hybrid_callbacks proto c (x # xs) s = hybrid_callbacks proto c xs (hybrid_callback proto c x s)"
  "hybrid_callbacks proto c [] s = s"
  by (simp_all add: hybrid_callbacks_def)

lemma hybrid_callbacks_messages [simp]:
  "hybrid_callbacks proto c (map OnMessage msgs @ xs) s = hybrid_callbacks proto c xs s"
  by (induction msgs) (simp_all add: hybrid_callbacks_Cons)

lemma hybrid_callbacks_only_messages [simp]: "hybrid_callbacks proto c (map OnMessage msgs) s = s"
  using hybrid_callbacks_messages [of proto c msgs "[]" s] by (simp add: hybrid_callbacks_Cons)

text \<open>A session that ends with OnDisconnect leaves maps and count as they were; one that does not stays.\<close>

lemma hybrid_full_session:
  assumes "hybrid_maps_ok (fst s)" and "map_of (hys_connections (fst s)) (conn_ID (snd s) c) = None"
    and "\<And>u. user_view (hys_userConns (fst s)) u (conn_ID (snd s) c) = None"
    and "s' = hybrid_callbacks proto c (OnConnect None # map OnMessage msgs @ [OnDisconnect err]) s"
  shows "map_of (hys_connections (fst s')) = map_of (hys_connections (fst s)) \<and>
    user_view (hys_userConns (fst s')) = user_view (hys_userConns (fst s)) \<and>
    hys_connCount (fst s') = hys_connCount (fst s)"
  using assms by (auto simp: hybrid_callbacks_Cons hybrid_registry_defs Let_def fun_eq_iff)

lemma hybrid_open_session:
  assumes "s' = hybrid_callbacks proto c (OnConnect e # map OnMessage msgs) s"
  shows "map_of (hys_connections (fst s')) (conn_ID (snd s) c) = Some c \<and> hys_connCount (fst s') = hys_connCount (fst s) + 1"
  using assms by (simp add: hybrid_callbacks_Cons hybrid_registry_defs Let_def)

lemma hybrid_NewServer_ws:
  assumes "hybrid_NewServer env conf opts fs = Return (s, fs')"
  shows "wss_conf (hys_wsServer s) = hc_Ws (HybridConf_SetUp conf)" and "hys_conf s = HybridConf_SetUp conf"
    and "fm_wtServer (hys_fallback s) = (hys_wtServer s \<noteq> None)" and "fm_conf (hys_fallback s) = HybridConf_SetUp conf"
  using assms
  by (auto simp: hybrid_NewServer_def ws_NewServer_def NewFallbackManager_def Let_def split: prod.splits sum.splits option.splits if_splits)

lemma SetUp_auth: "ws_Auth (hc_Ws (HybridConf_SetUp conf)) = ws_Auth (hc_Ws conf)" "hc_Auth (HybridConf_SetUp conf) = hc_Auth conf"
  "wt_Auth (hc_Wt (HybridConf_SetUp conf)) = wt_Auth (hc_Wt conf)" "hc_Protocol (HybridConf_SetUp conf) = hc_Protocol conf"
  by (simp_all add: HybridConf_SetUp_def Let_def)

text \<open>The state between \<^verbatim>\<open>Start\<close> and \<^verbatim>\<open>Stop\<close>.\<close>

definition hybrid_running :: "hybrid_server \<Rightarrow> bool" where
  "hybrid_running s \<longleftrightarrow> \<not> hys_once s \<and> \<not> hys_done s \<and>
     hys_services s = (if hys_wtServer s = None then [WsService] else [WsService, WtService]) \<and>
     wss_server (hys_wsServer s) \<noteq> None \<and> \<not> wss_once (hys_wsServer s) \<and> \<not> wss_done (hys_wsServer s) \<and>
     (\<forall>wt. hys_wtServer s = Some wt \<longrightarrow> \<not> wts_once wt \<and> \<not> wts_done wt)"

lemma wt_NewServer_unstopped:
  assumes "wt_NewServer getenv io1 io2 load conf opts fs = (Inr wt, fs')"
  shows "\<not> wts_once wt" "\<not> wts_done wt"
  using assms by (auto simp: wt_NewServer_def Let_def split: prod.splits option.splits if_splits)

text \<open>A permutation of the one or two services of a hybrid server.\<close>

lemma service_orders:
  "order_ok ord \<Longrightarrow> ord i [x] = [x]"
  "order_ok ord \<Longrightarrow> ord i [x, y] = [x, y] \<or> ord i [x, y] = [y, x]"
proof -
  assume "order_ok ord"
  then have m: "mset (ord i xs) = mset xs" for xs by (simp add: order_ok_def)
  show "ord i [x] = [x]" using m [of "[x]"] by simp
  show "ord i [x, y] = [x, y] \<or> ord i [x, y] = [y, x]"
    using m [of "[x, y]"] by (cases "ord i [x, y]" rule: remdups_adj.cases) (auto simp: add_eq_conv_ex)
qed

lemma start_services_wt: "hys_wtServer (foldl (\<lambda>s x. start_service x s) s xs) = hys_wtServer s"
proof (induction xs arbitrary: s)
  case (Cons x xs)
  then show ?case by (cases x) auto
qed simp

lemma start_services_once: "hys_once (foldl (\<lambda>s x. start_service x s) s xs) = hys_once s"
proof (induction xs arbitrary: s)
  case (Cons x xs)
  then show ?case by (cases x) auto
qed simp

lemma hybrid_NewServer_Start:
  assumes "hybrid_NewServer env conf opts fs = Return (s, fs')" and "order_ok sgo"
  shows "hybrid_running (hybrid_Start sgo s)"
proof -
  have init: "\<not> hys_once s \<and> \<not> hys_done s \<and> hys_services s = [] \<and> \<not> wss_once (hys_wsServer s) \<and>
      \<not> wss_done (hys_wsServer s) \<and> (\<forall>wt. hys_wtServer s = Some wt \<longrightarrow> \<not> wts_once wt \<and> \<not> wts_done wt)"
    using assms(1)
    by (auto simp: hybrid_NewServer_def ws_NewServer_def Let_def dest: wt_NewServer_unstopped
        split: prod.splits sum.splits option.splits if_splits)
  then show ?thesis
    using service_orders(1) [OF assms(2), of 0 WsService] service_orders(2) [OF assms(2), of 0 WsService WtService]
    by (auto simp: hybrid_Start_def hybrid_running_def ws_Start_def Let_def)
qed

text \<open>
  Stop before Start: the group is empty, so neither server is stopped, the temporary TLS files
  stay, and a later Stop does nothing any more.
\<close>

lemma hybrid_stop_before_start:
  assumes "hybrid_NewServer env conf opts fs0 = Return (s, fs)" and "order_ok sgo"
  shows "\<exists>s'. hybrid_Stop sgo io ord rm (s, h, fs) = Return (s', h, fs) \<and> hys_wsServer s' = hys_wsServer s \<and>
    hys_wtServer s' = hys_wtServer s \<and>
    hybrid_Stop sgo io ord rm (hybrid_Start sgo s', h, fs) = Return (hybrid_Start sgo s', h, fs)"
proof -
  have "\<not> hys_once s \<and> \<not> hys_done s \<and> hys_services s = []"
    using assms(1) by (auto simp: hybrid_NewServer_def Let_def split: prod.splits sum.splits option.splits if_splits)
  then have stop: "hybrid_Stop sgo io ord rm (s, h, fs) = Return (s\<lparr>hys_once := True, hys_done := True\<rparr>, h, fs)"
    using assms(2) by (simp add: hybrid_Stop_def Let_def)
  have "hys_once (hybrid_Start sgo (s\<lparr>hys_once := True, hys_done := True\<rparr>))"
    using start_services_once by (simp add: hybrid_Start_def Let_def)
  then show ?thesis using stop by (auto simp: hybrid_Stop_def Let_def)
qed

lemma sample_hybrid:
  obtains s fs wt where "hybrid_NewServer sample_env sample_HybridConf [] {} = Return (s, fs)" and "hys_wtServer s = Some wt"
proof -
  have conf: "hc_Protocol (HybridConf_SetUp sample_HybridConf) = ''auto''" "hc_Wt (HybridConf_SetUp sample_HybridConf) = sample_WtConf"
    by (simp_all add: HybridConf_SetUp_def sample_HybridConf_def sample_WtConf_def Let_def)
  have env: "env_service_setup sample_env = None" by (simp add: sample_env_def)
  have wt: "\<exists>wt fs. wt_NewServer (env_getenv sample_env) (env_cert_io sample_env) (env_key_io sample_env) (env_load sample_env)
      sample_WtConf opts {} = (Inr wt, fs)" for opts
    by (simp add: wt_NewServer_def WtConf_SetUp_def resolveCertFile_def resolveKeyFile_def writeTempFile_def sample_WtConf_def
        sample_env_def temp_ok_def Let_def split: prod.splits)
  have "wt_CertEnvVar sample_WtConf \<noteq> []" "''auto'' \<noteq> PreferWebSocket" by (simp_all add: sample_WtConf_def PreferWebSocket_def)
  then have "\<exists>s fs wt. hybrid_NewServer sample_env sample_HybridConf [] {} = Return (s, fs) \<and> hys_wtServer s = Some wt"
    using wt [of "(case hybrid_authenticator (env_parse sample_env) (HybridConf_SetUp sample_HybridConf) None of
        None \<Rightarrow> [] | Some a \<Rightarrow> [WtWithAuthenticator a]) @
        [WtWithMetrics (if hc_Name (HybridConf_SetUp sample_HybridConf) = [] then ws_Name (hc_Ws (HybridConf_SetUp sample_HybridConf))
           else hc_Name (HybridConf_SetUp sample_HybridConf))]"]
    by (elim exE) (simp add: hybrid_NewServer_def conf env ws_NewServer_def WsConf_SetUp_def Let_def case_prod_beta)
  then show ?thesis using that by blast
qed

section \<open>Properties\<close>

text \<open>
  Negotiation agrees with what is offered. For a server in automatic mode the protocol
  in the answer to a client is one that GetProtocolInfo lists, and the fallback URL points to
  the WebSocket path that it lists; a body that cannot be decoded is answered with 400.
\<close>

lemma negotiate_offers_available:
  assumes "hybrid_NewServer env conf opts fs = Return (s, fs')" and "hc_Protocol conf = ProtocolAuto"
  shows "case handleNegotiate body r unix nano s of
      Inl code \<Rightarrow> code = 400 \<and> (\<exists>err. body = Inl err)
    | Inr answer \<Rightarrow> sh_Protocol answer \<in> pi_Protocol ` set (GetProtocolInfo s) \<and>
        (\<exists>info \<in> set (GetProtocolInfo s). pi_Protocol info = ProtocolWebSocket \<and>
           sh_FallbackURL answer = ''ws://'' @ req_Host r @ pi_Path info)"
proof -
  note ns = hybrid_NewServer_ws [OF assms(1)]
  have "PreferWebSocket \<noteq> ProtocolAuto" "PreferWebTransport \<noteq> ProtocolAuto"
    by (simp_all add: PreferWebSocket_def PreferWebTransport_def ProtocolAuto_def)
  then show ?thesis
    using assms(2) ns
    by (cases body) (auto simp: handleNegotiate_def GetProtocolInfo_def SelectProtocol_def selectAutoProtocol_def SetUp_auth)
qed

text \<open>
  C24. Stopping the hybrid server. After NewServer and Start, and with any WebTransport
  connections registered since, the first Stop returns, in whatever order the service group
  stops the two servers: both are stopped, every registered WebTransport connection is closed
  (its session exactly once), the others are left alone, and the temporary TLS files are gone. A
  second Stop changes nothing.
\<close>

theorem hybrid_stop:
  assumes "hybrid_NewServer env conf opts fs0 = Return (s0, fs)" and "order_ok sgo" and "order_ok ord"
    and "s = (hybrid_Start sgo s0)\<lparr>hys_wtServer := map_option (wts_connections_update (\<lambda>_. cs)) (hys_wtServer s0)\<rparr>"
    and "\<And>r. r \<in> snd ` set cs \<Longrightarrow> wt_conn_ok (h r)"
  shows "\<exists>s' h' fs'. hybrid_Stop sgo io ord (\<lambda>_. True) (s, h, fs) = Return (s', h', fs') \<and>
    hys_done s' \<and> wss_done (hys_wsServer s') \<and>
    (case hys_wtServer s0 of
       None \<Rightarrow> h' = h \<and> fs' = fs
     | Some wt0 \<Rightarrow> wts_done (the (hys_wtServer s')) \<and> fs' = fs - set (wt_tempFiles (wts_conf wt0)) \<and>
         (\<forall>r \<in> snd ` set cs. wtc_done (h' r) \<and> count_list (wtc_session (h' r)) (CloseSession 0 []) = 1) \<and>
         (\<forall>r. r \<notin> snd ` set cs \<longrightarrow> h' r = h r)) \<and>
    hybrid_Stop sgo io ord (\<lambda>_. True) (s', h', fs') = Return (s', h', fs')"
proof -
  have start: "hys_wtServer (hybrid_Start sgo s0) = hys_wtServer s0"
    using start_services_wt by (simp add: hybrid_Start_def Let_def)
  have run: "hybrid_running (hybrid_Start sgo s0)" by (rule hybrid_NewServer_Start [OF assms(1,2)])
  show ?thesis
  proof (cases "hys_wtServer s0")
    case None
    then show ?thesis
      using run start service_orders(1) [OF assms(2), of 1 WsService] assms(4)
      by (auto simp: hybrid_Stop_def hybrid_running_def ws_Stop_def Let_def)
  next
    case (Some wt0)
    let ?wt = "wts_connections_update (\<lambda>_. cs) wt0"
    obtain wt' h' fs' where stop: "wt_Stop io ord (\<lambda>_. True) (?wt, h, fs) = Return (wt', h', fs')" and "wts_done wt'"
      and "\<forall>r \<in> snd ` set cs. wtc_done (h' r) \<and> count_list (wtc_session (h' r)) (CloseSession 0 []) = 1"
      and "\<forall>r. r \<notin> snd ` set cs \<longrightarrow> h' r = h r" and "fs' = fs - set (wt_tempFiles (wts_conf wt0))"
      using wt_stop [of ?wt ord h io fs] run start Some assms(3,5) by (auto simp: hybrid_running_def)
    moreover define s' where "s' = s\<lparr>hys_once := True, hys_done := True, hys_wtServer := Some wt',
        hys_wsServer := (hys_wsServer s)\<lparr>wss_once := True, wss_done := True\<rparr>\<rparr>"
    moreover have "hybrid_Stop sgo io ord (\<lambda>_. True) (s, h, fs) = Return (s', h', fs')"
      using service_orders(2) [OF assms(2), of 1 WsService WtService]
    proof
      assume "sgo 1 [WsService, WtService] = [WsService, WtService]"
      then show ?thesis
        using Some run start stop assms(4)
        by (auto simp: hybrid_Stop_def hybrid_running_def ws_Stop_def s'_def Let_def)
    next
      assume "sgo 1 [WsService, WtService] = [WtService, WsService]"
      then show ?thesis
        using Some run start stop assms(4)
        by (auto simp: hybrid_Stop_def hybrid_running_def ws_Stop_def s'_def Let_def)
    qed
    ultimately show ?thesis
      using Some by (intro exI [of _ s'] exI [of _ h'] exI [of _ fs']) (simp add: hybrid_Stop_def)
  qed
qed

lemma hybrid_stop_witness:
  "\<exists>s0 fs s' h' fs'. hybrid_NewServer sample_env sample_HybridConf [] {} = Return (s0, fs) \<and>
     hys_wtServer s0 \<noteq> None \<and> wtc_done (h' (0 :: wt_ref)) \<and>
     hybrid_Stop (\<lambda>i xs. rev xs) (\<lambda>_ _ _. None) (\<lambda>i xs. xs) (\<lambda>_. True)
       ((hybrid_Start (\<lambda>i xs. rev xs) s0)\<lparr>hys_wtServer :=
          map_option (wts_connections_update (\<lambda>_. [(''a'', 0)])) (hys_wtServer s0)\<rparr>, sample_wt_heap, fs) = Return (s', h', fs')"
proof -
  obtain s0 fs wt where s: "hybrid_NewServer sample_env sample_HybridConf [] {} = Return (s0, fs)" "hys_wtServer s0 = Some wt"
    by (rule sample_hybrid)
  have "wt_conn_ok (sample_wt_heap r)" for r by (simp add: sample_wt_heap_def wt_conn_ok_New)
  moreover have "order_ok (\<lambda>i xs. rev xs)" by (simp add: order_ok_def)
  ultimately show ?thesis
    using hybrid_stop [OF s(1) _ order_ok_id refl, of "\<lambda>i xs. rev xs" "[(''a'', 0)]" sample_wt_heap "\<lambda>_ _ _. None"] s by fastforce
qed

end
