(* ===== verification/Hybrid_Sessions.thy ===== *)
theory Hybrid_Sessions
  imports Ws_Session Wt_Maps Hybrid
begin

text \<open>
  The maps of the hybrid server over the interleaved sessions of the WebSocket and the WebTransport
  server it has built. Each callback of one of the servers runs the hybrid handler at that
  moment. Shown here: the map of connections and the count are, at any time, the
  connections for which \<^verbatim>\<open>OnConnect\<close> was called and \<^verbatim>\<open>OnDisconnect\<close> was not; so WebSocket sessions are
  removed when they end (unless their \<^verbatim>\<open>OnConnect\<close> failed), WebTransport sessions never. The map of users
  stays empty, since nothing in the library binds a user in it.
\<close>

section \<open>Definitions\<close>

record hybrid_system =
  hsy_server :: hybrid_server
  hsy_ws :: ws_system
  hsy_wt :: wt_system

definition hybrid_world :: "hybrid_system \<Rightarrow> world" where
  "hybrid_world x = \<lparr>w_ws = sys_heap (hsy_ws x), w_wt = wsys_heap (hsy_wt x)\<rparr>"

text \<open>The calls of the WebTransport server to its handler.\<close>

fun wt_event_call :: "wt_event \<Rightarrow> (wt_ref \<times> callback) option" where
  "wt_event_call (WtConnect t err) = Some (t, OnConnect err)"
| "wt_event_call (WtStreamRead t sid (Inr msg)) = Some (t, OnMessage msg)"
| "wt_event_call ev = None"

text \<open>The state of the hybrid server after the call, if any.\<close>

definition hybrid_sees :: "Protocol \<Rightarrow> (conn \<times> callback) option \<Rightarrow> hybrid_system \<Rightarrow> hybrid_server" where
  "hybrid_sees proto call x =
     (case call of
        None \<Rightarrow> hsy_server x
      | Some (c, cb) \<Rightarrow> fst (hybrid_callback proto c cb (hsy_server x, hybrid_world x)))"

text \<open>No two connections of either server are created in the same nanosecond.\<close>

fun created :: "hybrid_system \<Rightarrow> conn \<Rightarrow> int64 option" where
  "created x (WsConn t) = th_created (sys_thread (hsy_ws x) t)"
| "created x (WtConn t) = wth_created (wsys_thread (hsy_wt x) t)"

fun ws_creates :: "ws_event \<Rightarrow> int64 option" where
  "ws_creates (Upgrade t err now) = Some now" | "ws_creates ev = None"

fun wt_creates :: "wt_event \<Rightarrow> int64 option" where
  "wt_creates (WtUpgrade t err now) = Some now" | "wt_creates ev = None"

inductive hybrid_reach :: "(nat \<Rightarrow> ws_io) \<Rightarrow> (nat \<Rightarrow> wt_io) \<Rightarrow> hybrid_system \<Rightarrow> hybrid_system \<Rightarrow> bool" for wsio wtio x0 where
  start: "hybrid_reach wsio wtio x0 x0"
| ws_step: "hybrid_reach wsio wtio x0 x \<Longrightarrow> (\<And>c. ws_creates ev = None \<or> ws_creates ev \<noteq> created x c) \<Longrightarrow>
    session_exec wsio ev (hsy_ws x) = Some (Return ws) \<Longrightarrow>
    hybrid_reach wsio wtio x0
      (x\<lparr>hsy_server := hybrid_sees ProtocolWebSocket (map_option (apfst WsConn) (event_call ev)) x, hsy_ws := ws\<rparr>)"
| wt_step: "hybrid_reach wsio wtio x0 x \<Longrightarrow> wt_event_ok ev \<Longrightarrow> (\<And>c. wt_creates ev = None \<or> wt_creates ev \<noteq> created x c) \<Longrightarrow>
    wt_exec wtio ev (hsy_wt x) = Some (Return wt) \<Longrightarrow>
    hybrid_reach wsio wtio x0
      (x\<lparr>hsy_server := hybrid_sees ProtocolWebTransport (map_option (apfst WtConn) (wt_event_call ev)) x, hsy_wt := wt\<rparr>)"

text \<open>A hybrid server that was built, with the sessions of its two servers before the first request.\<close>

definition hybrid_initial :: "hybrid_server \<Rightarrow> ws_server \<Rightarrow> wt_server \<Rightarrow> hybrid_system" where
  "hybrid_initial s ws wt = \<lparr>hsy_server = s, hsy_ws = initial_system ws, hsy_wt = wt_initial wt\<rparr>"

fun conn_calls :: "hybrid_system \<Rightarrow> conn \<Rightarrow> callback list" where
  "conn_calls x (WsConn t) = th_calls (sys_thread (hsy_ws x) t)"
| "conn_calls x (WtConn t) = wth_calls (wsys_thread (hsy_wt x) t)"

text \<open>Connected and not disconnected, as the handler sees it.\<close>

definition connected :: "hybrid_system \<Rightarrow> conn set" where
  "connected x = {c. \<exists>err msgs. conn_calls x c = OnConnect err # map OnMessage msgs}"

definition key_of :: "hybrid_system \<Rightarrow> conn \<Rightarrow> string option" where
  "key_of x c = map_option generateConnID (created x c)"

definition tracks :: "hybrid_server \<Rightarrow> conn set \<Rightarrow> (conn \<Rightarrow> string option) \<Rightarrow> bool" where
  "tracks s C key \<longleftrightarrow>
     (\<forall>k c. map_of (hys_connections s) k = Some c \<longleftrightarrow> c \<in> C \<and> key c = Some k) \<and>
     finite C \<and> hys_connCount s = of_nat (card C) \<and> hys_userConns s = []"

definition hybrid_inv :: "hybrid_system \<Rightarrow> bool" where
  "hybrid_inv x \<longleftrightarrow>
     (\<forall>c c' now. created x c = Some now \<longrightarrow> created x c' = Some now \<longrightarrow> c' = c) \<and>
     tracks (hsy_server x) (connected x) (key_of x)"

text \<open>A hybrid server without connections.\<close>

definition empty_hybrid :: hybrid_server where
  "empty_hybrid = \<lparr>hys_conf = sample_HybridConf, hys_authenticator = None, hys_metrics = [],
     hys_fallback = NewFallbackManager sample_HybridConf False, hys_wsServer = sample_server 100, hys_wtServer = None,
     hys_connections = [], hys_userConns = [], hys_connCount = 0, hys_services = [], hys_done = False, hys_once = False\<rparr>"

section \<open>What a callback does to the maps\<close>

lemma tracksD:
  assumes "tracks s C key"
  shows "map_of (hys_connections s) k = Some c \<longleftrightarrow> c \<in> C \<and> key c = Some k" "finite C"
    "hys_connCount s = of_nat (card C)" "hys_userConns s = []"
  using assms by (simp_all add: tracks_def)

lemma tracks_connect:
  assumes tr: "tracks s C key" and new: "c \<notin> C" and key: "key c = Some (conn_ID w c)" and inj: "\<And>c'. c' \<in> C \<Longrightarrow> key c' \<noteq> key c"
  shows "tracks (fst (hybrid_callback proto c (OnConnect err) (s, w))) (insert c C) key"
proof -
  let ?k = "conn_ID w c"
  note D = tracksD [OF tr]
  have "map_of (mapassign ?k c (hys_connections s)) k = Some c' \<longleftrightarrow> c' \<in> insert c C \<and> key c' = Some k" for k c'
  proof (cases "k = ?k")
    case True
    have "c' \<in> insert c C \<and> key c' = Some k \<longleftrightarrow> c' = c" using inj [of c'] key True by auto
    then show ?thesis using True by auto
  next
    case False
    then show ?thesis using D(1) [of k c'] key by auto
  qed
  moreover have "hys_connCount s + 1 = of_nat (card (insert c C))"
    using D(2,3) new by simp
  ultimately show ?thesis
    using D(2,4) by (simp add: tracks_def hybrid_RegisterConnection_def Let_def)
qed

lemma tracks_disconnect:
  assumes tr: "tracks s C key" and old: "c \<in> C" and key: "key c = Some (conn_ID w c)"
    and inj: "\<And>c'. c' \<in> C \<Longrightarrow> key c' = key c \<Longrightarrow> c' = c"
  shows "tracks (fst (hybrid_callback proto c (OnDisconnect err) (s, w))) (C - {c}) key"
proof -
  let ?k = "conn_ID w c"
  note D = tracksD [OF tr]
  have "map_of (mapdelete ?k (hys_connections s)) k = Some c' \<longleftrightarrow> c' \<in> C - {c} \<and> key c' = Some k" for k c'
  proof (cases "k = ?k")
    case True
    have "\<not> (c' \<in> C - {c} \<and> key c' = Some k)" 
    proof
      assume a: "c' \<in> C - {c} \<and> key c' = Some k"
      then have "key c' = key c" using key True by simp
      then show False using inj [of c'] a by blast
    qed
    then show ?thesis using True by simp
  next
    case False
    then have "\<not> (c' = c \<and> key c' = Some k)" using key by simp
    moreover have "map_of (mapdelete ?k (hys_connections s)) k = map_of (hys_connections s) k" using False by simp
    ultimately show ?thesis using D(1) [of k c'] by (metis Diff_iff singletonD)
  qed
  moreover have "card C = Suc (card (C - {c}))" using card.remove [OF D(2) old] .
  then have "hys_connCount s - 1 = of_nat (card (C - {c}))" using D(3) by simp
  moreover have "unbind_in u k [] = ([] :: (string, string, conn) nested)" for u k by (simp add: unbind_in_def)
  ultimately show ?thesis
    using D(2,4) by (simp add: tracks_def hybrid_UnregisterConnection_def Let_def)
qed

lemma tracks_cong: "tracks s C key \<Longrightarrow> (\<And>c. c \<in> C \<Longrightarrow> key' c = key c) \<Longrightarrow> tracks s C key'"
  by (auto simp: tracks_def)

section \<open>A step\<close>

lemma connected_append:
  "cs \<noteq> [] \<Longrightarrow> (\<exists>err msgs. cs @ [OnMessage m] = OnConnect err # map OnMessage msgs) \<longleftrightarrow> (\<exists>err msgs. cs = OnConnect err # map OnMessage msgs)"
  "\<not> (\<exists>err msgs. cs @ [OnDisconnect e] = OnConnect err # map OnMessage msgs)"
proof -
  assume "cs \<noteq> []"
  then obtain c cs' where cs: "cs = c # cs'" by (cases cs) auto
  have "(\<exists>msgs. cs' @ [OnMessage m] = map OnMessage msgs) \<longleftrightarrow> (\<exists>msgs. cs' = map OnMessage msgs)"
  proof
    assume "\<exists>msgs. cs' @ [OnMessage m] = map OnMessage msgs"
    then show "\<exists>msgs. cs' = map OnMessage msgs" by (auto simp: append_eq_map_conv)
  next
    assume "\<exists>msgs. cs' = map OnMessage msgs"
    then obtain msgs where "cs' = map OnMessage msgs" by blast
    then have "cs' @ [OnMessage m] = map OnMessage (msgs @ [m])" by simp
    then show "\<exists>msgs. cs' @ [OnMessage m] = map OnMessage msgs" by blast
  qed
  then show "(\<exists>err msgs. cs @ [OnMessage m] = OnConnect err # map OnMessage msgs) \<longleftrightarrow> (\<exists>err msgs. cs = OnConnect err # map OnMessage msgs)"
    using cs by auto
next
  have "OnDisconnect e \<notin> set (OnConnect err # map OnMessage msgs)" for err msgs by auto
  then show "\<not> (\<exists>err msgs. cs @ [OnDisconnect e] = OnConnect err # map OnMessage msgs)"
    by (metis in_set_conv_decomp)
qed

text \<open>
  What both kinds of step have in common: calls are added for one connection, a connection with calls
  keeps its time of creation, and the handler is called in the order of a session.
\<close>

definition adds :: "(conn \<times> callback) option \<Rightarrow> hybrid_system \<Rightarrow> hybrid_system \<Rightarrow> bool" where
  "adds call x x' \<longleftrightarrow>
     (\<forall>c. conn_calls x' c = conn_calls x c @ (case call of None \<Rightarrow> [] | Some (c', cb) \<Rightarrow> if c = c' then [cb] else [])) \<and>
     (\<forall>c. conn_calls x' c \<noteq> [] \<longrightarrow> created x' c = created x c) \<and>
     (case call of
        None \<Rightarrow> True
      | Some (c, OnConnect err) \<Rightarrow> conn_calls x c = [] \<and> key_of x c = Some (conn_ID (hybrid_world x) c)
      | Some (c, OnMessage msg) \<Rightarrow> conn_calls x c \<noteq> []
      | Some (c, OnDisconnect err) \<Rightarrow> c \<in> connected x \<and> key_of x c = Some (conn_ID (hybrid_world x) c))"

lemma key_of_inject:
  assumes "hybrid_inv x" and "key_of x c' = key_of x c" and "key_of x c = Some k"
  shows "c' = c"
  using assms unfolding hybrid_inv_def key_of_def by (auto simp: generateConnID_inject)

lemma connected_calls: "c \<in> connected x \<Longrightarrow> conn_calls x c \<noteq> []"
  by (auto simp: connected_def)

lemma adds_tracks:
  assumes inv: "hybrid_inv x" and adds: "adds call x x'" and srv: "hsy_server x' = hybrid_sees proto call x"
  shows "tracks (hsy_server x') (connected x') (key_of x')"
proof -
  have tr: "tracks (hsy_server x) (connected x) (key_of x)" using inv by (simp add: hybrid_inv_def)
  have calls: "conn_calls x' c = conn_calls x c @ (case call of None \<Rightarrow> [] | Some (c', cb) \<Rightarrow> if c = c' then [cb] else [])" for c
    using adds by (simp add: adds_def)
  have "conn_calls x' c \<noteq> [] \<Longrightarrow> key_of x' c = key_of x c" for c
    using adds by (simp add: adds_def key_of_def)
  then have key: "c \<in> connected x' \<Longrightarrow> key_of x' c = key_of x c" for c
    using connected_calls by blast
  have "tracks (hsy_server x') (connected x') (key_of x)"
  proof (cases call)
    case None
    then have "connected x' = connected x" using calls by (simp add: connected_def)
    then show ?thesis using tr None srv by (simp add: hybrid_sees_def)
  next
    case (Some p)
    obtain c cb where p: "p = (c, cb)" by (cases p)
    note call = Some [unfolded p]
    have mem: "c' \<in> connected x' \<longleftrightarrow> c' \<in> connected x" if "c' \<noteq> c" for c'
      using calls [of c'] that call by (simp add: connected_def)
    have own: "conn_calls x' c = conn_calls x c @ [cb]" using calls [of c] call by simp
    show ?thesis
    proof (cases cb)
      case (OnConnect err)
      have new: "conn_calls x c = []" and k: "key_of x c = Some (conn_ID (hybrid_world x) c)"
        using adds call OnConnect by (simp_all add: adds_def)
      have out: "c \<notin> connected x" using new connected_calls by blast
      have "conn_calls x' c = OnConnect err # map OnMessage []" using own new OnConnect by simp
      then have "c \<in> connected x'" unfolding connected_def by blast
      then have "connected x' = insert c (connected x)" using mem by (intro set_eqI) (metis insert_iff)
      moreover have "key_of x c' \<noteq> key_of x c" if "c' \<in> connected x" for c'
        using key_of_inject [OF inv _ k] that out by blast
      ultimately show ?thesis
        using tracks_connect [OF tr out k, of proto err] srv call OnConnect by (simp add: hybrid_sees_def)
    next
      case (OnMessage msg)
      have "conn_calls x c \<noteq> []" using adds call OnMessage by (simp add: adds_def)
      then have "c \<in> connected x' \<longleftrightarrow> c \<in> connected x"
        using connected_append(1) own OnMessage by (simp add: connected_def)
      then have "connected x' = connected x" using mem by (intro set_eqI) metis
      then show ?thesis using tr srv call OnMessage by (simp add: hybrid_sees_def)
    next
      case (OnDisconnect err)
      have old: "c \<in> connected x" and k: "key_of x c = Some (conn_ID (hybrid_world x) c)"
        using adds call OnDisconnect by (simp_all add: adds_def)
      have "c \<notin> connected x'" using connected_append(2) own OnDisconnect by (simp add: connected_def)
      then have "connected x' = connected x - {c}" using mem by (intro set_eqI) (metis Diff_iff insert_iff empty_iff)
      moreover have "c' = c" if "c' \<in> connected x" "key_of x c' = key_of x c" for c'
        using key_of_inject [OF inv that(2) k] .
      ultimately show ?thesis
        using tracks_disconnect [OF tr old k, of proto err] srv call OnDisconnect by (simp add: hybrid_sees_def)
    qed
  qed
  then show ?thesis by (rule tracks_cong) (rule key)
qed

section \<open>The steps of the two servers\<close>

lemmas wt_exec_defs = wt_update_defs wt_handle_check_def wt_handle_upgrade_def wt_handle_auth_def wt_handle_register_def
  wt_handle_connect_def wt_handle_select_def wt_handle_accept_def wt_handle_return_def handleStream_start_def
  handleStream_select_def handleStream_read_def wt_writePump_wait_def wt_writePump_round_def wt_other_send_def
  wt_other_close_def wt_other_stop_def Let_def

lemma wt_exec_calls:
  assumes "wt_exec io ev s = Some (Return s')"
  shows "wth_calls (wsys_thread s' t) = wth_calls (wsys_thread s t) @
    (case wt_event_call ev of None \<Rightarrow> [] | Some (t', x) \<Rightarrow> if t = t' then [x] else [])"
  using assms
  by (cases ev)
    (auto simp: wt_exec_defs split: if_splits option.splits sum.splits prod.splits wt_write_case.splits)

lemma wt_exec_created:
  assumes "wt_exec io ev s = Some (Return s')"
  shows "wth_created (wsys_thread s' t) = wth_created (wsys_thread s t) \<or>
    wth_pc (wsys_thread s t) = WtChecked \<and> wt_creates ev = wth_created (wsys_thread s' t) \<and> wt_event_call ev = None"
  using assms
  by (cases ev)
    (auto simp: wt_exec_defs split: if_splits option.splits sum.splits prod.splits wt_write_case.splits)

lemma ws_exec_created:
  assumes "session_exec io ev s = Some (Return s')"
  shows "th_created (sys_thread s' t) = th_created (sys_thread s t) \<or>
    th_pc (sys_thread s t) = Checked \<and> ws_creates ev = th_created (sys_thread s' t) \<and> event_call ev = None"
  using assms
  by (cases ev)
    (auto simp: exec_defs dest!: close_conn_thread split: if_splits option.splits sum.splits prod.splits ws_pc.splits read_pc.splits
       write_pc.splits write_case.splits)

lemma adds_ws:
  assumes inv: "session_inv (hsy_ws x)" and exec: "session_exec io ev (hsy_ws x) = Some (Return ws)"
  shows "adds (map_option (apfst WsConn) (event_call ev)) x (x\<lparr>hsy_server := srv, hsy_ws := ws\<rparr>)"
proof -
  note ok = session_invD(1) [OF inv]
  have calls: "th_calls (sys_thread ws t) = th_calls (sys_thread (hsy_ws x) t) @ event_calls ev t" for t
    by (rule exec_calls [OF exec])
  have "th_created (sys_thread ws t) = th_created (sys_thread (hsy_ws x) t)" if "th_calls (sys_thread ws t) \<noteq> []" for t
    using ws_exec_created [OF exec, of t] that calls [of t] ok [of t] by (auto simp: thread_ok_def event_calls_def)
  moreover have "case event_call ev of
        None \<Rightarrow> True
      | Some (t, OnConnect err) \<Rightarrow> th_calls (sys_thread (hsy_ws x) t) = [] \<and> key_of x (WsConn t) = Some (wsc_id (sys_heap (hsy_ws x) t))
      | Some (t, OnMessage msg) \<Rightarrow> th_calls (sys_thread (hsy_ws x) t) \<noteq> []
      | Some (t, OnDisconnect err) \<Rightarrow> WsConn t \<in> connected x \<and> key_of x (WsConn t) = Some (wsc_id (sys_heap (hsy_ws x) t))"
  proof -
    have key: "key_of x (WsConn t) = Some (wsc_id (sys_heap (hsy_ws x) t))" if "th_pc (sys_thread (hsy_ws x) t) \<notin> {Idle, Checked, Finished}" for t
      using thread_okD(1) [OF ok [of t]] that by (auto simp: key_of_def)
    have "calls_ok (th_pc (sys_thread (hsy_ws x) t)) (th_calls (sys_thread (hsy_ws x) t))" for t
      using ok [of t] by (simp add: thread_ok_def)
    note c = this
    show ?thesis
    proof (cases ev)
      case (Connect t err)
      then show ?thesis using exec key [of t] c [of t] by (auto split: if_splits)
    next
      case (ReadMessage t msg)
      then show ?thesis using exec c [of t] by (auto split: ws_pc.splits read_pc.splits)
    next
      case (ReadError t err)
      then show ?thesis using exec key [of t] c [of t] by (auto simp: connected_def split: ws_pc.splits read_pc.splits)
    qed simp_all
  qed
  moreover have "conn_calls (x\<lparr>hsy_server := srv, hsy_ws := ws\<rparr>) c = conn_calls x c @
      (case map_option (apfst WsConn) (event_call ev) of None \<Rightarrow> [] | Some (c', cb) \<Rightarrow> if c = c' then [cb] else [])" for c
    using calls by (cases c) (auto simp: event_calls_def split: option.split)
  moreover have "created (x\<lparr>hsy_server := srv, hsy_ws := ws\<rparr>) c = created x c"
    if "conn_calls (x\<lparr>hsy_server := srv, hsy_ws := ws\<rparr>) c \<noteq> []" for c
    using calculation(1) that by (cases c) simp_all
  ultimately show ?thesis
    unfolding adds_def by (auto simp: hybrid_world_def split: option.split callback.split)
qed

lemma adds_wt:
  assumes inv: "wt_inv (hsy_wt x)" "wt_exact (hsy_wt x)" and exec: "wt_exec io ev (hsy_wt x) = Some (Return wt)"
  shows "adds (map_option (apfst WtConn) (wt_event_call ev)) x (x\<lparr>hsy_server := srv, hsy_wt := wt\<rparr>)"
proof -
  note ok = wt_invD(1) [OF inv(1)]
  note calls = wt_exec_calls [OF exec]
  have "wth_created (wsys_thread wt t) = wth_created (wsys_thread (hsy_wt x) t)" if "wth_calls (wsys_thread wt t) \<noteq> []" for t
    using wt_exec_created [OF exec, of t] that calls [of t] ok [of t] by (auto simp: wt_thread_ok_def)
  moreover have "case wt_event_call ev of
        None \<Rightarrow> True
      | Some (t, OnConnect err) \<Rightarrow> wth_calls (wsys_thread (hsy_wt x) t) = [] \<and> key_of x (WtConn t) = Some (wtc_id (wsys_heap (hsy_wt x) t))
      | Some (t, OnMessage msg) \<Rightarrow> wth_calls (wsys_thread (hsy_wt x) t) \<noteq> []
      | Some (t, OnDisconnect err) \<Rightarrow> False"
  proof (cases "\<exists>t err. ev = WtConnect t err")
    case True
    then obtain t err where ev: "ev = WtConnect t err" by blast
    then have pc: "wth_pc (wsys_thread (hsy_wt x) t) = WtJoined" using exec by (auto split: if_splits)
    have "session_view (hsy_wt x) t = (wth_created (wsys_thread (hsy_wt x) t), Registered,
        Some (wt_auth_result (wsys_server (hsy_wt x)) (wsys_thread (hsy_wt x) t), wtc_id (wsys_heap (hsy_wt x) t), wt_UserID (wsys_heap (hsy_wt x) t)))"
      using pc by (simp add: session_view_def)
    then have "\<exists>now. wth_created (wsys_thread (hsy_wt x) t) = Some now \<and> wtc_id (wsys_heap (hsy_wt x) t) = wt_generateConnID now"
      using inv(2) unfolding wt_exact_def views_ok_def by blast
    then show ?thesis
      using ok [of t] pc ev by (auto simp: wt_thread_ok_def key_of_def generateConnID_def wt_generateConnID_def)
  next
    case False
    then show ?thesis using exec ok unfolding wt_thread_ok_def
      by (auto elim!: wt_event_call.elims split: if_splits option.splits callback.splits)
  qed
  moreover have "conn_calls (x\<lparr>hsy_server := srv, hsy_wt := wt\<rparr>) c = conn_calls x c @
      (case map_option (apfst WtConn) (wt_event_call ev) of None \<Rightarrow> [] | Some (c', cb) \<Rightarrow> if c = c' then [cb] else [])" for c
    using calls by (cases c) (auto split: option.split)
  moreover have "created (x\<lparr>hsy_server := srv, hsy_wt := wt\<rparr>) c = created x c"
    if "conn_calls (x\<lparr>hsy_server := srv, hsy_wt := wt\<rparr>) c \<noteq> []" for c
    using calculation(1) that by (cases c) simp_all
  ultimately show ?thesis
    unfolding adds_def by (auto simp: hybrid_world_def split: option.split callback.split)
qed

lemma created_after:
  assumes "hybrid_inv x" and "\<And>c. create = None \<or> create \<noteq> created x c"
    and "\<And>c. created x' c = created x c \<or> c = c0 \<and> created x' c = create"
    and "created x' c = Some now" and "created x' c' = Some now"
  shows "c' = c"
  using assms unfolding hybrid_inv_def by (metis option.distinct(1))

lemma creates_at: "ws_creates ev \<noteq> None \<Longrightarrow> session_exec io ev s = Some (Return s') \<Longrightarrow> \<exists>t. \<forall>t'. t' \<noteq> t \<longrightarrow> th_created (sys_thread s' t') = th_created (sys_thread s t')"
  "wt_creates e \<noteq> None \<Longrightarrow> wt_exec wio e u = Some (Return u') \<Longrightarrow> \<exists>t. \<forall>t'. t' \<noteq> t \<longrightarrow> wth_created (wsys_thread u' t') = wth_created (wsys_thread u t')"
proof -
  assume "ws_creates ev \<noteq> None" "session_exec io ev s = Some (Return s')"
  then show "\<exists>t. \<forall>t'. t' \<noteq> t \<longrightarrow> th_created (sys_thread s' t') = th_created (sys_thread s t')"
    by (intro exI [of _ "case ev of Upgrade t _ _ \<Rightarrow> t | _ \<Rightarrow> 0"], cases ev) (auto simp: exec_defs split: if_splits option.splits)
next
  assume "wt_creates e \<noteq> None" "wt_exec wio e u = Some (Return u')"
  then show "\<exists>t. \<forall>t'. t' \<noteq> t \<longrightarrow> wth_created (wsys_thread u' t') = wth_created (wsys_thread u t')"
    by (intro exI [of _ "case e of WtUpgrade t _ _ \<Rightarrow> t | _ \<Rightarrow> 0"], cases e) (auto simp: wt_handle_upgrade_def wt_update_defs Let_def split: if_splits option.splits)
qed

lemma ws_created_conn:
  assumes "session_exec io ev (hsy_ws x) = Some (Return ws)"
  shows "\<exists>c0. \<forall>c. created (x\<lparr>hsy_server := srv, hsy_ws := ws\<rparr>) c = created x c \<or>
    c = c0 \<and> created (x\<lparr>hsy_server := srv, hsy_ws := ws\<rparr>) c = ws_creates ev"
proof -
  obtain t where t: "\<And>t'. ws_creates ev \<noteq> None \<Longrightarrow> t' \<noteq> t \<Longrightarrow> th_created (sys_thread ws t') = th_created (sys_thread (hsy_ws x) t')"
    using creates_at(1) [OF _ assms] by metis
  have "created (x\<lparr>hsy_server := srv, hsy_ws := ws\<rparr>) c = created x c \<or>
    c = WsConn t \<and> created (x\<lparr>hsy_server := srv, hsy_ws := ws\<rparr>) c = ws_creates ev" for c
  proof (cases c)
    case (WsConn t')
    show ?thesis
    proof (cases "ws_creates ev = None")
      case True
      then have "th_created (sys_thread ws t') = th_created (sys_thread (hsy_ws x) t')"
        using assms by (cases ev) (auto simp: exec_defs dest!: close_conn_thread
          split: if_splits option.splits sum.splits prod.splits ws_pc.splits read_pc.splits write_pc.splits write_case.splits)
      then show ?thesis using WsConn by simp
    next
      case False
      then show ?thesis using WsConn ws_exec_created [OF assms, of t'] t [of t'] by auto
    qed
  qed simp
  then show ?thesis by blast
qed

lemma wt_created_conn:
  assumes "wt_exec io ev (hsy_wt x) = Some (Return wt)"
  shows "\<exists>c0. \<forall>c. created (x\<lparr>hsy_server := srv, hsy_wt := wt\<rparr>) c = created x c \<or>
    c = c0 \<and> created (x\<lparr>hsy_server := srv, hsy_wt := wt\<rparr>) c = wt_creates ev"
proof -
  obtain t where t: "\<And>t'. wt_creates ev \<noteq> None \<Longrightarrow> t' \<noteq> t \<Longrightarrow> wth_created (wsys_thread wt t') = wth_created (wsys_thread (hsy_wt x) t')"
    using creates_at(2) [OF _ assms] by metis
  have "created (x\<lparr>hsy_server := srv, hsy_wt := wt\<rparr>) c = created x c \<or>
    c = WtConn t \<and> created (x\<lparr>hsy_server := srv, hsy_wt := wt\<rparr>) c = wt_creates ev" for c
  proof (cases c)
    case (WtConn t')
    show ?thesis
    proof (cases "wt_creates ev = None")
      case True
      then have "wth_created (wsys_thread wt t') = wth_created (wsys_thread (hsy_wt x) t')"
        using assms by (cases ev) (auto simp: wt_exec_defs split: if_splits option.splits sum.splits prod.splits wt_write_case.splits)
      then show ?thesis using WtConn by simp
    next
      case False
      then show ?thesis using WtConn wt_exec_created [OF assms, of t'] t [of t'] by auto
    qed
  qed simp
  then show ?thesis by blast
qed

section \<open>Reachable states\<close>

lemma hybrid_reach_sides:
  assumes "hybrid_reach wsio wtio (hybrid_initial s ws wt) x"
  shows "session_reach wsio (initial_system ws) (hsy_ws x)" and "wt_timed_reach wtio (wt_initial wt) (hsy_wt x)"
proof -
  have "session_reach wsio (initial_system ws) (hsy_ws x) \<and> wt_timed_reach wtio (wt_initial wt) (hsy_wt x)"
    using assms
  proof (induction rule: hybrid_reach.induct)
    case start
    show ?case by (simp add: hybrid_initial_def session_reach.start wt_timed_reach.start)
  next
    case (ws_step x ev ws')
    have "event_ok ev (hsy_ws x)"
    proof (cases ev)
      case (Upgrade t err now)
      then show ?thesis using ws_step.hyps(2) [of "WsConn _"] by (auto simp: eq_commute)
    qed simp_all
    then show ?case using ws_step session_reach.step by simp blast
  next
    case (wt_step x ev wt')
    have "creation_ok ev (hsy_wt x)"
    proof (cases ev)
      case (WtUpgrade t err now)
      then show ?thesis using wt_step.hyps(3) [of "WtConn _"] by (auto simp: eq_commute)
    qed simp_all
    then show ?case using wt_step wt_timed_reach.step by simp blast
  qed
  then show "session_reach wsio (initial_system ws) (hsy_ws x)" "wt_timed_reach wtio (wt_initial wt) (hsy_wt x)" by simp_all
qed

lemma hybrid_inv_reach:
  assumes "hybrid_reach wsio wtio (hybrid_initial s ws wt) x" and "fresh_server ws" and "wt_fresh_server wt"
    and "hys_connections s = []" and "hys_userConns s = []" and "hys_connCount s = 0"
  shows "hybrid_inv x"
  using assms(1)
proof (induction rule: hybrid_reach.induct)
  case start
  have "created (hybrid_initial s ws wt) c = None" "conn_calls (hybrid_initial s ws wt) c = []" for c
    by (cases c; simp add: hybrid_initial_def initial_system_def wt_initial_def idle_thread_def wt_idle_thread_def)+
  then show ?case
    using assms(4-6) by (simp add: hybrid_inv_def tracks_def connected_def hybrid_initial_def)
next
  case (ws_step x ev ws')
  note sides = hybrid_reach_sides [OF ws_step.hyps(1)]
  let ?x = "x\<lparr>hsy_server := hybrid_sees ProtocolWebSocket (map_option (apfst WsConn) (event_call ev)) x, hsy_ws := ws'\<rparr>"
  obtain c0 where "\<And>c. created ?x c = created x c \<or> c = c0 \<and> created ?x c = ws_creates ev"
    using ws_created_conn [OF ws_step.hyps(3)] by blast
  then have "\<forall>c c' now. created ?x c = Some now \<longrightarrow> created ?x c' = Some now \<longrightarrow> c' = c"
    using created_after [OF ws_step.IH ws_step.hyps(2)] by blast
  moreover have "adds (map_option (apfst WsConn) (event_call ev)) x ?x"
    by (rule adds_ws [OF session_inv_reach [OF sides(1) assms(2)] ws_step.hyps(3)])
  ultimately show ?case using adds_tracks [OF ws_step.IH, of _ ?x ProtocolWebSocket] by (simp add: hybrid_inv_def)
next
  case (wt_step x ev wt')
  note sides = hybrid_reach_sides [OF wt_step.hyps(1)]
  let ?x = "x\<lparr>hsy_server := hybrid_sees ProtocolWebTransport (map_option (apfst WtConn) (wt_event_call ev)) x, hsy_wt := wt'\<rparr>"
  obtain c0 where "\<And>c. created ?x c = created x c \<or> c = c0 \<and> created ?x c = wt_creates ev"
    using wt_created_conn [OF wt_step.hyps(4)] by blast
  then have "\<forall>c c' now. created ?x c = Some now \<longrightarrow> created ?x c' = Some now \<longrightarrow> c' = c"
    using created_after [OF wt_step.IH wt_step.hyps(3)] by blast
  moreover have "adds (map_option (apfst WtConn) (wt_event_call ev)) x ?x"
    by (rule adds_wt [OF wt_inv_reach [OF wt_timed_reach_reach [OF sides(2)] assms(3)] wt_exact_reach [OF sides(2) assms(3)] wt_step.hyps(4)])
  ultimately show ?case using adds_tracks [OF wt_step.IH, of _ ?x ProtocolWebTransport] by (simp add: hybrid_inv_def)
qed

text \<open>The runs of the WebTransport server alone are runs of the hybrid server.\<close>

lemma wt_run_hybrid:
  assumes "wt_timed_reach wtio (wt_initial wt) st"
  shows "\<exists>x. hybrid_reach wsio wtio (hybrid_initial s ws wt) x \<and> hsy_ws x = initial_system ws \<and> hsy_wt x = st"
  using assms
proof (induction rule: wt_timed_reach.induct)
  case start
  then show ?case using hybrid_reach.start by (fastforce simp: hybrid_initial_def)
next
  case (step st ev st')
  then obtain x where x: "hybrid_reach wsio wtio (hybrid_initial s ws wt) x" "hsy_ws x = initial_system ws" "hsy_wt x = st" by blast
  have "wt_creates ev = None \<or> wt_creates ev \<noteq> created x c" for c
    using step.hyps(3) x(2,3) by (cases ev; cases c) (auto simp: initial_system_def idle_thread_def eq_commute)
  then show ?case using hybrid_reach.wt_step [OF x(1) step.hyps(2)] step.hyps(4) x(2,3) by fastforce
qed

section \<open>Properties\<close>



end
