(* ===== verification/Conn_World.thy ===== *)
theory Conn_World
  imports Connection
begin

text \<open>
  The store of connection objects as the users of the \<^verbatim>\<open>protocol.Connection\<close> interface see it:
  \<^verbatim>\<open>SendJSON\<close> through the interface, the metadata of a connection, the invariant of all the
  objects, and what each call of the interface changes.
\<close>

section \<open>Definitions\<close>

definition conn_SendJSON ::
  "('v \<Rightarrow> go_error + bytes) \<Rightarrow> nat \<Rightarrow> 'v \<Rightarrow> conn \<Rightarrow> world \<Rightarrow> (world \<times> go_error option) outcome" where
  "conn_SendJSON marshal choice v c w =
     (case marshal v of Inl err \<Rightarrow> Return (w, Some err) | Inr data \<Rightarrow> conn_send_at choice data c w)"

fun conn_meta :: "world \<Rightarrow> conn \<Rightarrow> string \<rightharpoonup> any" where
  "conn_meta w (WsConn r) = map_of (wsc_metadata (w_ws w r))"
| "conn_meta w (WtConn r) = map_of (wtc_metadata (w_wt w r))"

definition world_ok :: "world \<Rightarrow> bool" where
  "world_ok w \<longleftrightarrow>
     (\<forall>r. ws_conn_ok (w_ws w r) \<and> gomap_ok (wsc_metadata (w_ws w r))) \<and>
     (\<forall>r. wt_conn_ok (w_wt w r) \<and> gomap_ok (wtc_metadata (w_wt w r)))"

text \<open>\<^verbatim>\<open>v, _ := x.(string)\<close> and \<^verbatim>\<open>v, _ := x.(int64)\<close> on the value of a key that may be missing.\<close>

fun any_string :: "any option \<Rightarrow> string" where
  "any_string (Some (AnyString s)) = s"
| "any_string _ = []"

fun any_int :: "any option \<Rightarrow> int64" where
  "any_int (Some (AnyInt i)) = i"
| "any_int _ = 0"

section \<open>Lemmas\<close>

lemma conn_Metadata_meta: "world_ok w \<Longrightarrow> order_ok ord \<Longrightarrow> map_of (conn_Metadata ord w c) = conn_meta w c"
  by (cases c) (simp_all add: metadata_copy world_ok_def ws_Metadata_def wt_Metadata_def map_of_copy)

text \<open>Setting the user ID.\<close>

lemma conn_meta_SetUserID [simp]: "conn_meta (conn_SetUserID u c w) = conn_meta w"
proof
  fix d show "conn_meta (conn_SetUserID u c w) d = conn_meta w d"
    by (cases c; cases d) (simp_all add: ws_SetUserID_def wt_SetUserID_def)
qed

lemma conn_queue_SetUserID [simp]: "conn_queue (conn_SetUserID u c w) = conn_queue w"
proof
  fix d show "conn_queue (conn_SetUserID u c w) d = conn_queue w d"
    by (cases c; cases d) (simp_all add: ws_SetUserID_def wt_SetUserID_def)
qed

lemma conn_closed_SetUserID [simp]: "conn_closed (conn_SetUserID u c w) = conn_closed w"
proof
  fix d show "conn_closed (conn_SetUserID u c w) d = conn_closed w d"
    by (cases c; cases d) (simp_all add: ws_SetUserID_def wt_SetUserID_def)
qed

lemma world_ok_SetUserID [simp]: "world_ok w \<Longrightarrow> world_ok (conn_SetUserID u c w)"
  by (cases c) (simp_all add: world_ok_def ws_conn_ok_def wt_conn_ok_def ws_SetUserID_def wt_SetUserID_def)

text \<open>Setting metadata.\<close>

lemma conn_meta_SetMetadata [simp]:
  "conn_meta (conn_SetMetadata k v c w) = (conn_meta w)(c := (conn_meta w c)(k \<mapsto> v))"
proof
  fix d show "conn_meta (conn_SetMetadata k v c w) d = ((conn_meta w)(c := (conn_meta w c)(k \<mapsto> v))) d"
    by (cases c; cases d) (simp_all add: ws_SetMetadata_def wt_SetMetadata_def)
qed

lemma conn_UserID_SetMetadata [simp]: "conn_UserID (conn_SetMetadata k v c w) = conn_UserID w"
proof
  fix d show "conn_UserID (conn_SetMetadata k v c w) d = conn_UserID w d"
    by (cases c; cases d) (simp_all add: ws_SetMetadata_def wt_SetMetadata_def ws_UserID_def wt_UserID_def)
qed

lemma conn_queue_SetMetadata [simp]: "conn_queue (conn_SetMetadata k v c w) = conn_queue w"
proof
  fix d show "conn_queue (conn_SetMetadata k v c w) d = conn_queue w d"
    by (cases c; cases d) (simp_all add: ws_SetMetadata_def wt_SetMetadata_def)
qed

lemma conn_closed_SetMetadata [simp]: "conn_closed (conn_SetMetadata k v c w) = conn_closed w"
proof
  fix d show "conn_closed (conn_SetMetadata k v c w) d = conn_closed w d"
    by (cases c; cases d) (simp_all add: ws_SetMetadata_def wt_SetMetadata_def)
qed

lemma world_ok_SetMetadata [simp]: "world_ok w \<Longrightarrow> world_ok (conn_SetMetadata k v c w)"
  by (cases c) (simp_all add: world_ok_def ws_conn_ok_def wt_conn_ok_def ws_SetMetadata_def wt_SetMetadata_def)

text \<open>Sending: only the queue of the connection changes.\<close>

lemma ws_Send_same:
  assumes "ws_Send ch ctx msg c = Return (c', err)"
  shows "wsc_userID c' = wsc_userID c" "wsc_metadata c' = wsc_metadata c" "ws_conn_ok c \<Longrightarrow> ws_conn_ok c'"
  using assms ws_conn_ok_step [of c _ "OpSend ch ctx msg" c'] by (auto elim!: ws_Send_ReturnE)

lemma wt_Send_same:
  assumes "wt_Send ch ctx msg c = Return (c', err)"
  shows "wtc_userID c' = wtc_userID c" "wtc_metadata c' = wtc_metadata c" "wt_conn_ok c \<Longrightarrow> wt_conn_ok c'"
  using assms wt_conn_ok_step [of c _ "OpSend ch ctx msg" c'] by (auto elim!: wt_Send_ReturnE)

lemma conn_send_at_frame:
  assumes "conn_send_at ch msg c w = Return (w', err)"
  shows "conn_UserID w' = conn_UserID w" and "conn_meta w' = conn_meta w" and "world_ok w \<Longrightarrow> world_ok w'"
    and "conn_closed w' = conn_closed w"
proof -
  show "conn_closed w' = conn_closed w" by (rule conn_out.send_closed [OF assms])
  have "conn_UserID w' d = conn_UserID w d \<and> conn_meta w' d = conn_meta w d \<and> (world_ok w \<longrightarrow> world_ok w')" for d
  proof (cases c)
    case (WsConn r)
    then obtain c' where c': "ws_Send ch context_Background msg (w_ws w r) = Return (c', err)"
      and w': "w' = w\<lparr>w_ws := (w_ws w)(r := c')\<rparr>"
      using assms by (auto simp: ws_send_at_def)
    show ?thesis using ws_Send_same [OF c'] unfolding w' by (cases d) (simp_all add: ws_UserID_def world_ok_def)
  next
    case (WtConn r)
    then obtain c' where c': "wt_Send ch context_Background msg (w_wt w r) = Return (c', err)"
      and w': "w' = w\<lparr>w_wt := (w_wt w)(r := c')\<rparr>"
      using assms by (auto simp: wt_send_at_def)
    show ?thesis using wt_Send_same [OF c'] unfolding w' by (cases d) (simp_all add: wt_UserID_def world_ok_def)
  qed
  then show "conn_UserID w' = conn_UserID w" "conn_meta w' = conn_meta w" "world_ok w \<Longrightarrow> world_ok w'" by auto
qed

text \<open>Closing: only the connection itself changes, and neither its queue nor its data.\<close>

lemma conn_Close_frame:
  assumes "world_ok w"
  obtains w' err where "conn_Close wsio wtio c w = Return (w', err)"
    and "conn_closed w' = (conn_closed w)(c := True)" and "conn_queue w' = conn_queue w"
    and "conn_UserID w' = conn_UserID w" and "conn_meta w' = conn_meta w" and "world_ok w'"
proof (cases c)
  case (WsConn r)
  let ?c = "w_ws w r"
  have ok: "ws_conn_ok ?c" using assms by (simp add: world_ok_def)
  obtain c' err where c': "ws_Close wsio ?c = Return (c', err)"
    and same: "wsc_send c' = wsc_send ?c" "wsc_userID c' = wsc_userID ?c" "wsc_metadata c' = wsc_metadata ?c"
    using ok by (cases "wsc_done ?c") (auto simp: ws_Close_eq Let_def)
  note c'_ok = ws_conn_ok_Close [OF ok c']
  let ?w = "w\<lparr>w_ws := (w_ws w)(r := c')\<rparr>"
  have "conn_closed ?w d = ((conn_closed w)(c := True)) d" "conn_queue ?w d = conn_queue w d"
    "conn_UserID ?w d = conn_UserID w d" "conn_meta ?w d = conn_meta w d" for d
    using same c'_ok WsConn by (cases d; simp add: ws_UserID_def)+
  moreover have "world_ok ?w" using assms c'_ok same by (simp add: world_ok_def)
  ultimately show ?thesis using that [of ?w err] c' WsConn by (auto simp: fun_eq_iff)
next
  case (WtConn r)
  let ?c = "w_wt w r"
  have ok: "wt_conn_ok ?c" using assms by (simp add: world_ok_def)
  obtain c' err where c': "wt_Close wtio ?c = Return (c', err)"
    and same: "wtc_send c' = wtc_send ?c" "wtc_userID c' = wtc_userID ?c" "wtc_metadata c' = wtc_metadata ?c"
    using ok by (cases "wtc_done ?c") (auto simp: wt_Close_eq)
  note c'_ok = wt_conn_ok_Close [OF ok c']
  let ?w = "w\<lparr>w_wt := (w_wt w)(r := c')\<rparr>"
  have "conn_closed ?w d = ((conn_closed w)(c := True)) d" "conn_queue ?w d = conn_queue w d"
    "conn_UserID ?w d = conn_UserID w d" "conn_meta ?w d = conn_meta w d" for d
    using same c'_ok WtConn by (cases d; simp add: wt_UserID_def)+
  moreover have "world_ok ?w" using assms c'_ok same by (simp add: world_ok_def)
  ultimately show ?thesis using that [of ?w err] c' WtConn by (auto simp: fun_eq_iff)
qed

lemma conn_SendJSON_frame:
  assumes "conn_SendJSON marshal ch v c w = Return (w', err)"
  shows "conn_UserID w' = conn_UserID w" and "conn_meta w' = conn_meta w" and "world_ok w \<Longrightarrow> world_ok w'"
    and "conn_closed w' = conn_closed w" and "d \<noteq> c \<Longrightarrow> conn_queue w' d = conn_queue w d"
  using assms conn_send_at_frame conn_out.send_other
  by (auto simp: conn_SendJSON_def split: sum.splits)

lemma conn_SendJSON_no_panic [simp]: "conn_SendJSON marshal ch v c w \<noteq> Panics"
  using conn_out.send_no_panic by (simp add: conn_SendJSON_def split: sum.split)

text \<open>An open connection gets the encoding, unless there is none.\<close>

lemma conn_SendJSON_open:
  assumes "conn_SendJSON marshal ch v c w = Return (w', err)" and "\<not> conn_closed w c" and "marshal v = Inr data"
  shows "conn_queue w' c = conn_queue w c @ [data]" and "err = None"
proof -
  have s: "conn_send_at ch data c w = Return (w', err)" using assms by (simp add: conn_SendJSON_def)
  show "err = None" using conn_out.send_open [OF s assms(2)] .
  then show "conn_queue w' c = conn_queue w c @ [data]" using s conn_out.send_ok by simp
qed

lemma send_loop_frame:
  "send_loop (\<lambda>i. conn_send_at (ch i) msg) cs w e = Return (w', err) \<Longrightarrow>
     conn_UserID w' = conn_UserID w \<and> conn_meta w' = conn_meta w \<and> (world_ok w \<longrightarrow> world_ok w') \<and> conn_closed w' = conn_closed w"
proof (induction cs arbitrary: w e)
  case Nil
  then show ?case by simp
next
  case (Cons c cs)
  from Cons.prems obtain w1 e1 where s: "conn_send_at (ch (length cs)) msg c w = Return (w1, e1)"
    and l: "send_loop (\<lambda>i. conn_send_at (ch i) msg) cs w1 (case e1 of None \<Rightarrow> e | Some x \<Rightarrow> Some x) = Return (w', err)"
    by (rule send_loop_ConsE)
  show ?case using Cons.IH [OF l] conn_send_at_frame [OF s] by auto
qed

end
