(* ===== verification/Chat.thy ===== *)
theory Chat
  imports Conn_World Delivery
begin

text \<open>
  The chat handler of \<^verbatim>\<open>example/internal/chat/handler.go\<close>: a \<^verbatim>\<open>StatefulHandler\<close> that keeps rooms
  of connections and the room each user joined last. JSON encoding and decoding are arguments.
  The state is the handler together with the connection objects; each callback runs to its end,
  and between two callbacks the servers may do anything to the connections that keeps their
  user IDs and metadata (drain queues, close connections).
\<close>

section \<open>Definitions\<close>

record ChatMessage =
  cm_Type :: string
  cm_UserID :: string
  cm_RoomID :: string
  cm_Content :: string

text \<open>The values the handler encodes: messages, and the reply to a join (room and user).\<close>

datatype chat_value = ChatValue ChatMessage | JoinedValue string string

record ChatHandler =
  ch_rooms :: "(string, string, conn) nested"
  ch_userToRoom :: "(string, string) gomap"

definition chat_NewHandler :: ChatHandler where
  "chat_NewHandler = \<lparr>ch_rooms = [], ch_userToRoom = []\<rparr>"

text \<open>What a callback depends on besides the state: the JSON library, the picks of its select
  statements and the orders of its range statements.\<close>

record chat_env =
  ce_marshal :: "chat_value \<Rightarrow> go_error + bytes"
  ce_unmarshal :: "bytes \<Rightarrow> go_error + ChatMessage"
  ce_choice :: "nat \<Rightarrow> nat"
  ce_ord :: "(string \<times> conn) range_order"
  ce_meta :: "(string \<times> any) range_order"

definition chat_message :: "string \<Rightarrow> string \<Rightarrow> string \<Rightarrow> string \<Rightarrow> ChatMessage" where
  "chat_message ty user room content = \<lparr>cm_Type = ty, cm_UserID = user, cm_RoomID = room, cm_Content = content\<rparr>"

definition not_in_room :: string where
  \<open>not_in_room = ''you are not in a room, send {"type":"join","roomId":"room1"} first''\<close>

text \<open>The errors of the sends are only logged.\<close>

definition send_json :: "chat_env \<Rightarrow> nat \<Rightarrow> chat_value \<Rightarrow> conn \<Rightarrow> world \<Rightarrow> world outcome" where
  "send_json env i v c w =
     bind_outcome (conn_SendJSON (ce_marshal env) (ce_choice env i) v c w) (\<lambda>(w', _). Return w')"

definition broadcastToRoom :: "chat_env \<Rightarrow> string \<Rightarrow> ChatMessage \<Rightarrow> ChatHandler \<Rightarrow> world \<Rightarrow> world outcome" where
  "broadcastToRoom env roomID msg h w =
     (case ce_marshal env (ChatValue msg) of
        Inl err \<Rightarrow> Return w
      | Inr data \<Rightarrow>
          (case map_of (ch_rooms h) roomID of
             None \<Rightarrow> Return w
           | Some room \<Rightarrow>
               bind_outcome
                 (send_loop (\<lambda>i. conn_send_at (ce_choice env (Suc i)) data) (map snd (ce_ord env 0 room)) w None)
                 (\<lambda>(w', _). Return w')))"

definition Chat_OnConnect :: "chat_env \<Rightarrow> conn \<Rightarrow> world \<Rightarrow> (world \<times> go_error option) outcome" where
  "Chat_OnConnect env c w =
     conn_SendJSON (ce_marshal env) (ce_choice env 0)
       (ChatValue (chat_message ''system'' [] [] ''Welcome to the chat!'')) c w"

definition handleJoin :: "chat_env \<Rightarrow> conn \<Rightarrow> ChatMessage \<Rightarrow> ChatHandler \<times> world \<Rightarrow> (ChatHandler \<times> world) outcome" where
  "handleJoin env c msg s =
     (let (h, w) = s;
          known = conn_UserID w c;
          userID = (if known = [] then cm_UserID msg else known);
          w1 = (if known = [] then conn_SetUserID userID c w else w);
          w2 = conn_SetMetadata ''roomId'' (AnyString (cm_RoomID msg)) c w1;
          w3 = conn_SetMetadata ''username'' (AnyString (cm_Content msg)) c w2;
          h1 = h\<lparr>ch_rooms := bind_in (cm_RoomID msg) userID c (ch_rooms h)\<rparr>;
          h2 = h1\<lparr>ch_userToRoom := mapassign userID (cm_RoomID msg) (ch_userToRoom h1)\<rparr>
      in bind_outcome (send_json env 0 (JoinedValue (cm_RoomID msg) userID) c w3)
           (\<lambda>w4. bind_outcome
              (broadcastToRoom env (cm_RoomID msg) (chat_message ''join'' userID [] (userID @ '' joined the room'')) h2 w4)
              (\<lambda>w5. Return (h2, w5))))"

text \<open>\<^verbatim>\<open>roomID, _ := conn.Metadata()["roomId"].(string)\<close>\<close>

definition current_room :: "chat_env \<Rightarrow> conn \<Rightarrow> world \<Rightarrow> string" where
  "current_room env c w = any_string (map_of (conn_Metadata (ce_meta env) w c) ''roomId'')"

definition message_user :: "conn \<Rightarrow> ChatMessage \<Rightarrow> world \<Rightarrow> string" where
  "message_user c msg w = (if conn_UserID w c = [] then cm_UserID msg else conn_UserID w c)"

definition handleMessage :: "chat_env \<Rightarrow> conn \<Rightarrow> ChatMessage \<Rightarrow> ChatHandler \<times> world \<Rightarrow> (ChatHandler \<times> world) outcome" where
  "handleMessage env c msg s =
     (let (h, w) = s; roomID = current_room env c w
      in if roomID = []
         then bind_outcome (send_json env 0 (ChatValue (chat_message ''error'' [] [] not_in_room)) c w) (\<lambda>w'. Return (h, w'))
         else
           let userID = message_user c msg w
           in bind_outcome (broadcastToRoom env roomID (chat_message ''message'' userID roomID (cm_Content msg)) h w)
                (\<lambda>w'. Return (h, w')))"

definition left_message :: "string \<Rightarrow> ChatMessage" where
  "left_message userID = chat_message ''leave'' userID [] (userID @ '' left the room'')"

definition handleLeave :: "chat_env \<Rightarrow> conn \<Rightarrow> ChatMessage \<Rightarrow> ChatHandler \<times> world \<Rightarrow> (ChatHandler \<times> world) outcome" where
  "handleLeave env c msg s =
     (let (h, w) = s; roomID = current_room env c w
      in if roomID = [] then Return (h, w)
         else
           let userID = message_user c msg w;
               h1 = h\<lparr>ch_rooms := unbind_in roomID userID (ch_rooms h)\<rparr>;
               h2 = h1\<lparr>ch_userToRoom := mapdelete userID (ch_userToRoom h1)\<rparr>
           in bind_outcome (broadcastToRoom env roomID (left_message userID) h2 w) (\<lambda>w'. Return (h2, w')))"

definition Chat_OnMessage ::
  "chat_env \<Rightarrow> conn \<Rightarrow> bytes \<Rightarrow> ChatHandler \<times> world \<Rightarrow> ((ChatHandler \<times> world) \<times> go_error option) outcome" where
  "Chat_OnMessage env c raw s =
     (case ce_unmarshal env raw of
        Inl err \<Rightarrow> Return (s, Some err)
      | Inr msg0 \<Rightarrow>
          let msg = (if cm_UserID msg0 = [] then msg0\<lparr>cm_UserID := conn_UserID (snd s) c\<rparr> else msg0);
              result =
                (if cm_Type msg = ''join'' then handleJoin env c msg s
                 else if cm_Type msg = ''message'' then handleMessage env c msg s
                 else if cm_Type msg = ''leave'' then handleLeave env c msg s
                 else bind_outcome
                   (send_json env 0 (ChatValue (chat_message ''error'' [] [] (''unknown message type: '' @ cm_Type msg))) c (snd s))
                   (\<lambda>w'. Return (fst s, w')))
          in bind_outcome result (\<lambda>s'. Return (s', None)))"

definition Chat_OnDisconnect :: "chat_env \<Rightarrow> conn \<Rightarrow> ChatHandler \<times> world \<Rightarrow> (ChatHandler \<times> world) outcome" where
  "Chat_OnDisconnect env c s =
     (let (h, w) = s; userID = conn_UserID w c
      in if userID = [] then Return (h, w)
         else
           let found = map_of (ch_userToRoom h) userID;
               roomID = (case found of None \<Rightarrow> [] | Some r \<Rightarrow> r);
               h1 = (if found = None then h
                     else h\<lparr>ch_rooms := unbind_in roomID userID (ch_rooms h),
                            ch_userToRoom := mapdelete userID (ch_userToRoom h)\<rparr>)
           in if roomID = [] then Return (h1, w)
              else bind_outcome (broadcastToRoom env roomID (left_message userID) h1 w) (\<lambda>w'. Return (h1, w')))"

section \<open>Runs\<close>

datatype chat_call = CallConnect conn | CallMessage conn bytes | CallDisconnect conn | CallOthers "world \<Rightarrow> world"

fun chat_step :: "chat_env \<Rightarrow> chat_call \<Rightarrow> ChatHandler \<times> world \<Rightarrow> (ChatHandler \<times> world) outcome" where
  "chat_step env (CallConnect c) s = bind_outcome (Chat_OnConnect env c (snd s)) (\<lambda>(w, _). Return (fst s, w))"
| "chat_step env (CallMessage c raw) s = bind_outcome (Chat_OnMessage env c raw s) (\<lambda>(s', _). Return s')"
| "chat_step env (CallDisconnect c) s = Chat_OnDisconnect env c s"
| "chat_step env (CallOthers f) s = Return (fst s, f (snd s))"

fun chat_run :: "(chat_env \<times> chat_call) list \<Rightarrow> ChatHandler \<times> world \<Rightarrow> (ChatHandler \<times> world) outcome" where
  "chat_run [] s = Return s"
| "chat_run ((env, x) # xs) s = bind_outcome (chat_step env x s) (chat_run xs)"

text \<open>What the servers may do to the connections between two callbacks.\<close>

definition call_ok :: "chat_env \<times> chat_call \<Rightarrow> bool" where
  "call_ok ex \<longleftrightarrow> order_ok (ce_ord (fst ex)) \<and> order_ok (ce_meta (fst ex)) \<and>
     (\<forall>f w. snd ex = CallOthers f \<longrightarrow>
        conn_UserID (f w) = conn_UserID w \<and> conn_meta (f w) = conn_meta w \<and> (world_ok w \<longrightarrow> world_ok (f w)))"

section \<open>Invariant\<close>

text \<open>
  The members of the rooms: \<open>members h r u\<close> is the connection under which the user \<open>u\<close> is in the
  room \<open>r\<close>. In a valid state a user whose room is known is in that room, and a room lists a user
  (other than the nameless one) under a connection of that user.
\<close>

definition members :: "ChatHandler \<Rightarrow> string \<Rightarrow> string \<rightharpoonup> conn" where
  "members h r = user_view (ch_rooms h) r"

definition chat_ok :: "ChatHandler \<times> world \<Rightarrow> bool" where
  "chat_ok s \<longleftrightarrow>
     nested_ok (ch_rooms (fst s)) \<and> gomap_ok (ch_userToRoom (fst s)) \<and> world_ok (snd s) \<and>
     (\<forall>u r. map_of (ch_userToRoom (fst s)) u = Some r \<longrightarrow> members (fst s) r u \<noteq> None) \<and>
     (\<forall>r u c. members (fst s) r u = Some c \<longrightarrow> u \<noteq> [] \<longrightarrow> conn_UserID (snd s) c = u)"

text \<open>A JSON library and picks for examples: the bytes 1 and 2 decode to joins of two rooms, any other
  to a message.\<close>

definition sample_chat_env :: chat_env where
  "sample_chat_env =
     \<lparr>ce_marshal = (\<lambda>_. Inr [7]),
      ce_unmarshal = (\<lambda>raw. Inr (if raw = [1] then chat_message ''join'' ''bob'' ''r1'' ''Bob''
         else if raw = [2] then chat_message ''join'' ''bob'' ''r2'' ''Bob'' else chat_message ''message'' [] [] ''hi'')),
      ce_choice = (\<lambda>_. 0), ce_ord = (\<lambda>i xs. xs), ce_meta = (\<lambda>i xs. xs)\<rparr>"

definition sample_chat_world :: world where
  "sample_chat_world = \<lparr>w_ws = (\<lambda>r. ws_NewConnection ''a'' [] 0), w_wt = (\<lambda>r. wt_NewConnection ''d'' [] 0)\<rparr>"

section \<open>Lemmas\<close>

lemma members_simps [simp]:
  "members (h\<lparr>ch_rooms := bind_in r u c rooms\<rparr>) = (user_view rooms)(r := (user_view rooms r)(u \<mapsto> c))"
  "members (h\<lparr>ch_rooms := unbind_in r u rooms\<rparr>) = (user_view rooms)(r := (user_view rooms r)(u := None))"
  "members (h\<lparr>ch_userToRoom := m\<rparr>) = members h"
  by (simp_all add: members_def fun_eq_iff)

lemma user_view_members: "user_view (ch_rooms h) = members h"
  by (simp add: members_def fun_eq_iff)

text \<open>Sends change queues only.\<close>

definition same_data :: "world \<Rightarrow> world \<Rightarrow> bool" where
  "same_data w w' \<longleftrightarrow> conn_UserID w' = conn_UserID w \<and> conn_meta w' = conn_meta w \<and> conn_closed w' = conn_closed w \<and>
     (world_ok w \<longrightarrow> world_ok w')"

lemma same_data_trans: "same_data a b \<Longrightarrow> same_data b c \<Longrightarrow> same_data a c"
  by (auto simp: same_data_def)

lemma same_data_refl [simp]: "same_data w w"
  by (simp add: same_data_def)

lemma send_json_same: "send_json env i v c w = Return w' \<Longrightarrow> same_data w w'"
  by (auto simp: send_json_def same_data_def dest: conn_SendJSON_frame)

lemma broadcast_same: "broadcastToRoom env r msg h w = Return w' \<Longrightarrow> same_data w w'"
  by (auto simp: broadcastToRoom_def same_data_def split: sum.splits option.splits dest!: send_loop_frame)

lemma chat_ok_same: "chat_ok (h, w) \<Longrightarrow> same_data w w' \<Longrightarrow> chat_ok (h, w')"
  by (auto simp: chat_ok_def same_data_def)

lemma chat_ok_join:
  assumes "chat_ok (h, w)" and "conn_UserID w1 c = u" and "\<And>d. d \<noteq> c \<Longrightarrow> conn_UserID w1 d = conn_UserID w d"
    and "conn_UserID w c = [] \<or> conn_UserID w c = u" and "world_ok w1"
  shows "chat_ok (h\<lparr>ch_rooms := bind_in r u c (ch_rooms h), ch_userToRoom := mapassign u r (ch_userToRoom h)\<rparr>, w1)"
proof -
  let ?h = "h\<lparr>ch_rooms := bind_in r u c (ch_rooms h), ch_userToRoom := mapassign u r (ch_userToRoom h)\<rparr>"
  note ok = assms(1) [unfolded chat_ok_def fst_conv snd_conv]
  have m: "members ?h = (members h)(r := (members h r)(u \<mapsto> c))" by (simp add: user_view_members)
  have "conn_UserID w1 d = v" if "members ?h r' v = Some d" "v \<noteq> []" for r' v d
  proof (cases "r' = r \<and> v = u")
    case True
    then show ?thesis using that assms(2) m by simp
  next
    case False
    then have "members h r' v = Some d" using that by (auto simp: user_view_members split: if_splits)
    then have "conn_UserID w d = v" using ok that(2) by blast
    then show ?thesis using assms(2-4) that(2) by (cases "d = c") auto
  qed
  moreover have "members ?h r' v \<noteq> None" if "map_of (ch_userToRoom ?h) v = Some r'" for r' v
  proof (cases "v = u")
    case True
    then show ?thesis using that m by simp
  next
    case False
    then have "members h r' v \<noteq> None" using that ok by simp
    then show ?thesis using m by auto
  qed
  ultimately show ?thesis using ok assms(5) unfolding chat_ok_def fst_conv snd_conv by simp
qed

lemma chat_ok_leave:
  assumes "chat_ok (h, w)"
  shows "chat_ok (h\<lparr>ch_rooms := unbind_in r u (ch_rooms h), ch_userToRoom := mapdelete u (ch_userToRoom h)\<rparr>, w)"
  using assms by (auto simp: chat_ok_def user_view_members)

lemma handleJoin_Return:
  assumes "handleJoin env c msg (h, w) = Return (h', w')"
  defines "u \<equiv> (if conn_UserID w c = [] then cm_UserID msg else conn_UserID w c)"
  shows "h' = h\<lparr>ch_rooms := bind_in (cm_RoomID msg) u c (ch_rooms h),
                ch_userToRoom := mapassign u (cm_RoomID msg) (ch_userToRoom h)\<rparr>"
    and "conn_UserID w' = (conn_UserID w)(c := u)" and "conn_meta w' c ''roomId'' = Some (AnyString (cm_RoomID msg))"
    and "world_ok w \<Longrightarrow> world_ok w'"
proof -
  let ?w1 = "if conn_UserID w c = [] then conn_SetUserID u c w else w"
  let ?w3 = "conn_SetMetadata ''username'' (AnyString (cm_Content msg)) c
    (conn_SetMetadata ''roomId'' (AnyString (cm_RoomID msg)) c ?w1)"
  let ?h = "h\<lparr>ch_rooms := bind_in (cm_RoomID msg) u c (ch_rooms h),
                ch_userToRoom := mapassign u (cm_RoomID msg) (ch_userToRoom h)\<rparr>"
  have eq: "handleJoin env c msg (h, w) = bind_outcome (send_json env 0 (JoinedValue (cm_RoomID msg) u) c ?w3)
      (\<lambda>w4. bind_outcome (broadcastToRoom env (cm_RoomID msg) (chat_message ''join'' u [] (u @ '' joined the room'')) ?h w4)
        (\<lambda>w5. Return (?h, w5)))"
    by (simp add: handleJoin_def u_def Let_def)
  obtain w4 where w4: "send_json env 0 (JoinedValue (cm_RoomID msg) u) c ?w3 = Return w4"
    and w': "broadcastToRoom env (cm_RoomID msg) (chat_message ''join'' u [] (u @ '' joined the room'')) ?h w4 = Return w'"
    and h': "h' = ?h"
    using assms(1) unfolding eq by auto
  have same: "same_data ?w3 w'" using same_data_trans send_json_same [OF w4] broadcast_same [OF w'] by blast
  have "conn_UserID ?w3 = (conn_UserID w)(c := u)" by (auto simp: u_def)
  moreover have "conn_meta ?w3 c ''roomId'' = Some (AnyString (cm_RoomID msg))" by simp
  moreover have "world_ok ?w3" if "world_ok w" using that by simp
  ultimately show "conn_UserID w' = (conn_UserID w)(c := u)" "conn_meta w' c ''roomId'' = Some (AnyString (cm_RoomID msg))"
    "world_ok w \<Longrightarrow> world_ok w'"
    using same by (simp_all add: same_data_def)
  show "h' = ?h" by (rule h')
qed

lemma handleMessage_Return:
  assumes "handleMessage env c msg (h, w) = Return s'"
  shows "fst s' = h \<and> same_data w (snd s')"
  using assms by (auto simp: handleMessage_def Let_def dest: send_json_same broadcast_same split: if_splits)

lemma handleLeave_Return:
  assumes "handleLeave env c msg (h, w) = Return s'"
  shows "same_data w (snd s') \<and>
    (fst s' = h \<or> (\<exists>r u. fst s' = h\<lparr>ch_rooms := unbind_in r u (ch_rooms h), ch_userToRoom := mapdelete u (ch_userToRoom h)\<rparr>))"
proof (cases "current_room env c w = []")
  case True
  then show ?thesis using assms by (auto simp: handleLeave_def Let_def)
next
  case False
  then obtain w' where s': "s' = (h\<lparr>ch_rooms := unbind_in (current_room env c w) (message_user c msg w) (ch_rooms h),
      ch_userToRoom := mapdelete (message_user c msg w) (ch_userToRoom h)\<rparr>, w')" and same: "same_data w w'"
    using assms by (auto simp: handleLeave_def Let_def dest: broadcast_same)
  show ?thesis unfolding s' fst_conv snd_conv using same by blast
qed

lemma OnDisconnect_Return:
  assumes "Chat_OnDisconnect env c (h, w) = Return s'"
  shows "same_data w (snd s')"
    and "fst s' = (case map_of (ch_userToRoom h) (conn_UserID w c) of
      None \<Rightarrow> h
    | Some r \<Rightarrow> if conn_UserID w c = [] then h
               else h\<lparr>ch_rooms := unbind_in r (conn_UserID w c) (ch_rooms h),
                      ch_userToRoom := mapdelete (conn_UserID w c) (ch_userToRoom h)\<rparr>)"
  using assms by (auto simp: Chat_OnDisconnect_def Let_def dest: broadcast_same split: if_splits option.splits)

lemma chat_ok_handlers:
  assumes ok: "chat_ok (h, w)"
  shows "handleJoin env c msg (h, w) = Return s' \<Longrightarrow> chat_ok s'"
    and "handleMessage env c msg (h, w) = Return s' \<Longrightarrow> chat_ok s'"
    and "handleLeave env c msg (h, w) = Return s' \<Longrightarrow> chat_ok s'"
    and "Chat_OnDisconnect env c (h, w) = Return s' \<Longrightarrow> chat_ok s'"
proof -
  show "chat_ok s'" if s': "handleMessage env c msg (h, w) = Return s'"
    using handleMessage_Return [OF s'] chat_ok_same [OF ok] by (cases s') simp
  show "chat_ok s'" if s': "handleLeave env c msg (h, w) = Return s'"
    using handleLeave_Return [OF s'] chat_ok_same [OF ok] chat_ok_same [OF chat_ok_leave [OF ok]] by (cases s') auto
  show "chat_ok s'" if s': "Chat_OnDisconnect env c (h, w) = Return s'"
    using OnDisconnect_Return [OF s'] chat_ok_same [OF ok] chat_ok_same [OF chat_ok_leave [OF ok]]
    by (cases s') (auto split: option.splits if_splits)
  show "chat_ok s'" if s': "handleJoin env c msg (h, w) = Return s'"
  proof (cases s')
    case (Pair h' w')
    note j = handleJoin_Return [OF s' [unfolded Pair]]
    have "world_ok w" using ok by (simp add: chat_ok_def)
    then show ?thesis
      using chat_ok_join [OF ok, of w' c] j unfolding Pair by (auto split: if_splits)
  qed
qed

lemma chat_ok_step:
  assumes ok: "chat_ok s" and x: "call_ok (env, x)" and step: "chat_step env x s = Return s'"
  shows "chat_ok s'"
proof -
  obtain h w where s: "s = (h, w)" by (cases s)
  note handlers = chat_ok_handlers [OF ok [unfolded s]]
  have json: "chat_ok (h, w')" if "send_json env i v c w = Return w'" for i v c w'
    using chat_ok_same [OF ok [unfolded s] send_json_same [OF that]] .
  show ?thesis
  proof (cases x)
    case (CallConnect c)
    then obtain w' e where w': "Chat_OnConnect env c w = Return (w', e)" and s': "s' = (h, w')"
      using step s by auto
    have "same_data w w'" using w' by (auto simp: Chat_OnConnect_def same_data_def dest: conn_SendJSON_frame)
    then show ?thesis using chat_ok_same [OF ok [unfolded s]] s' by simp
  next
    case (CallMessage c raw)
    then show ?thesis using step s ok handlers json
      by (auto simp: Chat_OnMessage_def Let_def split: sum.splits if_splits)
  next
    case (CallDisconnect c)
    then show ?thesis using step s handlers by simp
  next
    case (CallOthers f)
    then show ?thesis using step s ok x by (auto simp: call_ok_def chat_ok_def)
  qed
qed

lemma chat_ok_run: "chat_run xs s = Return s' \<Longrightarrow> chat_ok s \<Longrightarrow> list_all call_ok xs \<Longrightarrow> chat_ok s'"
proof (induction xs arbitrary: s)
  case (Cons ex xs)
  obtain env x where ex: "ex = (env, x)" by (cases ex)
  then show ?case using Cons chat_ok_step [of s env x] by auto
qed simp

lemma chat_ok_New: "world_ok w \<Longrightarrow> chat_ok (chat_NewHandler, w)"
  by (simp add: chat_ok_def chat_NewHandler_def members_def)

lemma current_room_eq: "world_ok w \<Longrightarrow> order_ok (ce_meta env) \<Longrightarrow> current_room env c w = any_string (conn_meta w c ''roomId'')"
  by (simp add: current_room_def conn_Metadata_meta)

text \<open>How often a connection is listed in a room, in any order.\<close>

lemma count_list_mset_eq: "mset xs = mset ys \<Longrightarrow> count_list xs d = count_list ys d"
  by (metis count_mset)

lemma count_values: "gomap_ok m \<Longrightarrow> count_list (map snd m) d = card {k. map_of m k = Some d}"
proof (induction m)
  case Nil
  then show ?case by simp
next
  case (Cons kv m)
  obtain k v where kv: "kv = (k, v)" by (cases kv)
  have ok: "gomap_ok m" and k: "map_of m k = None" using Cons.prems kv by (auto simp: gomap_ok_def map_of_eq_None_iff)
  have fin: "finite {k. map_of m k = Some d}" by (rule finite_subset [OF _ finite_dom_map_of [of m]]) auto
  have "{k'. map_of (kv # m) k' = Some d} = (if v = d then insert k {k'. map_of m k' = Some d} else {k'. map_of m k' = Some d})"
    using kv k by (auto split: if_splits)
  then show ?case using Cons.IH [OF ok] kv k fin by auto
qed

lemma count_members:
  assumes "nested_ok (ch_rooms h)" and "order_ok (ce_ord env)" and "map_of (ch_rooms h) r = Some room"
  shows "count_list (map snd (ce_ord env 0 room)) d = card {u. members h r u = Some d}"
proof -
  have "mset (map snd (ce_ord env 0 room)) = mset (map snd room)"
    using assms(2) by (simp add: order_ok_def)
  then have "count_list (map snd (ce_ord env 0 room)) d = card {u. map_of room u = Some d}"
    using count_list_mset_eq count_values nested_okD(2) [OF assms(1,3)] by metis
  moreover have "members h r = map_of room" by (simp add: members_def user_view_def conns_of_def assms(3))
  ultimately show ?thesis by simp
qed

lemma broadcast_copies:
  assumes "broadcastToRoom env r msg h w = Return w'" and "ce_marshal env (ChatValue msg) = Inr data"
    and "nested_ok (ch_rooms h)" and "order_ok (ce_ord env)" and "\<not> conn_closed w d"
  shows "conn_queue w' d = conn_queue w d @ replicate (card {u. members h r u = Some d}) data"
proof (cases "map_of (ch_rooms h) r")
  case None
  then have "members h r = Map.empty" by (simp add: members_def user_view_empty_iff assms(3))
  then show ?thesis using assms(1,2) None by (simp add: broadcastToRoom_def)
next
  case (Some room)
  obtain e where l: "conn_out.loop (\<lambda>i. ce_choice env (Suc i)) data (map snd (ce_ord env 0 room)) w None = Return (w', e)"
    using assms(1,2) Some by (auto simp: broadcastToRoom_def)
  show ?thesis using conn_out.loop_copies [OF l assms(5)] count_members [OF assms(3,4) Some] by simp
qed

lemma broadcast_blocks:
  assumes "broadcastToRoom env r msg h w = Blocks" and "nested_ok (ch_rooms h)" and "order_ok (ce_ord env)"
  shows "\<exists>d. \<not> conn_closed w d \<and> send_capacity < length (conn_queue w d) + card {u. members h r u = Some d}"
proof -
  obtain data room where room: "map_of (ch_rooms h) r = Some room"
    and l: "conn_out.loop (\<lambda>i. ce_choice env (Suc i)) data (map snd (ce_ord env 0 room)) w None = Blocks"
    using assms(1) by (auto simp: broadcastToRoom_def split: sum.splits option.splits)
  show ?thesis using conn_out.loop_blocks [OF l] count_members [OF assms(2,3) room] by auto
qed

lemma broadcast_no_panic: "broadcastToRoom env r msg h w \<noteq> Panics"
  using conn_out.loop_no_panic [of "\<lambda>i. ce_choice env (Suc i)"] by (auto simp: broadcastToRoom_def split: sum.split option.split)

lemma send_json_no_panic: "send_json env i v c w \<noteq> Panics"
  by (simp add: send_json_def)

lemma chat_step_no_panic: "chat_step env x s \<noteq> Panics"
proof (cases s)
  case (Pair h w)
  then show ?thesis
    by (cases x) (auto simp: Chat_OnConnect_def Chat_OnMessage_def Chat_OnDisconnect_def handleJoin_def handleMessage_def
        handleLeave_def Let_def broadcast_no_panic send_json_no_panic split: sum.split)
qed

text \<open>The state after a first join, for examples.\<close>

lemma world_ok_sample_chat: "world_ok sample_chat_world"
  by (simp add: world_ok_def sample_chat_world_def ws_conn_ok_def wt_conn_ok_def ws_NewConnection_def wt_NewConnection_def)

lemma sample_orders: "order_ok (ce_ord sample_chat_env)" "order_ok (ce_meta sample_chat_env)"
  by (simp_all add: sample_chat_env_def)

lemma send_returns: "\<not> conn_closed w c \<Longrightarrow> length (conn_queue w c) < send_capacity \<Longrightarrow> \<exists>w' e. conn_send_at ch msg c w = Return (w', e)"
  using conn_out.send_blocks [of ch msg c w] conn_out.send_no_panic [of ch msg c w] by (cases "conn_send_at ch msg c w") auto

lemma chat_no_panic: "chat_run xs s \<noteq> Panics"
  by (induction xs arbitrary: s) (auto simp: chat_step_no_panic)

lemmas sample_chat_defs = sample_chat_env_def sample_chat_world_def chat_NewHandler_def chat_message_def Chat_OnMessage_def
  handleJoin_def Chat_OnDisconnect_def left_message_def broadcastToRoom_def send_json_def conn_SendJSON_def ws_send_at_def
  ws_Send_def send_ready_def go_select_def send_capacity_def context_Background_def ws_UserID_def ws_SetUserID_def
  ws_SetMetadata_def ws_NewConnection_def bind_in_eq unbind_in_def conns_of_def

lemma sample_join:
  "\<exists>w. handleJoin sample_chat_env (WsConn 0) (chat_message ''join'' ''bob'' ''r1'' ''Bob'') (chat_NewHandler, sample_chat_world) =
       Return (\<lparr>ch_rooms = [(''r1'', [(''bob'', WsConn 0)])], ch_userToRoom = [(''bob'', ''r1'')]\<rparr>, w) \<and>
     conn_queue w (WsConn 0) = [[7], [7]] \<and> \<not> conn_closed w (WsConn 0)"
  by (simp add: sample_chat_defs Let_def)

text \<open>An anonymous connection that is in a room removes any user from it by naming the user in a
  leave message.\<close>

lemma chat_anonymous_evicts:
  assumes "conn_UserID w c = []" and "current_room env c w = r" and "r \<noteq> []" and "handleLeave env c msg (h, w) = Return s'"
  shows "members (fst s') r (cm_UserID msg) = None \<and> map_of (ch_userToRoom (fst s')) (cm_UserID msg) = None"
  using assms by (auto simp: handleLeave_def message_user_def Let_def user_view_members)

text \<open>When one of two connections of a user disconnects, the other one is removed from the room.\<close>

lemma chat_old_connection_evicts:
  assumes "conn_UserID w c = u" and "u \<noteq> []" and "map_of (ch_userToRoom h) u = Some r"
    and "Chat_OnDisconnect env c (h, w) = Return s'"
  shows "members (fst s') r u = None"
  using OnDisconnect_Return(2) [OF assms(4)] assms(1-3) by (simp add: user_view_members)

section \<open>Properties\<close>



text \<open>
  A chat message reaches the room and nobody else. A message of a connection that has
  joined the room \<open>r\<close> is handled without panic. When the call returns, every open connection has got
  the encoded message once per name under which it is in the room \<open>r\<close>: once for a member with a
  name, and not at all for a connection that is not in the room; the rooms are unchanged, and the
  sender is named by its user ID, whatever the message says. The call waits only while an open
  connection has no space for its copies in its queue of 256.
\<close>

lemma chat_message_delivery:
  assumes "chat_ok (h, w)" and "order_ok (ce_ord env)" and "order_ok (ce_meta env)"
    and "ce_unmarshal env raw = Inr msg" and "cm_Type msg = ''message''"
    and "conn_meta w c ''roomId'' = Some (AnyString r)" and "r \<noteq> []" and "conn_UserID w c \<noteq> []"
    and "ce_marshal env (ChatValue (chat_message ''message'' (conn_UserID w c) r (cm_Content msg))) = Inr data"
  shows "(case Chat_OnMessage env c raw (h, w) of
       Return ((h', w'), err) \<Rightarrow> h' = h \<and> err = None \<and>
         (\<forall>d. \<not> conn_closed w d \<longrightarrow> conn_queue w' d = conn_queue w d @ replicate (card {u. members h r u = Some d}) data)
     | Panics \<Rightarrow> False
     | Blocks \<Rightarrow> \<exists>d. \<not> conn_closed w d \<and> 256 < length (conn_queue w d) + card {u. members h r u = Some d}) \<and>
    (\<forall>u d. members h r u = Some d \<longrightarrow> u \<noteq> [] \<longrightarrow> members h r [] \<noteq> Some d \<longrightarrow> card {u. members h r u = Some d} = 1)"
proof -
  have ok: "world_ok w" "nested_ok (ch_rooms h)" using assms(1) by (simp_all add: chat_ok_def)
  have room: "current_room env c w = r" using current_room_eq [OF ok(1) assms(3)] assms(6) by simp
  let ?b = "broadcastToRoom env r (chat_message ''message'' (conn_UserID w c) r (cm_Content msg)) h w"
  have call: "Chat_OnMessage env c raw (h, w) = bind_outcome ?b (\<lambda>w'. Return ((h, w'), None))"
    using assms(4,5,7,8) room
    by (cases ?b) (auto simp: Chat_OnMessage_def handleMessage_def message_user_def Let_def chat_message_def)
  have single: "{v. members h r v = Some d} = {u}" if m: "members h r u = Some d" "u \<noteq> []" "members h r [] \<noteq> Some d" for u d
  proof -
    have user: "conn_UserID w d = v" if "members h r v = Some d" "v \<noteq> []" for v
      using assms(1) that by (simp add: chat_ok_def)
    have "v = u" if "members h r v = Some d" for v
      using user [OF m(1,2)] user [OF that] that m(3) by auto
    then show ?thesis using m(1) by blast
  qed
  then show ?thesis
    using broadcast_copies [OF _ assms(9) ok(2) assms(2)] broadcast_blocks [OF _ ok(2) assms(2)]
      broadcast_no_panic [of env r "chat_message ''message'' (conn_UserID w c) r (cm_Content msg)" h w]
    unfolding call by (cases ?b) (auto simp: send_capacity_def)
qed

text \<open>
  Joining a second room leaves the user in the first for ever. When a connection joins one
  room, then another, and then disconnects, its user is removed from the second room and has no
  recorded room any more, but the first room still lists the connection.
\<close>

lemma chat_second_room_leaks:
  assumes "handleJoin env1 c m1 (h, w) = Return s1" and "handleJoin env2 c m2 s1 = Return s2"
    and "Chat_OnDisconnect env3 c s2 = Return s3" and "cm_RoomID m1 \<noteq> cm_RoomID m2"
    and "u = message_user c m1 w" and "u \<noteq> []"
  shows "members (fst s3) (cm_RoomID m1) u = Some c \<and> members (fst s3) (cm_RoomID m2) u = None \<and>
    map_of (ch_userToRoom (fst s3)) u = None"
proof -
  obtain h1 w1 h2 w2 where s: "s1 = (h1, w1)" "s2 = (h2, w2)" by (cases s1; cases s2)
  note j1 = handleJoin_Return(1,2) [OF assms(1) [unfolded s(1)]] and j2 = handleJoin_Return(1,2) [OF assms(2) [unfolded s]]
  have u1: "conn_UserID w1 c = u" using j1(2) assms(5) by (simp add: message_user_def)
  then have u2: "conn_UserID w2 c = u" using j2(2) assms(6) by simp
  have h1: "h1 = h\<lparr>ch_rooms := bind_in (cm_RoomID m1) u c (ch_rooms h), ch_userToRoom := mapassign u (cm_RoomID m1) (ch_userToRoom h)\<rparr>"
    using j1(1) assms(5) by (simp add: message_user_def)
  have h2: "h2 = h1\<lparr>ch_rooms := bind_in (cm_RoomID m2) u c (ch_rooms h1), ch_userToRoom := mapassign u (cm_RoomID m2) (ch_userToRoom h1)\<rparr>"
    using j2(1) u1 assms(6) by simp
  show ?thesis
    using OnDisconnect_Return(2) [OF assms(3) [unfolded s(2)]] u2 assms(4,6) h1 h2 by simp
qed

end
