(* ===== verification/Message_Store.thy ===== *)
theory Message_Store
  imports Protocol
begin

text \<open>
  The stateless mode: the in-memory message store (\<^verbatim>\<open>stateless/store.go\<close>), the polling server
  in front of a store and its handler (\<^verbatim>\<open>stateless/server.go\<close>, \<^verbatim>\<open>stateless/config.go\<close>).

  The interface \<^verbatim>\<open>protocol.MessageStore\<close> is the locale \<open>message_store\<close>: a store holds one
  append-only log per user whose sequence numbers increase, and \<^verbatim>\<open>Fetch\<close> returns the next
  messages after a given number. The lemmas about clients that poll with a cursor are proved in
  the locale; the interpretation \<open>memory\<close> shows that \<^verbatim>\<open>MemoryStore\<close> keeps the contract as long as
  fewer than \<open>2 ^ 63 - 1\<close> messages are stored for a user.
\<close>

section \<open>The in-memory store\<close>

record MemoryStore =
  ms_messages :: "(string, Message list) gomap"
  ms_lastID :: "(string, int64) gomap"

definition NewMemoryStore :: MemoryStore where
  "NewMemoryStore = \<lparr>ms_messages = [], ms_lastID = []\<rparr>"

text \<open>The loop of \<^verbatim>\<open>Fetch\<close>: \<open>result\<close> is the slice built so far.\<close>

fun fetch_loop :: "int64 \<Rightarrow> int64 \<Rightarrow> Message list \<Rightarrow> Message list \<Rightarrow> Message list" where
  "fetch_loop sinceID limit result [] = result"
| "fetch_loop sinceID limit result (msg # msgs) =
     (if int64_less sinceID (msg_ID msg)
      then (let result' = result @ [msg]
            in if sint limit \<le> int (length result') then result'
               else fetch_loop sinceID limit result' msgs)
      else fetch_loop sinceID limit result msgs)"

definition Memory_Fetch :: "MemoryStore \<Rightarrow> string \<Rightarrow> int64 \<Rightarrow> int64 \<Rightarrow> go_error + Message list" where
  "Memory_Fetch s userID sinceID limit =
     (case map_of (ms_messages s) userID of
        None \<Rightarrow> Inr []
      | Some msgs \<Rightarrow> Inr (fetch_loop sinceID limit [] msgs))"

definition Memory_Ack :: "MemoryStore \<Rightarrow> string \<Rightarrow> int64 \<Rightarrow> MemoryStore \<times> go_error option" where
  "Memory_Ack s userID msgID = (s, None)"

definition Memory_Store :: "int64 \<Rightarrow> MemoryStore \<Rightarrow> string \<Rightarrow> Message \<Rightarrow> MemoryStore \<times> go_error option" where
  "Memory_Store now s userID msg =
     (let lastID = (case map_of (ms_lastID s) userID of None \<Rightarrow> 0 | Some i \<Rightarrow> i);
          msg1 = msg\<lparr>msg_ID := lastID + 1\<rparr>;
          msg2 = msg1\<lparr>msg_Timestamp := now\<rparr>;
          s1 = s\<lparr>ms_lastID := mapassign userID (msg_ID msg2) (ms_lastID s)\<rparr>;
          old = (case map_of (ms_messages s1) userID of None \<Rightarrow> [] | Some msgs \<Rightarrow> msgs)
      in (s1\<lparr>ms_messages := mapassign userID (old @ [msg2]) (ms_messages s1)\<rparr>, None))"

definition Memory_Clear :: "MemoryStore \<Rightarrow> string \<Rightarrow> MemoryStore" where
  "Memory_Clear s userID =
     s\<lparr>ms_messages := mapdelete userID (ms_messages s), ms_lastID := mapdelete userID (ms_lastID s)\<rparr>"

definition Memory_ClearAll :: "MemoryStore \<Rightarrow> MemoryStore" where
  "Memory_ClearAll s = s\<lparr>ms_messages := [], ms_lastID := []\<rparr>"

section \<open>The polling server\<close>

record StatelessConfig =
  sc_PollInterval :: int64
  sc_BatchSize :: int64
  sc_AckTimeout :: int64

text \<open>The server holds any implementation of the store interface: its operations are arguments.\<close>

type_synonym 's store_fetch = "'s \<Rightarrow> string \<Rightarrow> int64 \<Rightarrow> int64 \<Rightarrow> go_error + Message list"
type_synonym 's store_put = "'s \<Rightarrow> string \<Rightarrow> Message \<Rightarrow> 's \<times> go_error option"
type_synonym 's store_ack = "'s \<Rightarrow> string \<Rightarrow> int64 \<Rightarrow> 's \<times> go_error option"

definition Server_Fetch ::
  "'s store_fetch \<Rightarrow> StatelessConfig \<Rightarrow> 's \<Rightarrow> FetchRequest \<Rightarrow> go_error + Message list" where
  "Server_Fetch fetch config s req =
     (let req' = (if sint (fr_Limit req) \<le> 0 then req\<lparr>fr_Limit := sc_BatchSize config\<rparr> else req)
      in fetch s (fr_UserID req') (fr_SinceID req') (fr_Limit req'))"

definition Server_Send :: "'s store_put \<Rightarrow> 's \<Rightarrow> SendRequest \<Rightarrow> 's \<times> go_error option" where
  "Server_Send put s req =
     put s (sr_UserID req)
       \<lparr>msg_ID = 0, msg_Timestamp = 0, msg_Type = ''message'', msg_Topic = sr_Topic req,
        msg_Data = sr_Data req\<rparr>"

definition Server_Ack :: "'s store_ack \<Rightarrow> 's \<Rightarrow> string \<Rightarrow> int64 \<Rightarrow> 's \<times> go_error option" where
  "Server_Ack ack s userID msgID = ack s userID msgID"

definition Handler_Fetch ::
  "'s store_fetch \<Rightarrow> StatelessConfig \<Rightarrow> 's \<Rightarrow> FetchRequest \<Rightarrow> go_error + Message list" where
  "Handler_Fetch fetch config s req =
     Server_Fetch fetch config s
       \<lparr>fr_UserID = fr_UserID req, fr_SinceID = fr_SinceID req, fr_Limit = fr_Limit req,
        fr_Topic = fr_Topic req\<rparr>"

definition Handler_Send :: "'s store_put \<Rightarrow> 's \<Rightarrow> SendRequest \<Rightarrow> 's \<times> go_error option" where
  "Handler_Send put s req =
     Server_Send put s
       \<lparr>sr_UserID = sr_UserID req, sr_Topic = sr_Topic req, sr_Data = sr_Data req\<rparr>"

section \<open>The contract and its vocabulary\<close>

text \<open>The log of a user, the next number, and the invariant of the in-memory store.\<close>

definition user_log :: "MemoryStore \<Rightarrow> string \<Rightarrow> Message list" where
  "user_log s u = (case map_of (ms_messages s) u of None \<Rightarrow> [] | Some msgs \<Rightarrow> msgs)"

definition last_id :: "MemoryStore \<Rightarrow> string \<Rightarrow> int64" where
  "last_id s u = (case map_of (ms_lastID s) u of None \<Rightarrow> 0 | Some i \<Rightarrow> i)"

definition memory_ok :: "MemoryStore \<Rightarrow> bool" where
  "memory_ok s \<longleftrightarrow>
     gomap_ok (ms_messages s) \<and> gomap_ok (ms_lastID s) \<and>
     (\<forall>u. map msg_ID (user_log s u) = map of_nat [1..<Suc (length (user_log s u))] \<and>
          last_id s u = of_nat (length (user_log s u)))"

definition after :: "int64 \<Rightarrow> Message list \<Rightarrow> Message list" where
  "after since ms = filter (\<lambda>m. int64_less since (msg_ID m)) ms"

text \<open>A batch limit: \<^verbatim>\<open>Fetch\<close> appends before it tests the limit, so it never returns fewer than one.\<close>

definition batch :: "int64 \<Rightarrow> nat" where
  "batch limit = max 1 (nat (sint limit))"

definition numbered :: "Message list \<Rightarrow> bool" where
  "numbered ms \<longleftrightarrow> sorted_wrt (\<lambda>a b. int64_less (msg_ID a) (msg_ID b)) ms"

text \<open>A client that polls with a cursor, as \<^verbatim>\<open>example/notification/main.go\<close> does: fetch, advance
  the cursor to the last number received, repeat until nothing comes back.\<close>

fun drain :: "(int64 \<Rightarrow> Message list) \<Rightarrow> nat \<Rightarrow> int64 \<Rightarrow> Message list" where
  "drain fetch 0 since = []"
| "drain fetch (Suc fuel) since =
     (case fetch since of [] \<Rightarrow> [] | m # ms \<Rightarrow> (m # ms) @ drain fetch fuel (msg_ID (last (m # ms))))"

text \<open>Sequences of operations on the in-memory store.\<close>

datatype store_op =
    OpStore int64 string Message
  | OpAck string int64
  | OpClear string
  | OpClearAll

fun store_step :: "MemoryStore \<Rightarrow> store_op \<Rightarrow> MemoryStore" where
  "store_step s (OpStore now u m) = fst (Memory_Store now s u m)"
| "store_step s (OpAck u i) = fst (Memory_Ack s u i)"
| "store_step s (OpClear u) = Memory_Clear s u"
| "store_step s OpClearAll = Memory_ClearAll s"

definition store_run :: "MemoryStore \<Rightarrow> store_op list \<Rightarrow> MemoryStore" where
  "store_run = foldl store_step"

text \<open>A short sequence of operations, for the witnesses.\<close>

definition sample_message :: Message where
  "sample_message = \<lparr>msg_ID = 0, msg_Timestamp = 0, msg_Type = ''text'', msg_Topic = [], msg_Data = [104, 105]\<rparr>"

definition sample_ops :: "store_op list" where
  "sample_ops =
     [OpStore 10 ''u'' sample_message, OpStore 11 ''v'' sample_message, OpAck ''u'' 1,
      OpStore 12 ''u'' sample_message]"

section \<open>The interface of message stores\<close>

locale message_store =
  fixes ok :: "'s \<Rightarrow> bool"
    and log :: "'s \<Rightarrow> string \<Rightarrow> Message list"
    and fetch :: "'s store_fetch"
    and put :: "'s store_put"
    and ack :: "'s store_ack"
  assumes fetch_next:
      "ok s \<Longrightarrow> fetch s u since limit = Inr (take (batch limit) (after since (log s u)))"
    and put_log:
      "ok s \<Longrightarrow> \<exists>i t. log (fst (put s u m)) u = log s u @ [m\<lparr>msg_ID := i, msg_Timestamp := t\<rparr>]"
    and put_other: "ok s \<Longrightarrow> u' \<noteq> u \<Longrightarrow> log (fst (put s u m)) u' = log s u'"
    and put_no_error: "ok s \<Longrightarrow> snd (put s u m) = None"
    and put_ok: "ok s \<Longrightarrow> ok (fst (put s u m))"
    and ack_log: "ok s \<Longrightarrow> log (fst (ack s u i)) = log s"
    and ack_ok: "ok s \<Longrightarrow> ok (fst (ack s u i))"
    and log_numbered: "ok s \<Longrightarrow> length (log s u) < 2 ^ 63 \<Longrightarrow> numbered (log s u)"
begin

abbreviation batch_of :: "'s \<Rightarrow> string \<Rightarrow> int64 \<Rightarrow> int64 \<Rightarrow> Message list" where
  "batch_of s u limit since \<equiv> projr (fetch s u since limit)"

lemma batch_of_eq: "ok s \<Longrightarrow> batch_of s u limit since = take (batch limit) (after since (log s u))"
  by (simp add: fetch_next)

end

section \<open>Lemmas on batches and cursors\<close>

lemma batch_pos [simp]: "0 < batch limit" "batch limit \<noteq> 0"
  by (simp_all add: batch_def)

lemma after_append [simp]: "after since (xs @ ys) = after since xs @ after since ys"
  by (simp add: after_def)

lemma after_Nil [simp]: "after since [] = []"
  by (simp add: after_def)

lemma set_after: "m \<in> set (after since ms) \<longleftrightarrow> m \<in> set ms \<and> int64_less since (msg_ID m)"
  by (auto simp: after_def)

lemma numbered_append:
  "numbered (xs @ ys) \<longleftrightarrow>
     numbered xs \<and> numbered ys \<and> (\<forall>a \<in> set xs. \<forall>b \<in> set ys. int64_less (msg_ID a) (msg_ID b))"
  by (simp add: numbered_def sorted_wrt_append)

lemma numbered_after: "numbered ms \<Longrightarrow> numbered (after since ms)"
  by (simp add: numbered_def after_def sorted_wrt_filter)

lemma fetch_loop_eq:
  "length result < batch limit \<or> result = [] \<Longrightarrow>
     fetch_loop since limit result ms =
       result @ take (batch limit - length result) (after since ms)"
proof (induction ms arbitrary: result)
  case Nil
  then show ?case by simp
next
  case (Cons m ms)
  show ?case
  proof (cases "int64_less since (msg_ID m)")
    case False
    then show ?thesis using Cons by (simp add: after_def)
  next
    case True
    have len: "Suc (length result) \<le> batch limit"
      using Cons.prems by (auto simp: Suc_le_eq)
    show ?thesis
    proof (cases "sint limit \<le> int (Suc (length result))")
      case True': True
      with len have "batch limit - length result = 1"
        by (auto simp: batch_def max_def split: if_splits)
      with True True' show ?thesis by (simp add: after_def)
    next
      case False
      then have "Suc (length result) < batch limit" by (auto simp: batch_def)
      then have "batch limit - length result = Suc (batch limit - Suc (length result))" by simp
      moreover have "fetch_loop since limit (result @ [m]) ms =
          (result @ [m]) @ take (batch limit - length (result @ [m])) (after since ms)"
        using \<open>Suc (length result) < batch limit\<close> by (intro Cons.IH) simp
      ultimately show ?thesis using True False by (simp add: after_def)
    qed
  qed
qed

text \<open>What a numbered log contains after the last number of a batch is what the batch left out.\<close>

lemma after_last_batch:
  assumes num: "numbered ms" and n: "0 < n" and ne: "after since ms \<noteq> []"
  shows "after (msg_ID (last (take n (after since ms)))) ms = drop n (after since ms)"
proof -
  let ?xs = "after since ms"
  let ?b = "last (take n ?xs)"
  have split: "?xs = take n ?xs @ drop n ?xs" by simp
  have tk: "take n ?xs \<noteq> []" using n ne by simp
  have numx: "numbered (take n ?xs @ drop n ?xs)" using num by (simp add: numbered_after)
  have bin: "?b \<in> set (take n ?xs)" using tk by simp
  then have b_in: "?b \<in> set ?xs" by (rule in_set_takeD)
  have up: "int64_less (msg_ID ?b) (msg_ID y)" if "y \<in> set (drop n ?xs)" for y
    using numx [unfolded numbered_append] bin that by blast
  have down: "\<not> int64_less (msg_ID ?b) (msg_ID y)" if "y \<in> set (take n ?xs)" for y
  proof -
    have "take n ?xs = butlast (take n ?xs) @ [?b]" using tk by simp
    then have "numbered (butlast (take n ?xs) @ [?b])"
      using numx [unfolded numbered_append] by simp
    then have "y \<in> set (butlast (take n ?xs)) \<Longrightarrow> int64_less (msg_ID y) (msg_ID ?b)"
      by (auto simp: numbered_append)
    moreover have "y = ?b \<or> y \<in> set (butlast (take n ?xs))"
      using that tk by (metis append_butlast_last_id in_set_conv_decomp rotate1.simps(2) set_ConsD set_rotate1)
    ultimately show ?thesis by force
  qed
  have "after (msg_ID ?b) ms = after (msg_ID ?b) ?xs"
    using b_in by (auto simp: after_def intro!: filter_cong)
  also have "\<dots> = after (msg_ID ?b) (take n ?xs) @ after (msg_ID ?b) (drop n ?xs)"
    by (metis after_append split)
  also have "after (msg_ID ?b) (take n ?xs) = []"
    using down by (auto simp: after_def filter_empty_conv)
  also have "after (msg_ID ?b) (drop n ?xs) = drop n ?xs"
    using up by (auto simp: after_def filter_id_conv)
  finally show ?thesis by simp
qed

lemma after_last: "numbered ms \<Longrightarrow> ms \<noteq> [] \<Longrightarrow> after (msg_ID (last ms)) ms = []"
  by (cases ms rule: rev_cases) (force simp: numbered_append after_def filter_empty_conv)+

lemma drain_eq:
  assumes "numbered ms" and "0 < n"
  shows "length (after since ms) \<le> fuel \<Longrightarrow>
    drain (\<lambda>c. take n (after c ms)) fuel since = after since ms"
proof (induction fuel arbitrary: since)
  case 0
  then show ?case by simp
next
  case (Suc fuel)
  show ?case
  proof (cases "after since ms")
    case Nil
    then show ?thesis by simp
  next
    case (Cons x xs)
    obtain k where k: "n = Suc k" using assms(2) by (cases n) auto
    let ?c = "msg_ID (last (take n (after since ms)))"
    have rest: "after ?c ms = drop n (after since ms)"
      using assms Cons by (intro after_last_batch) auto
    have "length (after ?c ms) \<le> fuel"
      using Suc.prems Cons k rest by simp
    then have "drain (\<lambda>c. take n (after c ms)) fuel ?c = drop n (after since ms)"
      using Suc.IH rest by simp
    then show ?thesis using Cons k by (simp add: append_take_drop_id del: last.simps)
  qed
qed

section \<open>Clients of a store\<close>

context message_store begin

text \<open>Polling with a cursor returns every message after the cursor, once and in order.\<close>

lemma drain_log:
  assumes "ok s" and "length (log s u) < 2 ^ 63" and "length (log s u) \<le> fuel"
  shows "drain (batch_of s u limit) fuel since = after since (log s u)"
proof -
  have "batch_of s u limit = (\<lambda>c. take (batch limit) (after c (log s u)))"
    using assms(1) by (simp add: batch_of_eq fun_eq_iff)
  moreover have "length (after since (log s u)) \<le> fuel"
    using assms(3) le_trans [OF length_filter_le] by (simp add: after_def)
  ultimately show ?thesis
    using drain_eq [OF log_numbered [OF assms(1,2)] batch_pos(1)] by simp
qed

text \<open>A message stored last is what a client that has read everything before receives.\<close>

lemma put_then_fetch:
  assumes "ok s" and "log s u \<noteq> []" and "Suc (length (log s u)) < 2 ^ 63"
  shows "\<exists>i t. fetch (fst (put s u m)) u (msg_ID (last (log s u))) limit =
           Inr [m\<lparr>msg_ID := i, msg_Timestamp := t\<rparr>]"
proof -
  let ?s = "fst (put s u m)"
  obtain i t where l: "log ?s u = log s u @ [m\<lparr>msg_ID := i, msg_Timestamp := t\<rparr>]"
    using put_log [OF assms(1)] by blast
  have ok: "ok ?s" using assms(1) by (rule put_ok)
  have num: "numbered (log ?s u)"
    using log_numbered [OF ok, of u] l assms(3) by simp
  then have "after (msg_ID (last (log s u))) (log s u) = []"
    using l assms(2) by (simp add: after_last numbered_append)
  moreover have "int64_less (msg_ID (last (log s u))) i"
    using num l assms(2) by (auto simp: numbered_append dest: bspec [OF _ last_in_set])
  ultimately show ?thesis
    using fetch_next [OF ok] l by (auto simp: after_def take_Cons')
qed

end

section \<open>The in-memory store keeps the contract\<close>

lemma user_log_Store:
  "user_log (fst (Memory_Store now s u m)) u' =
     (if u' = u then user_log s u @ [m\<lparr>msg_ID := last_id s u + 1, msg_Timestamp := now\<rparr>]
      else user_log s u')"
  by (simp add: Memory_Store_def user_log_def last_id_def Let_def)

lemma last_id_Store:
  "last_id (fst (Memory_Store now s u m)) u' = (if u' = u then last_id s u + 1 else last_id s u')"
  by (simp add: Memory_Store_def last_id_def Let_def)

lemma Memory_Store_no_error [simp]: "snd (Memory_Store now s u m) = None"
  by (simp add: Memory_Store_def Let_def)

lemma user_log_Clear: "user_log (Memory_Clear s u) u' = (if u' = u then [] else user_log s u')"
  by (simp add: Memory_Clear_def user_log_def)

lemma last_id_Clear: "last_id (Memory_Clear s u) u' = (if u' = u then 0 else last_id s u')"
  by (simp add: Memory_Clear_def last_id_def)

lemma user_log_empty [simp]:
  "user_log NewMemoryStore u = []" "user_log (Memory_ClearAll s) u = []"
  "last_id NewMemoryStore u = 0" "last_id (Memory_ClearAll s) u = 0"
  by (simp_all add: user_log_def last_id_def NewMemoryStore_def Memory_ClearAll_def)

lemma Memory_Fetch_eq:
  "Memory_Fetch s u since limit = Inr (take (batch limit) (after since (user_log s u)))"
  by (simp add: Memory_Fetch_def user_log_def fetch_loop_eq split: option.split)

lemma memory_ok_New: "memory_ok NewMemoryStore"
  by (simp add: memory_ok_def) (simp add: NewMemoryStore_def)

lemma memory_ok_Store: "memory_ok s \<Longrightarrow> memory_ok (fst (Memory_Store now s u m))"
  by (auto simp: memory_ok_def user_log_Store last_id_Store)
    (simp_all add: Memory_Store_def Let_def)

lemma memory_ok_Clear: "memory_ok s \<Longrightarrow> memory_ok (Memory_Clear s u)"
  by (auto simp: memory_ok_def user_log_Clear last_id_Clear) (simp_all add: Memory_Clear_def)

lemma memory_ok_ClearAll: "memory_ok (Memory_ClearAll s)"
  by (simp add: memory_ok_def) (simp add: Memory_ClearAll_def)

lemma memory_ok_step: "memory_ok s \<Longrightarrow> memory_ok (store_step s x)"
  by (cases x)
    (simp_all add: memory_ok_Store memory_ok_Clear memory_ok_ClearAll Memory_Ack_def)

lemma memory_ok_run: "memory_ok s \<Longrightarrow> memory_ok (store_run s xs)"
  by (induction xs arbitrary: s) (simp_all add: store_run_def memory_ok_step)

lemma memory_numbered:
  assumes "memory_ok s" and "length (user_log s u) < 2 ^ 63"
  shows "numbered (user_log s u)"
proof -
  have ids: "map msg_ID (user_log s u) = map of_nat [1..<Suc (length (user_log s u))]"
    using assms(1) by (simp add: memory_ok_def)
  have "sorted_wrt int64_less (map of_nat [1..<Suc (length (user_log s u))])"
    unfolding sorted_wrt_map
  proof (rule sorted_wrt_mono_rel [OF _ sorted_wrt_upt])
    fix i j :: nat
    assume "i \<in> set [1..<Suc (length (user_log s u))]" "j \<in> set [1..<Suc (length (user_log s u))]"
      and "i < j"
    moreover from this have "i < 2 ^ 63" and "j < 2 ^ 63"
      using assms(2) by auto
    ultimately show "int64_less (of_nat i) (of_nat j)"
      by (simp only: sint_of_nat64_less_iff)
  qed
  then have "sorted_wrt int64_less (map msg_ID (user_log s u))"
    by (simp add: ids)
  then show ?thesis by (simp add: numbered_def sorted_wrt_map)
qed

interpretation memory: message_store memory_ok user_log Memory_Fetch "Memory_Store now" Memory_Ack
  for now
proof unfold_locales
  fix s u m
  show "\<exists>i t. user_log (fst (Memory_Store now s u m)) u =
      user_log s u @ [m\<lparr>msg_ID := i, msg_Timestamp := t\<rparr>]"
    by (auto simp: user_log_Store)
qed (auto simp: Memory_Fetch_eq user_log_Store memory_ok_Store memory_numbered Memory_Ack_def)

lemma Handler_Fetch_eq:
  "Handler_Fetch fetch config s req =
     fetch s (fr_UserID req) (fr_SinceID req)
       (if sint (fr_Limit req) \<le> 0 then sc_BatchSize config else fr_Limit req)"
  by (simp add: Handler_Fetch_def Server_Fetch_def Let_def)

lemma Handler_Send_eq:
  "Handler_Send put s req =
     put s (sr_UserID req)
       \<lparr>msg_ID = 0, msg_Timestamp = 0, msg_Type = ''message'', msg_Topic = sr_Topic req,
        msg_Data = sr_Data req\<rparr>"
  by (simp add: Handler_Send_def Server_Send_def)

lemma memory_ok_reached: "memory_ok (store_run NewMemoryStore ops)"
  by (rule memory_ok_run [OF memory_ok_New])

lemma memory_ids:
  assumes "memory_ok s" and "length (user_log s u) < 2 ^ 63"
  shows "map (\<lambda>m. sint (msg_ID m)) (user_log s u) = map int [1..<Suc (length (user_log s u))]"
proof -
  have "map sint (map msg_ID (user_log s u)) =
      map sint (map (of_nat :: nat \<Rightarrow> int64) [1..<Suc (length (user_log s u))])"
    using assms(1) by (simp add: memory_ok_def)
  also have "\<dots> = map int [1..<Suc (length (user_log s u))]"
    using assms(2) by (auto simp: sint_of_nat64)
  finally show ?thesis by (simp add: o_def)
qed

text \<open>A cursor at the last number of a log sees exactly what is appended to it.\<close>

lemma last_id_next:
  assumes "memory_ok s" and "Suc (length (user_log s u)) < 2 ^ 63"
  shows "int64_less (last_id s u) (last_id s u + 1)"
proof -
  have li: "last_id s u = of_nat (length (user_log s u))" using assms(1) by (simp add: memory_ok_def)
  have "last_id s u + 1 = of_nat (Suc (length (user_log s u)))" by (simp add: li)
  then have "sint (last_id s u + 1) = int (Suc (length (user_log s u)))" using assms(2) by (simp only: sint_of_nat64)
  moreover have "sint (last_id s u) = int (length (user_log s u))" using assms(2) by (simp add: li sint_of_nat64)
  ultimately show ?thesis by simp
qed

lemma after_last_id:
  assumes "memory_ok s" and "length (user_log s u) < 2 ^ 63"
  shows "after (last_id s u) (user_log s u) = []"
proof (cases "user_log s u = []")
  case True
  then show ?thesis by simp
next
  case False
  let ?ms = "user_log s u"
  have "msg_ID (last ?ms) = last (map msg_ID ?ms)" using False by (simp add: last_map)
  also have "\<dots> = of_nat (length ?ms)" using assms(1) False by (simp add: memory_ok_def last_map Suc_le_eq)
  also have "\<dots> = last_id s u" using assms(1) by (simp add: memory_ok_def)
  finally show ?thesis using after_last [OF memory_numbered [OF assms] False] by simp
qed

section \<open>Properties\<close>

text \<open>
  C7. Sequence numbers of the in-memory store. After any sequence of Store, Ack, Clear and
  ClearAll operations, as long as fewer than \<open>2 ^ 63\<close> messages are stored for a user, the messages
  stored for that user carry the numbers 1, 2, 3, ... in the order in which they were stored:
  they are unique, strictly increasing and without gaps.
\<close>

theorem memory_store_numbers:
  assumes "length (user_log (store_run NewMemoryStore ops) u) < 2 ^ 63"
  shows "map (\<lambda>m. sint (msg_ID m)) (user_log (store_run NewMemoryStore ops) u) =
    map int [1..<Suc (length (user_log (store_run NewMemoryStore ops) u))]"
  using memory_ok_reached assms by (rule memory_ids)

lemma user_log_sample:
  "user_log (store_run NewMemoryStore sample_ops) ''u'' =
     [sample_message\<lparr>msg_ID := 1, msg_Timestamp := 10\<rparr>, sample_message\<lparr>msg_ID := 2, msg_Timestamp := 12\<rparr>]"
  by (simp add: sample_ops_def store_run_def user_log_def Memory_Store_def Memory_Ack_def NewMemoryStore_def)

lemma memory_store_numbers_witness:
  "map (\<lambda>m. sint (msg_ID m)) (user_log (store_run NewMemoryStore sample_ops) ''u'') = [1, 2]"
  using memory_store_numbers [of sample_ops "''u''"] by (simp add: user_log_sample)

text \<open>
  C5. Polling is complete. A client of the stateless handler that starts with any cursor and
  repeatedly fetches after the last number it has received, whatever the limit in the request
  and the batch size in the configuration, receives every message of the user with a number
  above the cursor exactly once and in the order in which they were stored; as many rounds as the
  user has messages are enough.
\<close>

theorem poll_complete:
  assumes "length (user_log (store_run NewMemoryStore ops) u) < 2 ^ 63"
    and "length (user_log (store_run NewMemoryStore ops) u) \<le> rounds"
  shows "drain (\<lambda>cursor. projr (Handler_Fetch Memory_Fetch config (store_run NewMemoryStore ops)
             \<lparr>fr_UserID = u, fr_SinceID = cursor, fr_Limit = limit, fr_Topic = topic\<rparr>)) rounds since =
    after since (user_log (store_run NewMemoryStore ops) u)"
  using memory.drain_log [OF memory_ok_reached assms] by (simp add: Handler_Fetch_eq cong: if_cong)

lemma poll_complete_witness:
  "map msg_Timestamp (drain (\<lambda>cursor. projr (Handler_Fetch Memory_Fetch
       \<lparr>sc_PollInterval = 100, sc_BatchSize = 1, sc_AckTimeout = 30\<rparr> (store_run NewMemoryStore sample_ops)
       \<lparr>fr_UserID = ''u'', fr_SinceID = cursor, fr_Limit = 0, fr_Topic = []\<rparr>)) 2 0) = [10, 12]"
  by (subst poll_complete) (simp_all add: user_log_sample after_def)

text \<open>
  Send then fetch. A message sent through the stateless handler to a user is what a client
  receives next if it polls with the number of the last message sent before: the batch is
  exactly that message, with its topic, data and type, the next number, and the clock's time.
\<close>

lemma send_then_fetch:
  assumes "Suc (length (user_log (store_run NewMemoryStore ops) (sr_UserID req))) < 2 ^ 63"
  shows "Handler_Fetch Memory_Fetch config
      (fst (Handler_Send (Memory_Store now) (store_run NewMemoryStore ops) req))
      \<lparr>fr_UserID = sr_UserID req, fr_SinceID = last_id (store_run NewMemoryStore ops) (sr_UserID req),
       fr_Limit = limit, fr_Topic = topic\<rparr> =
    Inr [\<lparr>msg_ID = last_id (store_run NewMemoryStore ops) (sr_UserID req) + 1, msg_Timestamp = now,
          msg_Type = ''message'', msg_Topic = sr_Topic req, msg_Data = sr_Data req\<rparr>]"
proof -
  let ?s = "store_run NewMemoryStore ops"
  let ?u = "sr_UserID req"
  have ok: "memory_ok ?s" by (rule memory_ok_reached)
  have "int64_less (last_id ?s ?u) (last_id ?s ?u + 1)" by (rule last_id_next [OF ok assms])
  moreover have "after (last_id ?s ?u) (user_log ?s ?u) = []"
    using assms by (intro after_last_id [OF ok]) simp
  ultimately show ?thesis
    by (simp add: Handler_Fetch_eq Handler_Send_eq Memory_Fetch_eq user_log_Store)
      (simp add: after_def take_Cons')
qed

text \<open>
  What one fetch returns. On every store the stateless handler returns, without error, the
  first messages of the user's log with a number above the cursor, at most as many as the limit
  (the configured batch size when the request has no positive limit) but never fewer than one
  if there is one, even when the limit that results is zero or negative; the topic of the request
  has no effect.
\<close>

lemma handler_fetch_batch:
  "Handler_Fetch Memory_Fetch config s req =
     Inr (take (max 1 (nat (sint (if sint (fr_Limit req) \<le> 0 then sc_BatchSize config else fr_Limit req))))
            (filter (\<lambda>m. sint (fr_SinceID req) < sint (msg_ID m)) (user_log s (fr_UserID req))))"
  by (simp add: Handler_Fetch_eq Memory_Fetch_eq after_def batch_def)

text \<open>
  Clearing a user restarts the numbers. A client that has received everything (its cursor is
  the user's last number) polls in vain after Clear: the message stored next starts again at
  number 1 and is not returned, although it is in the user's log.
\<close>

lemma clear_hides_next_message:
  assumes "user_log (store_run NewMemoryStore ops) u \<noteq> []"
    and "length (user_log (store_run NewMemoryStore ops) u) < 2 ^ 63"
  shows "let s = store_run NewMemoryStore ops;
             s' = fst (Memory_Store now (Memory_Clear s u) u m)
         in user_log s' u = [m\<lparr>msg_ID := 1, msg_Timestamp := now\<rparr>] \<and>
            Memory_Fetch s' u (last_id s u) limit = Inr []"
proof -
  let ?s = "store_run NewMemoryStore ops"
  have li: "last_id ?s u = of_nat (length (user_log ?s u))"
    using memory_ok_reached by (simp add: memory_ok_def)
  have "sint (last_id ?s u) = int (length (user_log ?s u))"
    using assms(2) by (simp add: li sint_of_nat64)
  with assms(1) have "1 \<le> sint (last_id ?s u)"
    by (cases "user_log ?s u") auto
  then show ?thesis
    by (simp add: Memory_Fetch_eq user_log_Store user_log_Clear last_id_Clear after_def)
qed

end
