(* ===== verification/Notification.thy ===== *)
theory Notification
  imports Message_Store Conn_World
begin

text \<open>
  The notification handler of \<^verbatim>\<open>example/notification/main.go\<close>: clients on stateful connections
  store messages in rooms of the in-memory store and fetch them with a cursor that the handler
  keeps in the metadata of the connection. JSON encoding and decoding are arguments.
\<close>

section \<open>Definitions\<close>

text \<open>The struct into which a message is decoded, and the values that are encoded.\<close>

record NotificationData =
  nd_Type :: string
  nd_RoomID :: string
  nd_UserID :: string
  nd_Username :: string
  nd_Content :: string
  nd_SinceID :: int64

datatype note_value = NoteJoined string string | NoteMessage Message | NoteError string | NoteAck

record note_env =
  ne_marshal :: "note_value \<Rightarrow> go_error + bytes"
  ne_unmarshal :: "bytes \<Rightarrow> go_error + NotificationData"
  ne_choice :: "nat \<Rightarrow> nat"
  ne_meta :: "(string \<times> any) range_order"
  ne_now :: int64

text \<open>The errors of the sends are only logged.\<close>

fun send_messages :: "note_env \<Rightarrow> nat \<Rightarrow> Message list \<Rightarrow> conn \<Rightarrow> world \<Rightarrow> world outcome" where
  "send_messages env i [] c w = Return w"
| "send_messages env i (m # ms) c w =
     bind_outcome (conn_SendJSON (ne_marshal env) (ne_choice env i) (NoteMessage m) c w)
       (\<lambda>(w', _). send_messages env (Suc i) ms c w')"

definition note_join :: "note_env \<Rightarrow> conn \<Rightarrow> NotificationData \<Rightarrow> world \<Rightarrow> (world \<times> go_error option) outcome" where
  "note_join env c d w =
     (let w1 = conn_SetUserID (nd_UserID d) c w;
          w2 = conn_SetMetadata ''roomId'' (AnyString (nd_RoomID d)) c w1;
          w3 = conn_SetMetadata ''username'' (AnyString (nd_Username d)) c w2
      in conn_SendJSON (ne_marshal env) (ne_choice env 0) (NoteJoined (nd_RoomID d) (nd_UserID d)) c w3)"

definition note_fetch :: "note_env \<Rightarrow> conn \<Rightarrow> NotificationData \<Rightarrow> MemoryStore \<Rightarrow> world \<Rightarrow> world outcome" where
  "note_fetch env c d s w =
     (let sinceID = (if nd_SinceID d = 0 then any_int (map_of (conn_Metadata (ne_meta env) w c) ''lastId'') else nd_SinceID d)
      in case Memory_Fetch s (nd_RoomID d) sinceID 100 of
           Inl err \<Rightarrow> Return w
         | Inr messages \<Rightarrow>
             bind_outcome (send_messages env 0 messages c w)
               (\<lambda>w1. Return (if length messages > 0
                  then conn_SetMetadata ''lastId'' (AnyInt (msg_ID (messages ! (length messages - 1)))) c w1 else w1)))"

definition note_store :: "note_env \<Rightarrow> conn \<Rightarrow> NotificationData \<Rightarrow> MemoryStore \<times> world \<Rightarrow>
    ((MemoryStore \<times> world) \<times> go_error option) outcome" where
  "note_store env c d st =
     (let (s, w) = st;
          msg = \<lparr>msg_ID = 0, msg_Timestamp = 0, msg_Type = ''text'', msg_Topic = nd_RoomID d, msg_Data = string_bytes (nd_Content d)\<rparr>;
          (s', err) = Memory_Store (ne_now env) s (nd_RoomID d) msg;
          reply = (if err \<noteq> None then NoteError ''Failed to store message'' else NoteAck)
      in bind_outcome (conn_SendJSON (ne_marshal env) (ne_choice env 0) reply c w) (\<lambda>(w', e). Return ((s', w'), e)))"

definition Note_OnMessage ::
  "note_env \<Rightarrow> conn \<Rightarrow> bytes \<Rightarrow> MemoryStore \<times> world \<Rightarrow> ((MemoryStore \<times> world) \<times> go_error option) outcome" where
  "Note_OnMessage env c raw st =
     (case ne_unmarshal env raw of
        Inl err \<Rightarrow> Return (st, Some err)
      | Inr d \<Rightarrow>
          if nd_Type d = ''join''
          then bind_outcome (note_join env c d (snd st)) (\<lambda>(w', err). Return ((fst st, w'), err))
          else if nd_Type d = ''fetch''
          then bind_outcome (note_fetch env c d (fst st) (snd st)) (\<lambda>w'. Return ((fst st, w'), None))
          else if nd_Type d = ''message'' then note_store env c d st
          else Return (st, None))"

text \<open>A client that fetches again and again; before each fetch the servers may change the connections
  (drain queues). The result collects what each fetch has added to the queue of the connection.\<close>

fun note_polls ::
  "note_env \<Rightarrow> conn \<Rightarrow> bytes \<Rightarrow> (world \<Rightarrow> world) list \<Rightarrow> MemoryStore \<times> world \<Rightarrow> bytes list outcome" where
  "note_polls env c raw [] st = Return []"
| "note_polls env c raw (f # fs) st =
     (let w1 = f (snd st)
      in bind_outcome (Note_OnMessage env c raw (fst st, w1))
           (\<lambda>(st', _). bind_outcome (note_polls env c raw fs st')
              (\<lambda>rest. Return (drop (length (conn_queue w1 c)) (conn_queue (snd st') c) @ rest))))"

text \<open>What the servers do in between: the connection stays open and keeps its metadata, and its write
  pump has made space for the hundred messages of a fetch.\<close>

definition quiet_step :: "conn \<Rightarrow> (world \<Rightarrow> world) \<Rightarrow> bool" where
  "quiet_step c f \<longleftrightarrow> (\<forall>w. length (conn_queue (f w) c) \<le> 156 \<and> (world_ok w \<longrightarrow> world_ok (f w)) \<and> conn_meta (f w) c = conn_meta w c \<and> conn_closed (f w) c = conn_closed w c)"

definition cursor_of :: "world \<Rightarrow> conn \<Rightarrow> int64" where
  "cursor_of w c = any_int (conn_meta w c ''lastId'')"

text \<open>The write pump of the first WebSocket connection has sent everything.\<close>

definition drain_first :: "world \<Rightarrow> world" where
  "drain_first w = w\<lparr>w_ws := (w_ws w)(0 := (w_ws w 0)\<lparr>wsc_send := []\<rparr>)\<rparr>"

definition sample_note_env :: note_env where
  "sample_note_env =
     \<lparr>ne_marshal = (\<lambda>v. case v of NoteMessage m \<Rightarrow> Inr (msg_Data m) | _ \<Rightarrow> Inr []),
      ne_unmarshal = (\<lambda>raw. Inr \<lparr>nd_Type = ''fetch'', nd_RoomID = ''u'', nd_UserID = [], nd_Username = [], nd_Content = [], nd_SinceID = 0\<rparr>),
      ne_choice = (\<lambda>_. 0), ne_meta = (\<lambda>i xs. xs), ne_now = 5\<rparr>"

definition sample_note_world :: world where
  "sample_note_world = \<lparr>w_ws = (\<lambda>r. ws_NewConnection ''a'' [] 0), w_wt = (\<lambda>r. wt_NewConnection ''d'' [] 0)\<rparr>"

section \<open>Lemmas\<close>

lemma send_messages_Return:
  "send_messages env i ms c w = Return w' \<Longrightarrow>
     conn_UserID w' = conn_UserID w \<and> conn_meta w' = conn_meta w \<and> conn_closed w' = conn_closed w \<and>
     (world_ok w \<longrightarrow> world_ok w') \<and> (\<forall>d. d \<noteq> c \<longrightarrow> conn_queue w' d = conn_queue w d)"
proof (induction ms arbitrary: i w)
  case (Cons m ms)
  then obtain w1 e where s: "conn_SendJSON (ne_marshal env) (ne_choice env i) (NoteMessage m) c w = Return (w1, e)"
    and l: "send_messages env (Suc i) ms c w1 = Return w'" by auto
  show ?case using Cons.IH [OF l] conn_SendJSON_frame [OF s] by simp
qed simp

lemma send_messages_open:
  assumes "\<And>m. ne_marshal env (NoteMessage m) = Inr (enc m)"
  shows "send_messages env i ms c w = Return w' \<Longrightarrow> \<not> conn_closed w c \<Longrightarrow> conn_queue w' c = conn_queue w c @ map enc ms"
proof (induction ms arbitrary: i w)
  case (Cons m ms)
  then obtain w1 e where s: "conn_SendJSON (ne_marshal env) (ne_choice env i) (NoteMessage m) c w = Return (w1, e)"
    and l: "send_messages env (Suc i) ms c w1 = Return w'" by auto
  show ?case
    using Cons.IH [OF l] conn_SendJSON_frame(4) [OF s] conn_SendJSON_open(1) [OF s Cons.prems(2) assms] Cons.prems(2) by simp
qed simp

lemma send_messages_blocks:
  assumes "\<And>m. ne_marshal env (NoteMessage m) = Inr (enc m)"
  shows "send_messages env i ms c w = Blocks \<Longrightarrow> \<not> conn_closed w c \<Longrightarrow> send_capacity < length (conn_queue w c) + length ms"
proof (induction ms arbitrary: i w)
  case (Cons m ms)
  show ?case
  proof (cases "conn_SendJSON (ne_marshal env) (ne_choice env i) (NoteMessage m) c w")
    case (Return p)
    then obtain w1 e where s: "conn_SendJSON (ne_marshal env) (ne_choice env i) (NoteMessage m) c w = Return (w1, e)"
      by (cases p) simp
    have "send_messages env (Suc i) ms c w1 = Blocks" using Cons.prems(1) s by simp
    then show ?thesis
      using Cons.IH conn_SendJSON_frame(4) [OF s] conn_SendJSON_open(1) [OF s Cons.prems(2) assms] Cons.prems(2) by fastforce
  next
    case Blocks
    then have "conn_send_at (ne_choice env i) (enc m) c w = Blocks" using assms by (simp add: conn_SendJSON_def)
    then show ?thesis using conn_out.send_blocks by fastforce
  qed simp
qed simp

lemma send_messages_no_panic: "send_messages env i ms c w \<noteq> Panics"
  by (induction ms arbitrary: i w) auto

lemma Note_no_panic: "Note_OnMessage env c raw st \<noteq> Panics"
  by (auto simp: Note_OnMessage_def note_join_def note_fetch_def note_store_def Let_def send_messages_no_panic
      split: sum.split prod.split)

text \<open>One fetch.\<close>

lemma note_fetch_eq:
  assumes "world_ok w" and "order_ok (ne_meta env)"
    and "ms = take 100 (after (if nd_SinceID d = 0 then cursor_of w c else nd_SinceID d) (user_log s (nd_RoomID d)))"
  shows "note_fetch env c d s w = bind_outcome (send_messages env 0 ms c w)
      (\<lambda>w1. Return (if ms = [] then w1 else conn_SetMetadata ''lastId'' (AnyInt (msg_ID (last ms))) c w1))"
proof -
  have "(if nd_SinceID d = 0 then any_int (map_of (conn_Metadata (ne_meta env) w c) ''lastId'') else nd_SinceID d) =
      (if nd_SinceID d = 0 then cursor_of w c else nd_SinceID d)"
    using conn_Metadata_meta [OF assms(1,2)] by (simp add: cursor_of_def)
  moreover have "Memory_Fetch s (nd_RoomID d) (if nd_SinceID d = 0 then cursor_of w c else nd_SinceID d) 100 = Inr ms"
    using assms(3) by (simp add: Memory_Fetch_eq batch_def)
  moreover have "(if length ms > 0 then conn_SetMetadata ''lastId'' (AnyInt (msg_ID (ms ! (length ms - 1)))) c w1 else w1) =
      (if ms = [] then w1 else conn_SetMetadata ''lastId'' (AnyInt (msg_ID (last ms))) c w1)" for w1
    by (simp add: last_conv_nth)
  ultimately show ?thesis unfolding note_fetch_def Let_def by simp
qed

lemma note_fetch_effect:
  assumes "note_fetch env c d s w = Return w'" and "world_ok w" and "order_ok (ne_meta env)"
    and "\<And>m. ne_marshal env (NoteMessage m) = Inr (enc m)" and "\<not> conn_closed w c"
    and "ms = take 100 (after (if nd_SinceID d = 0 then cursor_of w c else nd_SinceID d) (user_log s (nd_RoomID d)))"
  shows "conn_queue w' c = conn_queue w c @ map enc ms"
    and "conn_meta w' c ''lastId'' = (if ms = [] then conn_meta w c ''lastId'' else Some (AnyInt (msg_ID (last ms))))"
    and "conn_closed w' = conn_closed w" and "world_ok w'" and "d' \<noteq> c \<Longrightarrow> conn_queue w' d' = conn_queue w d'"
proof -
  obtain w1 where w1: "send_messages env 0 ms c w = Return w1"
    and w': "w' = (if ms = [] then w1 else conn_SetMetadata ''lastId'' (AnyInt (msg_ID (last ms))) c w1)"
    using assms(1) unfolding note_fetch_eq [OF assms(2,3,6)] by auto
  note f = send_messages_Return [OF w1] and q = send_messages_open [OF assms(4) w1 assms(5)]
  show "conn_queue w' c = conn_queue w c @ map enc ms" using q w' by simp
  show "conn_meta w' c ''lastId'' = (if ms = [] then conn_meta w c ''lastId'' else Some (AnyInt (msg_ID (last ms))))"
    using f w' by simp
  show "conn_closed w' = conn_closed w" using f w' by simp
  show "world_ok w'" using f w' assms(2) by simp
  show "conn_queue w' d' = conn_queue w d'" if "d' \<noteq> c" using f w' that by simp
qed

text \<open>The call waits exactly when the messages do not fit into the queue.\<close>

lemma note_fetch_blocks:
  assumes "note_fetch env c d s w = Blocks" and "world_ok w" and "order_ok (ne_meta env)"
    and "\<And>m. ne_marshal env (NoteMessage m) = Inr (enc m)" and "\<not> conn_closed w c"
    and "ms = take 100 (after (if nd_SinceID d = 0 then cursor_of w c else nd_SinceID d) (user_log s (nd_RoomID d)))"
  shows "send_capacity < length (conn_queue w c) + length ms"
  using assms(1) send_messages_blocks [OF assms(4) _ assms(5)] unfolding note_fetch_eq [OF assms(2,3,6)] by auto

lemma note_fetch_no_panic: "note_fetch env c d s w \<noteq> Panics"
  by (auto simp: note_fetch_def Let_def send_messages_no_panic split: sum.split)

text \<open>Repeated fetches follow the cursor.\<close>

lemma note_polls_drain:
  assumes "order_ok (ne_meta env)" and "\<And>m. ne_marshal env (NoteMessage m) = Inr (enc m)"
    and "ne_unmarshal env raw = Inr d" and "nd_Type d = ''fetch''" and "nd_SinceID d = 0"
  shows "world_ok w \<Longrightarrow> \<not> conn_closed w c \<Longrightarrow> list_all (quiet_step c) fs \<Longrightarrow>
    numbered (user_log s (nd_RoomID d)) \<Longrightarrow> length (after (cursor_of w c) (user_log s (nd_RoomID d))) \<le> length fs \<Longrightarrow>
    note_polls env c raw fs (s, w) = Return (map enc (after (cursor_of w c) (user_log s (nd_RoomID d))))"
proof (induction fs arbitrary: w)
  case Nil
  then show ?case by simp
next
  case (Cons f fs)
  let ?w1 = "f w" and ?log = "user_log s (nd_RoomID d)"
  have q: "world_ok ?w1" "\<not> conn_closed ?w1 c" "conn_meta ?w1 c = conn_meta w c" "length (conn_queue ?w1 c) \<le> 156"
    using Cons.prems(1-3) by (auto simp: quiet_step_def)
  then have cur: "cursor_of ?w1 c = cursor_of w c" by (simp add: cursor_of_def)
  define ms where "ms = take 100 (after (cursor_of w c) ?log)"
  have ms: "ms = take 100 (after (if nd_SinceID d = 0 then cursor_of ?w1 c else nd_SinceID d) ?log)"
    using assms(5) cur by (simp add: ms_def)
  have "\<not> send_capacity < length (conn_queue ?w1 c) + length ms" using q(4) by (simp add: ms_def send_capacity_def)
  then obtain w' where fetch: "note_fetch env c d s ?w1 = Return w'"
    using note_fetch_blocks [OF _ q(1) assms(1,2) q(2) ms] note_fetch_no_panic [of env c d s ?w1]
    by (cases "note_fetch env c d s ?w1") auto
  note e = note_fetch_effect [OF fetch q(1) assms(1,2) q(2) ms]
  have closed: "\<not> conn_closed w' c" using e(3) q(2) by simp
  have fs: "list_all (quiet_step c) fs" using Cons.prems(3) by simp
  have step: "note_polls env c raw (f # fs) (s, w) =
      bind_outcome (note_polls env c raw fs (s, w')) (\<lambda>rest. Return (map enc ms @ rest))"
    using fetch e(1) assms(3,4) by (simp add: Note_OnMessage_def Let_def)
  show ?case
  proof (cases "ms = []")
    case True
    then have nil: "after (cursor_of w c) ?log = []" by (simp add: ms_def)
    have "cursor_of w' c = cursor_of w c" using e(2) True q(3) by (simp add: cursor_of_def)
    then show ?thesis unfolding step using Cons.IH [OF e(4) closed fs Cons.prems(4)] nil True by simp
  next
    case False
    then have ne: "after (cursor_of w c) ?log \<noteq> []" by (simp add: ms_def)
    have "cursor_of w' c = msg_ID (last ms)" using e(2) False by (simp add: cursor_of_def)
    then have drop: "after (cursor_of w' c) ?log = drop 100 (after (cursor_of w c) ?log)"
      using after_last_batch [OF Cons.prems(4) _ ne, of 100] by (simp add: ms_def)
    then have "length (after (cursor_of w' c) ?log) \<le> length fs" using Cons.prems(5) ne by (cases fs) auto
    then show ?thesis
      unfolding step using Cons.IH [OF e(4) closed fs Cons.prems(4)] drop by (simp add: ms_def flip: map_append)
  qed
qed

text \<open>The examples.\<close>

lemma sample_note_facts:
  "world_ok sample_note_world" "order_ok (ne_meta sample_note_env)" "\<not> conn_closed sample_note_world (WsConn 0)"
  "ne_marshal sample_note_env (NoteMessage m) = Inr (msg_Data m)" "conn_meta sample_note_world c = Map.empty"
  by (simp_all add: sample_note_env_def sample_note_world_def world_ok_def ws_conn_ok_def wt_conn_ok_def
      ws_NewConnection_def wt_NewConnection_def) (cases c; simp add: ws_NewConnection_def wt_NewConnection_def)

lemmas sample_note_defs = sample_note_env_def sample_note_world_def Note_OnMessage_def note_fetch_def
  conn_SendJSON_def ws_send_at_def ws_Send_def send_ready_def go_select_def send_capacity_def context_Background_def
  ws_SetMetadata_def ws_Metadata_def ws_NewConnection_def Memory_Fetch_eq user_log_sample after_def batch_def sample_message_def

lemma sample_fetch_returns:
  "\<exists>w'. Note_OnMessage sample_note_env (WsConn 0) [] (store_run NewMemoryStore sample_ops, sample_note_world) =
     Return ((store_run NewMemoryStore sample_ops, w'), None)"
  by (simp add: sample_note_defs Let_def)

section \<open>Properties\<close>

text \<open>
  One fetch of the notification example. A fetch on an open connection is handled without
  panic. When the call returns, the queue of the connection has grown by the encodings of the
  first hundred messages of the room above the cursor (the number in the request, or the one kept
  for the connection when the request has none), in order; the kept number is that of the last
  message sent; the store and the other connections are unchanged. The call waits only while
  these messages do not fit into the queue of 256.
\<close>

lemma notification_fetch:
  assumes "world_ok w" and "order_ok (ne_meta env)" and "\<not> conn_closed w c"
    and "\<And>m. ne_marshal env (NoteMessage m) = Inr (enc m)"
    and "ne_unmarshal env raw = Inr d" and "nd_Type d = ''fetch''"
    and "cursor = (if nd_SinceID d = 0 then any_int (conn_meta w c ''lastId'') else nd_SinceID d)"
    and "ms = take 100 (filter (\<lambda>m. sint cursor < sint (msg_ID m)) (user_log s (nd_RoomID d)))"
  shows "case Note_OnMessage env c raw (s, w) of
      Return ((s', w'), err) \<Rightarrow> s' = s \<and> err = None \<and> conn_queue w' c = conn_queue w c @ map enc ms \<and>
        conn_meta w' c ''lastId'' = (if ms = [] then conn_meta w c ''lastId'' else Some (AnyInt (msg_ID (last ms)))) \<and>
        (\<forall>c'. c' \<noteq> c \<longrightarrow> conn_queue w' c' = conn_queue w c')
    | Panics \<Rightarrow> False
    | Blocks \<Rightarrow> 256 < length (conn_queue w c) + length ms"
proof -
  have call: "Note_OnMessage env c raw (s, w) = bind_outcome (note_fetch env c d s w) (\<lambda>w'. Return ((s, w'), None))"
    using assms(5,6) by (simp add: Note_OnMessage_def)
  have ms: "ms = take 100 (after (if nd_SinceID d = 0 then cursor_of w c else nd_SinceID d) (user_log s (nd_RoomID d)))"
    using assms(7,8) by (simp add: after_def cursor_of_def)
  show ?thesis
  proof (cases "note_fetch env c d s w")
    case (Return w')
    then show ?thesis unfolding call using note_fetch_effect [OF Return assms(1,2,4,3) ms] by simp
  next
    case Panics
    then show ?thesis using note_fetch_no_panic by simp
  next
    case Blocks
    then show ?thesis unfolding call using note_fetch_blocks [OF Blocks assms(1,2,4,3) ms] by (simp add: send_capacity_def)
  qed
qed

text \<open>
  A client that fetches again and again gets every message of the room above its cursor, encoded,
  exactly once and in the order of storage.
\<close>

lemma notification_polls_complete:
  assumes "world_ok w" and "order_ok (ne_meta env)" and "\<not> conn_closed w c"
    and "\<And>m. ne_marshal env (NoteMessage m) = Inr (enc m)"
    and "ne_unmarshal env raw = Inr d" and "nd_Type d = ''fetch''" and "nd_SinceID d = 0"
    and "length (user_log (store_run NewMemoryStore ops) (nd_RoomID d)) < 2 ^ 63"
    and "length (user_log (store_run NewMemoryStore ops) (nd_RoomID d)) \<le> length fs" and "list_all (quiet_step c) fs"
  shows "note_polls env c raw fs (store_run NewMemoryStore ops, w) =
    Return (map enc (filter (\<lambda>m. sint (any_int (conn_meta w c ''lastId'')) < sint (msg_ID m))
                       (user_log (store_run NewMemoryStore ops) (nd_RoomID d))))"
proof -
  let ?log = "user_log (store_run NewMemoryStore ops) (nd_RoomID d)"
  have "numbered ?log" by (rule memory_numbered [OF memory_ok_reached assms(8)])
  moreover have "length (after (cursor_of w c) ?log) \<le> length fs"
    using assms(9) by (simp add: after_def) (meson length_filter_le le_trans)
  ultimately show ?thesis
    using note_polls_drain [OF assms(2,4-7,1,3,10)] by (simp add: after_def cursor_of_def)
qed

lemma quiet_drain: "quiet_step (WsConn 0) drain_first"
  by (simp add: quiet_step_def drain_first_def world_ok_def ws_conn_ok_def)

end
