(* ===== verification/Json_Text.thy ===== *)
theory Json_Text
  imports Go_Text
begin

text \<open>
  JSON strings as \<^verbatim>\<open>encoding/json\<close> writes and reads them (Go 1.24). Writing escapes quotes,
  backslashes, control characters, the characters \<^verbatim>\<open><\<close>, \<^verbatim>\<open>>\<close> and \<^verbatim>\<open>&\<close>, and the line separators
  U+2028 and U+2029, and replaces bytes that are not UTF-8 by U+FFFD. Reading undoes the
  escapes, joins surrogate pairs, and replaces lone surrogates and bytes that are not UTF-8 by
  U+FFFD. Shown here: a string of valid UTF-8 is read back as it was written.
\<close>

section \<open>Encoding of runes\<close>

text \<open>\<^verbatim>\<open>utf8.EncodeRune\<close>.\<close>

definition encode_rune :: "nat \<Rightarrow> nat list" where
  "encode_rune r =
     (if r < 0x80 then [r]
      else if r < 0x800 then [0xC0 + r div 64, 0x80 + r mod 64]
      else if 0xD800 \<le> r \<and> r \<le> 0xDFFF \<or> 0x10FFFF < r then [0xEF, 0xBF, 0xBD]
      else if r < 0x10000 then [0xE0 + r div 4096, 0x80 + r div 64 mod 64, 0x80 + r mod 64]
      else [0xF0 + r div 262144, 0x80 + r div 4096 mod 64, 0x80 + r div 64 mod 64, 0x80 + r mod 64])"

definition code :: "char \<Rightarrow> nat" where
  "code c = of_char c"

definition rune_chars :: "nat \<Rightarrow> string" where
  "rune_chars r = map char_of (encode_rune r)"

text \<open>The rune at the start of a string and its width.\<close>

definition first_rune :: "char \<Rightarrow> string \<Rightarrow> nat \<times> nat" where
  "first_rune c cs = decode_rune (code c) (map code cs)"

section \<open>Writing\<close>

abbreviation quote_char :: char where "quote_char \<equiv> CHR 0x22"
abbreviation backslash :: char where "backslash \<equiv> CHR 0x5C"

definition hex_digit :: "nat \<Rightarrow> char" where
  "hex_digit d = (if d < 10 then char_of (48 + d) else char_of (87 + d))"

text \<open>One character below 0x80.\<close>

definition escape_ascii :: "char \<Rightarrow> string" where
  "escape_ascii c =
     (if c = quote_char \<or> c = backslash then [backslash, c]
      else if c = CHR 0x08 then [backslash, CHR ''b'']
      else if c = CHR 0x0C then [backslash, CHR ''f'']
      else if c = CHR 0x0A then [backslash, CHR ''n'']
      else if c = CHR 0x0D then [backslash, CHR ''r'']
      else if c = CHR 0x09 then [backslash, CHR ''t'']
      else if code c < 0x20 \<or> c = CHR ''<'' \<or> c = CHR ''>'' \<or> c = CHR ''&''
      then [backslash, CHR ''u'', CHR ''0'', CHR ''0'', hex_digit (code c div 16), hex_digit (code c mod 16)]
      else [c])"

text \<open>\<^verbatim>\<open>appendString\<close>, without the quotes around it.\<close>

function escape :: "string \<Rightarrow> string" where
  "escape [] = []"
| "escape (c # cs) =
     (if code c < 0x80 then escape_ascii c @ escape cs
      else
        (case first_rune c cs of
           (r, n) \<Rightarrow>
             if r = rune_error \<and> n = 1 then backslash # ''ufffd'' @ escape cs
             else if r = 0x2028 \<or> r = 0x2029 then backslash # ''u202'' @ [hex_digit (r mod 16)] @ escape (drop (n - 1) cs)
             else take n (c # cs) @ escape (drop (n - 1) cs)))"
  by pat_completeness auto
termination
  by (relation "measure length") auto

definition quote :: "string \<Rightarrow> string" where
  "quote s = [quote_char] @ escape s @ [quote_char]"

section \<open>Reading\<close>

definition hex_value :: "char \<Rightarrow> nat option" where
  "hex_value c =
     (let n = code c
      in if 48 \<le> n \<and> n \<le> 57 then Some (n - 48)
         else if 97 \<le> n \<and> n \<le> 102 then Some (n - 87)
         else if 65 \<le> n \<and> n \<le> 70 then Some (n - 55)
         else None)"

text \<open>The value of four hexadecimal digits.\<close>

fun hex4 :: "string \<Rightarrow> nat option" where
  "hex4 (a # b # c # d # rest) =
     (case (hex_value a, hex_value b, hex_value c, hex_value d) of
        (Some i, Some j, Some k, Some l) \<Rightarrow> Some (((i * 16 + j) * 16 + k) * 16 + l)
      | _ \<Rightarrow> None)"
| "hex4 _ = None"

text \<open>The characters that may follow a backslash, and what they stand for.\<close>

definition simple_escape :: "char \<Rightarrow> char option" where
  "simple_escape c =
     (if c = quote_char \<or> c = backslash \<or> c = CHR ''/'' then Some c
      else if c = CHR ''b'' then Some (CHR 0x08)
      else if c = CHR ''f'' then Some (CHR 0x0C)
      else if c = CHR ''n'' then Some (CHR 0x0A)
      else if c = CHR ''r'' then Some (CHR 0x0D)
      else if c = CHR ''t'' then Some (CHR 0x09)
      else None)"

text \<open>
  The scanner inside a string: the text up to the closing quote and what follows it.
\<close>

fun scan_string :: "string \<Rightarrow> (string \<times> string) option" where
  "scan_string [] = None"
| "scan_string (c # cs) =
     (if c = quote_char then Some ([], cs)
      else if code c < 0x20 then None
      else if c = backslash
      then
        (case cs of
           [] \<Rightarrow> None
         | e # es \<Rightarrow>
             if e = CHR ''u''
             then (case es of
                     h1 # h2 # h3 # h4 # rest \<Rightarrow>
                       if hex4 [h1, h2, h3, h4] = None then None
                       else map_option (apfst ((@) [c, e, h1, h2, h3, h4])) (scan_string rest)
                   | _ \<Rightarrow> None)
             else if simple_escape e = None then None
             else map_option (apfst ((@) [c, e])) (scan_string es))
      else map_option (apfst ((#) c)) (scan_string cs))"

text \<open>\<^verbatim>\<open>utf16.IsSurrogate\<close>, \<^verbatim>\<open>utf16.DecodeRune\<close>.\<close>

definition is_surrogate :: "nat \<Rightarrow> bool" where
  "is_surrogate r \<longleftrightarrow> 0xD800 \<le> r \<and> r < 0xE000"

definition surrogate_pair :: "nat \<Rightarrow> nat \<Rightarrow> nat" where
  "surrogate_pair r1 r2 =
     (if 0xD800 \<le> r1 \<and> r1 < 0xDC00 \<and> 0xDC00 \<le> r2 \<and> r2 < 0xE000
      then (r1 - 0xD800) * 1024 + (r2 - 0xDC00) + 0x10000 else rune_error)"

text \<open>\<^verbatim>\<open>getu4\<close>: the value of a \<^verbatim>\<open>\u\<close> escape at the start of the text.\<close>

fun getu4 :: "string \<Rightarrow> nat option" where
  "getu4 (c # u # rest) = (if c = backslash \<and> u = CHR ''u'' then hex4 rest else None)"
| "getu4 _ = None"

text \<open>\<^verbatim>\<open>unquoteBytes\<close> on a text that the scanner has accepted.\<close>

function unescape :: "string \<Rightarrow> string" where
  "unescape [] = []"
| "unescape (c # cs) =
     (if c = backslash
      then
        (case getu4 (c # cs) of
           Some r \<Rightarrow>
             if is_surrogate r
             then (case getu4 (drop 5 cs) of
                     Some r2 \<Rightarrow>
                       if surrogate_pair r r2 \<noteq> rune_error then rune_chars (surrogate_pair r r2) @ unescape (drop 11 cs)
                       else rune_chars rune_error @ unescape (drop 5 cs)
                   | None \<Rightarrow> rune_chars rune_error @ unescape (drop 5 cs))
             else rune_chars r @ unescape (drop 5 cs)
         | None \<Rightarrow>
             (case cs of
                [] \<Rightarrow> []
              | e # es \<Rightarrow> (case simple_escape e of None \<Rightarrow> [] | Some x \<Rightarrow> [x]) @ unescape es))
      else if code c < 0x80 then c # unescape cs
      else (case first_rune c cs of (r, n) \<Rightarrow> rune_chars r @ unescape (drop (n - 1) cs)))"
  by pat_completeness auto
termination
  by (relation "measure length") auto

text \<open>Strings of valid UTF-8.\<close>

function utf8_valid :: "string \<Rightarrow> bool" where
  "utf8_valid [] = True"
| "utf8_valid (c # cs) = (first_rune c cs \<noteq> (rune_error, 1) \<and> utf8_valid (drop (snd (first_rune c cs) - 1) cs))"
  by pat_completeness auto
termination
  by (relation "measure length") auto

text \<open>A rune of more than one byte at the start of a sequence of bytes.\<close>

definition wide_rune :: "nat \<Rightarrow> nat list \<Rightarrow> nat \<Rightarrow> nat \<Rightarrow> bool" where
  "wide_rune b0 bs r n \<longleftrightarrow> 2 \<le> n \<and> n - 1 \<le> length bs \<and> encode_rune r = take n (b0 # bs) \<and>
     (\<forall>b \<in> set (take n (b0 # bs)). 0x80 \<le> b)"

section \<open>Lemmas on runes\<close>

lemma code_less [simp]: "code c < 256"
  by (simp add: code_def)

lemma char_of_code [simp]: "char_of (code c) = c"
  by (simp add: code_def)

lemma code_inject [simp]: "code c = code d \<longleftrightarrow> c = d"
  by (simp add: code_def)

text \<open>A sequence that decodes: its bytes are not ASCII, encoding gives them back, and what follows does not matter.\<close>

lemma base64_digits:
  fixes a b c d :: nat
  assumes "b < 64" and "c < 64" and "d < 64"
  shows "(a * 64 + d) div 64 = a" "(a * 64 + d) mod 64 = d"
    "(a * 4096 + c * 64 + d) div 4096 = a" "(a * 4096 + c * 64 + d) div 64 mod 64 = c" "(a * 4096 + c * 64 + d) mod 64 = d"
    "(a * 262144 + b * 4096 + c * 64 + d) div 262144 = a" "(a * 262144 + b * 4096 + c * 64 + d) div 4096 mod 64 = b"
    "(a * 262144 + b * 4096 + c * 64 + d) div 64 mod 64 = c" "(a * 262144 + b * 4096 + c * 64 + d) mod 64 = d"
proof -
  show 1: "(a * 64 + d) div 64 = a" "(a * 64 + d) mod 64 = d" for a using assms(3) by simp_all
  have r3: "a * 4096 + c * 64 + d = (a * 64 + c) * 64 + d" by simp
  have d3: "(a * 4096 + c * 64 + d) div 64 = a * 64 + c" unfolding r3 by (rule 1)
  have r4: "a * 262144 + b * 4096 + c * 64 + d = (a * 4096 + b * 64 + c) * 64 + d" by simp
  have d4: "(a * 262144 + b * 4096 + c * 64 + d) div 64 = a * 4096 + b * 64 + c" unfolding r4 by (rule 1)
  have e4: "(a * 4096 + b * 64 + c) div 64 = a * 64 + b"
  proof -
    have "a * 4096 + b * 64 + c = (a * 64 + b) * 64 + c" by simp
    then show ?thesis using assms(2) by simp
  qed
  have q: "n div 4096 = n div 64 div 64" "n div 262144 = n div 64 div 64 div 64" for n :: nat
    by (simp_all add: div_mult2_eq [symmetric])
  show "(a * 4096 + c * 64 + d) div 4096 = a" unfolding q d3 using assms(2) by simp
  show "(a * 4096 + c * 64 + d) div 64 mod 64 = c" unfolding d3 using assms(2) by simp
  show "(a * 4096 + c * 64 + d) mod 64 = d" unfolding r3 by (rule 1)
  show "(a * 262144 + b * 4096 + c * 64 + d) div 262144 = a" unfolding q d4 e4 using assms(1) by simp
  show "(a * 262144 + b * 4096 + c * 64 + d) div 4096 mod 64 = b" unfolding q d4 e4 using assms(1) by simp
  show "(a * 262144 + b * 4096 + c * 64 + d) div 64 mod 64 = c" 
  proof -
    have m: "(x * 64 + c) mod 64 = c" for x using assms(2) by simp
    have r: "a * 4096 + b * 64 + c = (a * 64 + b) * 64 + c" by simp
    show ?thesis unfolding d4 r by (rule m)
  qed
  show "(a * 262144 + b * 4096 + c * 64 + d) mod 64 = d" unfolding r4 by (rule 1)
qed

lemma continuationD: "continuation b \<Longrightarrow> \<exists>j < 64. b = 0x80 + j"
  by (auto simp: continuation_def intro!: exI [of _ "b - 0x80"])

lemma decode2_wide:
  assumes "decode2 b0 bs = (r, n)" and "(r, n) \<noteq> (rune_error, 1)" and "0xC2 \<le> b0" and "b0 \<le> 0xDF"
  shows "wide_rune b0 bs r n \<and> decode2 b0 (take (n - 1) bs @ xs) = (r, n)"
proof -
  obtain b1 bs' where bs: "bs = b1 # bs'" "continuation b1" "r = (b0 - 0xC0) * 64 + (b1 - 0x80)" "n = 2"
    using assms(1,2) by (auto simp: decode2_def split: list.splits if_splits)
  obtain a where a: "b0 = 0xC0 + a" "2 \<le> a" "a \<le> 31" using assms(3,4) by (auto intro!: that [of "b0 - 0xC0"])
  obtain j where j: "b1 = 0x80 + j" "j < 64" using continuationD [OF bs(2)] by blast
  have "encode_rune r = [0xC0 + a, 0x80 + j]"
    using a j by (simp add: bs encode_rune_def base64_digits)
  then show ?thesis using bs a j by (simp add: wide_rune_def decode2_def continuation_def)
qed

lemma decode3_wide:
  assumes "decode3 b0 bs = (r, n)" and "(r, n) \<noteq> (rune_error, 1)" and "0xE0 \<le> b0" and "b0 \<le> 0xEF"
  shows "wide_rune b0 bs r n \<and> decode3 b0 (take (n - 1) bs @ xs) = (r, n)"
proof -
  obtain b1 b2 bs' where bs: "bs = b1 # b2 # bs'" "continuation b2" "n = 3"
    "r = (b0 - 0xE0) * 4096 + (b1 - 0x80) * 64 + (b2 - 0x80)"
    "(if b0 = 0xE0 then 0xA0 else 0x80) \<le> b1" "b1 \<le> (if b0 = 0xED then 0x9F else 0xBF)"
    using assms(1,2) by (auto simp: decode3_def split: list.splits if_splits)
  obtain a where a: "b0 = 0xE0 + a" "a \<le> 15" using assms(3,4) by (auto intro!: that [of "b0 - 0xE0"])
  have "continuation b1" using bs(5,6) by (auto simp: continuation_def split: if_splits)
  then obtain j where j: "b1 = 0x80 + j" "j < 64" using continuationD by blast
  obtain k where k: "b2 = 0x80 + k" "k < 64" using continuationD [OF bs(2)] by blast
  have r: "r = a * 4096 + j * 64 + k" using a j k bs(4) by simp
  have "0x800 \<le> r" using r a j bs(5) by (cases "a = 0") auto
  moreover have "r < 0x10000" using r a(2) j(2) k(2) by linarith
  moreover have "\<not> (0xD800 \<le> r \<and> r \<le> 0xDFFF)"
  proof (cases "a = 13")
    case True
    then have "j \<le> 31" using bs(6) a j by simp
    then show ?thesis using True r k(2) by linarith
  next
    case False
    then have "a \<le> 12 \<or> 14 \<le> a" by linarith
    then show ?thesis using r j(2) k(2) by linarith
  qed
  ultimately have "encode_rune r = [0xE0 + a, 0x80 + j, 0x80 + k]"
    using r j(2) k(2) by (simp add: encode_rune_def base64_digits)
  then show ?thesis using bs a j k by (simp add: wide_rune_def decode3_def continuation_def)
qed

lemma decode4_wide:
  assumes "decode4 b0 bs = (r, n)" and "(r, n) \<noteq> (rune_error, 1)" and "0xF0 \<le> b0" and "b0 \<le> 0xF4"
  shows "wide_rune b0 bs r n \<and> decode4 b0 (take (n - 1) bs @ xs) = (r, n)"
proof -
  obtain b1 b2 b3 bs' where bs: "bs = b1 # b2 # b3 # bs'" "continuation b2" "continuation b3" "n = 4"
    "r = (b0 - 0xF0) * 262144 + (b1 - 0x80) * 4096 + (b2 - 0x80) * 64 + (b3 - 0x80)"
    "(if b0 = 0xF0 then 0x90 else 0x80) \<le> b1" "b1 \<le> (if b0 = 0xF4 then 0x8F else 0xBF)"
    using assms(1,2) by (auto simp: decode4_def split: list.splits if_splits)
  obtain a where a: "b0 = 0xF0 + a" "a \<le> 4" using assms(3,4) by (auto intro!: that [of "b0 - 0xF0"])
  have "continuation b1" using bs(6,7) by (auto simp: continuation_def split: if_splits)
  then obtain i where i: "b1 = 0x80 + i" "i < 64" using continuationD by blast
  obtain j where j: "b2 = 0x80 + j" "j < 64" using continuationD [OF bs(2)] by blast
  obtain k where k: "b3 = 0x80 + k" "k < 64" using continuationD [OF bs(3)] by blast
  have r: "r = a * 262144 + i * 4096 + j * 64 + k" using a i j k bs(5) by simp
  have "0x10000 \<le> r" using r a i bs(6) by (cases "a = 0") auto
  moreover have "r \<le> 0x10FFFF"
  proof (cases "a = 4")
    case True
    then have "i \<le> 15" using bs(7) a i by simp
    then show ?thesis using True r j(2) k(2) by linarith
  next
    case False
    then show ?thesis using r a(2) i(2) j(2) k(2) by linarith
  qed
  ultimately have "encode_rune r = [0xF0 + a, 0x80 + i, 0x80 + j, 0x80 + k]"
    using r i(2) j(2) k(2) by (simp add: encode_rune_def base64_digits)
  then show ?thesis using bs a i j k by (simp add: wide_rune_def decode4_def continuation_def)
qed

lemma decode_rune_wide:
  assumes "decode_rune b0 bs = (r, n)" and "(r, n) \<noteq> (rune_error, 1)" and "0x80 \<le> b0"
  shows "wide_rune b0 bs r n" and "decode_rune b0 (take (n - 1) bs @ xs) = (r, n)"
  using assms decode2_wide [OF _ assms(2)] decode3_wide [OF _ assms(2)] decode4_wide [OF _ assms(2)]
  by (auto simp: decode_rune_def split: if_splits)

lemma first_rune_wide:
  assumes "first_rune c cs = (r, n)" and "(r, n) \<noteq> (rune_error, 1)" and "\<not> code c < 0x80"
  obtains m where "n = Suc m" and "1 \<le> m" and "m \<le> length cs" and "rune_chars r = c # take m cs"
    and "\<And>x. x \<in> set (c # take m cs) \<Longrightarrow> 0x80 \<le> code x" and "\<And>xs. first_rune c (take m cs @ xs) = (r, n)"
proof -
  have d: "decode_rune (code c) (map code cs) = (r, n)" using assms(1) by (simp add: first_rune_def)
  note w = decode_rune_wide [OF d assms(2)]
  have wide: "wide_rune (code c) (map code cs) r n" using w(1) assms(3) by simp
  define m where "m = n - 1"
  have n: "n = Suc m" "1 \<le> m" "m \<le> length cs" using wide by (auto simp: wide_rune_def m_def)
  have e: "encode_rune r = map code (c # take m cs)" using wide n by (simp add: wide_rune_def take_map)
  have "rune_chars r = c # take m cs" by (simp add: rune_chars_def e o_def)
  moreover have "0x80 \<le> code x" if "x \<in> set (c # take m cs)" for x
    using wide n that by (auto simp: wide_rune_def take_map)
  moreover have "first_rune c (take m cs @ xs) = (r, n)" for xs
    using w(2) [of "map code xs"] assms(3) n by (simp add: first_rune_def take_map)
  ultimately show ?thesis using that n by blast
qed

section \<open>Lemmas on strings\<close>

lemma hex_digit_value [simp]: "d < 16 \<Longrightarrow> hex_value (hex_digit d) = Some d"
  by (auto simp: hex_value_def hex_digit_def code_def Let_def)

lemma code_numerals: "code (char_of n) = n mod 256"
  by (simp add: code_def)

lemma rune_chars_ascii: "code c < 0x80 \<Longrightarrow> rune_chars (code c) = [c]"
  by (simp add: rune_chars_def encode_rune_def)

declare hex4.simps [simp del]

lemma append_one: "(@) [c] = (#) c"
  by (simp add: fun_eq_iff)

text \<open>Escapes of the form \<^verbatim>\<open>\u00xx\<close> and \<^verbatim>\<open>\u202x\<close>.\<close>

lemma hex4_u00: "i < 16 \<Longrightarrow> j < 16 \<Longrightarrow> hex4 (CHR ''0'' # CHR ''0'' # hex_digit i # hex_digit j # rest) = Some (i * 16 + j)"
  by (simp add: hex4.simps hex_value_def [of "CHR ''0''"] code_def)

lemma hex4_u202: "j < 16 \<Longrightarrow> hex4 (CHR ''2'' # CHR ''0'' # CHR ''2'' # hex_digit j # rest) = Some (0x2020 + j)"
  by (simp add: hex4.simps hex_value_def [of "CHR ''2''"] hex_value_def [of "CHR ''0''"] code_def)

lemma escape_ascii_cases:
  assumes "code c < 0x80"
  obtains (plain) "escape_ascii c = [c]" and "c \<noteq> quote_char" and "c \<noteq> backslash" and "\<not> code c < 0x20"
    | (short) e where "escape_ascii c = [backslash, e]" and "simple_escape e = Some c" and "e \<noteq> CHR ''u''"
    | (long) "escape_ascii c = [backslash, CHR ''u'', CHR ''0'', CHR ''0'', hex_digit (code c div 16), hex_digit (code c mod 16)]"
proof -
  let ?long = "[backslash, CHR ''u'', CHR ''0'', CHR ''0'', hex_digit (code c div 16), hex_digit (code c mod 16)]"
  have "escape_ascii c = [c] \<and> c \<noteq> quote_char \<and> c \<noteq> backslash \<and> \<not> code c < 0x20 \<or>
      (\<exists>e. escape_ascii c = [backslash, e] \<and> simple_escape e = Some c \<and> e \<noteq> CHR ''u'') \<or> escape_ascii c = ?long"
    unfolding escape_ascii_def by (simp add: simple_escape_def)
  then show ?thesis using plain short long by blast
qed

lemma scan_escape_ascii:
  assumes "code c < 0x80"
  shows "scan_string (escape_ascii c @ xs) = map_option (apfst ((@) (escape_ascii c))) (scan_string xs)"
  using assms
proof (cases rule: escape_ascii_cases)
  case plain
  then show ?thesis by (simp add: append_one)
next
  case (short e)
  then show ?thesis by (simp add: code_def)
next
  case long
  have "code c div 16 < 16" "code c mod 16 < 16" using assms by auto
  then show ?thesis unfolding long by (simp add: hex4_u00 code_def)
qed

lemma unescape_escape_ascii:
  assumes "code c < 0x80"
  shows "unescape (escape_ascii c @ xs) = c # unescape xs"
  using assms
proof (cases rule: escape_ascii_cases)
  case plain
  then show ?thesis using assms by simp
next
  case (short e)
  then show ?thesis by simp
next
  case long
  have d: "code c div 16 < 16" "code c mod 16 < 16" "code c div 16 * 16 + code c mod 16 = code c" using assms by auto
  have "getu4 (escape_ascii c @ xs) = Some (code c)" unfolding long using d by (simp add: hex4_u00)
  moreover have "\<not> is_surrogate (code c)" using assms by (simp add: is_surrogate_def)
  ultimately show ?thesis using rune_chars_ascii [OF assms] unfolding long by simp
qed

lemma scan_high:
  "(\<And>x. x \<in> set ys \<Longrightarrow> 0x80 \<le> code x) \<Longrightarrow> scan_string (ys @ xs) = map_option (apfst ((@) ys)) (scan_string xs)"
proof (induction ys)
  case (Cons y ys)
  have "0x80 \<le> code y" using Cons.prems by simp
  then have "y \<noteq> quote_char" "y \<noteq> backslash" "\<not> code y < 0x20" by (auto simp: code_def)
  then show ?case using Cons by (simp add: option.map_comp o_def apfst_def map_prod_def split_beta)
qed (simp add: apfst_def map_prod_def option.map_id)

text \<open>The scanner finds the end of what was written.\<close>

lemma scan_escape: "scan_string (escape s @ quote_char # rest) = Some (escape s, rest)"
proof (induction s rule: escape.induct)
  case 1
  then show ?case by simp
next
  case (2 c cs)
  obtain r n where rn: "first_rune c cs = (r, n)" by (cases "first_rune c cs")
  consider (ascii) "code c < 0x80" | (bad) "\<not> code c < 0x80" "(r, n) = (rune_error, 1)"
    | (wide) "\<not> code c < 0x80" "(r, n) \<noteq> (rune_error, 1)" by blast
  then show ?case
  proof cases
    case ascii
    then show ?thesis using "2.IH"(1) by (simp add: scan_escape_ascii)
  next
    case bad
    have h: "hex4 [CHR ''f'', CHR ''f'', CHR ''f'', CHR ''d''] \<noteq> None" by (simp add: hex4.simps hex_value_def code_def)
    have "scan_string (escape cs @ quote_char # rest) = Some (escape cs, rest)" using "2.IH"(2) bad rn by simp
    then show ?thesis using bad rn h by (simp add: code_def)
  next
    case wide
    obtain m where m: "n = Suc m" "m \<le> length cs" "\<And>x. x \<in> set (c # take m cs) \<Longrightarrow> 0x80 \<le> code x"
      using first_rune_wide [OF rn wide(2,1)] by metis
    show ?thesis
    proof (cases "r = 0x2028 \<or> r = 0x2029")
      case True
      have "scan_string (escape (drop (n - 1) cs) @ quote_char # rest) = Some (escape (drop (n - 1) cs), rest)"
        using "2.IH"(3) wide rn True by simp
      moreover have "hex4 [CHR ''2'', CHR ''0'', CHR ''2'', hex_digit (r mod 16)] \<noteq> None"
        using hex4_u202 [of "r mod 16" "[]"] by simp
      ultimately show ?thesis using wide rn True by (auto simp: code_def)
    next
      case False
      have "scan_string (escape (drop (n - 1) cs) @ quote_char # rest) = Some (escape (drop (n - 1) cs), rest)"
        using "2.IH"(4) wide rn False by simp
      moreover have "escape (c # cs) = (c # take m cs) @ escape (drop m cs)" using wide rn False m(1) by auto
      ultimately show ?thesis
        using scan_high [of "c # take m cs" "escape (drop m cs) @ quote_char # rest"] m(1,3) by simp
    qed
  qed
qed

text \<open>Reading gives back a string of valid UTF-8.\<close>

lemma unescape_escape: "utf8_valid s \<Longrightarrow> unescape (escape s) = s"
proof (induction s rule: escape.induct)
  case 1
  then show ?case by simp
next
  case (2 c cs)
  obtain r n where rn: "first_rune c cs = (r, n)" by (cases "first_rune c cs")
  have ok: "(r, n) \<noteq> (rune_error, 1)" "utf8_valid (drop (n - 1) cs)" using "2.prems" rn by auto
  show ?case
  proof (cases "code c < 0x80")
    case True
    then have "(r, n) = (code c, 1)" using rn by (simp add: first_rune_def decode_rune_def)
    then show ?thesis using "2.IH"(1) True ok(2) by (simp add: unescape_escape_ascii)
  next
    case wide: False
    obtain m where m: "n = Suc m" "m \<le> length cs" "rune_chars r = c # take m cs" "0x80 \<le> code c"
      "\<And>xs. first_rune c (take m cs @ xs) = (r, n)" "1 \<le> m"
      using first_rune_wide [OF rn ok(1) wide] by (metis list.set_intros(1))
    show ?thesis
    proof (cases "r = 0x2028 \<or> r = 0x2029")
      case True
      have IH: "unescape (escape (drop m cs)) = drop m cs" using "2.IH"(3) wide rn True ok m(1) by simp
      have e: "escape (c # cs) = backslash # CHR ''u'' # CHR ''2'' # CHR ''0'' # CHR ''2'' # hex_digit (r mod 16) # escape (drop m cs)"
        using wide rn True m(1) by (auto simp: rune_error_def)
      have "0x2020 + r mod 16 = r" using True by auto
      then have g: "getu4 (escape (c # cs)) = Some r" unfolding e using hex4_u202 [of "r mod 16" "escape (drop m cs)"] by simp
      have s: "\<not> is_surrogate r" using True by (auto simp: is_surrogate_def)
      have "unescape (escape (c # cs)) = rune_chars r @ unescape (escape (drop m cs))"
        using g s unfolding e by simp
      then show ?thesis using IH m(3) by simp
    next
      case False
      have IH: "unescape (escape (drop m cs)) = drop m cs" using "2.IH"(4) wide rn False ok m(1) by simp
      have e: "escape (c # cs) = c # take m cs @ escape (drop m cs)" using wide rn False m(1) ok(1) by auto
      have "c \<noteq> backslash" using m(4) by (auto simp: code_def)
      then have "unescape (c # take m cs @ escape (drop m cs)) = rune_chars r @ unescape (escape (drop m cs))"
        using wide m(1,2,5) by simp
      then show ?thesis using e IH m(3) by simp
    qed
  qed
qed

lemma utf8_valid_ascii: "(\<And>c. c \<in> set s \<Longrightarrow> code c < 0x80) \<Longrightarrow> utf8_valid s"
proof (induction s)
  case (Cons c s)
  then have "code c < 0x80" "utf8_valid s" by simp_all
  then show ?case by (simp add: first_rune_def decode_rune_def rune_error_def)
qed simp

text \<open>The strings of the sources are ASCII.\<close>

lemma utf8_literal: "list_all (\<lambda>c. \<not> digit7 c) s \<Longrightarrow> utf8_valid s"
proof (rule utf8_valid_ascii)
  fix c assume "list_all (\<lambda>c. \<not> digit7 c) s" and "c \<in> set s"
  then have "\<not> digit7 c" by (simp add: list_all_iff)
  then show "code c < 0x80" by (cases c) (auto simp: code_def)
qed

text \<open>What is read is always valid UTF-8, whatever the text.\<close>

lemma encode_rune_wide: "0x80 \<le> r \<Longrightarrow> \<exists>b bs r'. encode_rune r = b # bs \<and> decode_rune b bs = (r', Suc (length bs)) \<and> bs \<noteq> [] \<and> set (b # bs) \<subseteq> {0..255}"
proof -
  assume r: "0x80 \<le> r"
  have m: "x mod 64 < 64" for x :: nat by simp
  consider (two) "r < 0x800" | (bad) "0x800 \<le> r" "0xD800 \<le> r \<and> r \<le> 0xDFFF \<or> 0x10FFFF < r"
    | (three) "0x800 \<le> r" "r < 0x10000" "\<not> (0xD800 \<le> r \<and> r \<le> 0xDFFF)" | (four) "0x10000 \<le> r" "r \<le> 0x10FFFF"
    by linarith
  then show ?thesis
  proof cases
    case two
    then show ?thesis using r m [of r] by (auto simp: encode_rune_def decode_rune_def decode2_def continuation_def)
  next
    case bad
    then show ?thesis using r by (auto simp: encode_rune_def decode_rune_def decode3_def continuation_def)
  next
    case three
    have q: "r div 4096 = r div 64 div 64" by (simp add: div_mult2_eq [symmetric])
    have "r div 4096 \<le> 15" using three(2) by linarith
    moreover have "32 \<le> r div 64 mod 64" if "r div 4096 = 0" using that three(1) by (auto simp: div_eq_0_iff)
    moreover have "r div 64 mod 64 < 32" if "r div 4096 = 13"
    proof -
      have "r < 0xD800" using that three(3) by auto
      then have "r div 64 < 864" by (simp add: less_mult_imp_div_less)
      moreover have "r div 64 = r div 4096 * 64 + r div 64 mod 64" unfolding q by simp
      ultimately show ?thesis using that by linarith
    qed
    ultimately show ?thesis using three m [of r] m [of "r div 64"]
      by (auto simp: encode_rune_def decode_rune_def decode3_def continuation_def)
  next
    case four
    have q: "r div 262144 = r div 4096 div 64" by (simp add: div_mult2_eq [symmetric])
    have "r div 262144 \<le> 4" using four by linarith
    moreover have "16 \<le> r div 4096 mod 64" if "r div 262144 = 0"
      using that four(1) by (auto simp: div_eq_0_iff)
    moreover have "r div 4096 mod 64 < 16" if "r div 262144 = 4"
    proof -
      have "r div 4096 < 272" using four(2) by (simp add: less_mult_imp_div_less)
      moreover have "r div 4096 = r div 262144 * 64 + r div 4096 mod 64" unfolding q by simp
      ultimately show ?thesis using that by linarith
    qed
    ultimately show ?thesis using four m [of r] m [of "r div 64"] m [of "r div 4096"]
      by (auto simp: encode_rune_def decode_rune_def decode4_def continuation_def)
  qed
qed

lemma utf8_valid_rune: "utf8_valid (rune_chars r)"
proof (cases "r < 0x80")
  case True
  then show ?thesis by (intro utf8_valid_ascii) (simp add: rune_chars_def encode_rune_def code_numerals)
next
  case False
  then obtain b bs r' where e: "encode_rune r = b # bs" "decode_rune b bs = (r', Suc (length bs))" "bs \<noteq> []" "set (b # bs) \<subseteq> {0..255}"
    using encode_rune_wide [of r] by auto
  have "map code (map char_of xs) = xs" if "set xs \<subseteq> {0..255}" for xs
    using that by (induction xs) (auto simp: code_numerals)
  then have "first_rune (char_of b) (map char_of bs) = (r', Suc (length bs))"
    using e(2) e(4) by (simp add: first_rune_def code_numerals)
  then show ?thesis using e(1,3) by (simp add: rune_chars_def)
qed

lemma utf8_valid_append: "utf8_valid xs \<Longrightarrow> utf8_valid ys \<Longrightarrow> utf8_valid (xs @ ys)"
proof (induction xs rule: utf8_valid.induct)
  case (2 c cs)
  obtain r n where rn: "first_rune c cs = (r, n)" by (cases "first_rune c cs")
  have ok: "(r, n) \<noteq> (rune_error, 1)" "utf8_valid (drop (n - 1) cs)" using "2.prems" rn by auto
  then have IH: "utf8_valid (drop (n - 1) cs @ ys)" using "2.IH" "2.prems"(2) rn by simp
  show ?case
  proof (cases "code c < 0x80")
    case True
    then have "n = 1" "first_rune c (cs @ ys) = (r, n)" using rn by (auto simp: first_rune_def decode_rune_def)
    then show ?thesis using IH ok(1) by simp
  next
    case False
    obtain m where m: "n = Suc m" "m \<le> length cs" "\<And>xs. first_rune c (take m cs @ xs) = (r, n)"
      using first_rune_wide [OF rn ok(1) False] by metis
    have "first_rune c (cs @ ys) = (r, n)" using m(3) [of "drop m cs @ ys"] by (simp flip: append_assoc)
    then show ?thesis using IH ok(1) m(1,2) by simp
  qed
qed simp

lemma utf8_valid_unescape: "utf8_valid (unescape s)"
proof (induction s rule: unescape.induct)
  case (2 c cs)
  have simple: "utf8_valid [x]" if "simple_escape e = Some x" for e x
    using that by (intro utf8_valid_ascii) (auto simp: simple_escape_def code_def split: if_splits)
  have ascii: "utf8_valid (c # xs)" if "code c < 0x80" "utf8_valid xs" for xs
    using utf8_valid_append [OF utf8_valid_ascii [of "[c]"] that(2)] that(1) by simp
  note joins = utf8_valid_append [OF utf8_valid_rune] utf8_valid_append [OF simple]
  show ?case
  proof (cases "c = backslash")
    case True
    then show ?thesis using "2.IH"(1-5) joins
      by (auto split: option.split list.split simp del: utf8_valid.simps(2) getu4.simps append_Cons)
  next
    case False
    then show ?thesis using "2.IH"(6,7) joins(1) ascii by (auto split: prod.split simp del: utf8_valid.simps(2))
  qed
qed simp

end
