(* ===== verification/Json.thy ===== *)
theory Json
  imports Json_Text
begin

text \<open>
  JSON values as \<^verbatim>\<open>encoding/json\<close> writes and reads them: \<^verbatim>\<open>Marshal\<close> of objects, strings and
  integers, and \<^verbatim>\<open>Unmarshal\<close> into structs. Reading first splits the text into tokens and then
  runs over them with a stack of open arrays and objects, as the scanner of the library does;
  more than 10000 open ones are an error. Shown here: reading gives back what was written.
\<close>

section \<open>Values and writing\<close>

text \<open>A number is kept as its text; the members of an object are in the order of the text.\<close>

datatype json =
    JNull
  | JBool bool
  | JNumber string
  | JString string
  | JArray "json list"
  | JObject "(string \<times> json) list"

fun separated :: "string list \<Rightarrow> string" where
  "separated [] = []"
| "separated [x] = x"
| "separated (x # y # xs) = x @ '','' @ separated (y # xs)"

fun json_print :: "json \<Rightarrow> string" where
  "json_print JNull = ''null''"
| "json_print (JBool b) = (if b then ''true'' else ''false'')"
| "json_print (JNumber n) = n"
| "json_print (JString s) = quote s"
| "json_print (JArray xs) = ''['' @ separated (map json_print xs) @ '']''"
| "json_print (JObject ms) = ''{'' @ separated (map (\<lambda>(k, v). quote k @ '':'' @ json_print v) ms) @ ''}''"

section \<open>Tokens\<close>

datatype token = OpenBrace | CloseBrace | OpenBracket | CloseBracket | Comma | Colon | Text string | Atom json

definition is_digit :: "char \<Rightarrow> bool" where
  "is_digit c \<longleftrightarrow> 48 \<le> code c \<and> code c \<le> 57"

definition is_space :: "char \<Rightarrow> bool" where
  "is_space c \<longleftrightarrow> c = CHR '' '' \<or> c = CHR 0x09 \<or> c = CHR 0x0A \<or> c = CHR 0x0D"

text \<open>The parts of a number: each returns its text and what follows.\<close>

fun lex_sign :: "string \<Rightarrow> string \<times> string" where
  "lex_sign (c # cs) = (if c = CHR ''-'' then (''-'', cs) else ([], c # cs))"
| "lex_sign [] = ([], [])"

fun lex_int :: "string \<Rightarrow> (string \<times> string) option" where
  "lex_int (c # cs) =
     (if c = CHR ''0'' then Some (''0'', cs)
      else if is_digit c then Some (c # takeWhile is_digit cs, dropWhile is_digit cs)
      else None)"
| "lex_int [] = None"

definition lex_digits :: "string \<Rightarrow> string \<Rightarrow> (string \<times> string) option" where
  "lex_digits pre s = (if takeWhile is_digit s = [] then None else Some (pre @ takeWhile is_digit s, dropWhile is_digit s))"

fun lex_frac :: "string \<Rightarrow> (string \<times> string) option" where
  "lex_frac (c # cs) = (if c = CHR ''.'' then lex_digits [c] cs else Some ([], c # cs))"
| "lex_frac [] = Some ([], [])"

fun lex_exp :: "string \<Rightarrow> (string \<times> string) option" where
  "lex_exp (c # cs) =
     (if c = CHR ''e'' \<or> c = CHR ''E''
      then (case cs of
              d # ds \<Rightarrow> if d = CHR ''+'' \<or> d = CHR ''-'' then lex_digits [c, d] ds else lex_digits [c] cs
            | [] \<Rightarrow> None)
      else Some ([], c # cs))"
| "lex_exp [] = Some ([], [])"

definition lex_number :: "string \<Rightarrow> (string \<times> string) option" where
  "lex_number s =
     (case lex_sign s of
        (sg, s1) \<Rightarrow>
          (case lex_int s1 of
             None \<Rightarrow> None
           | Some (i, s2) \<Rightarrow>
               (case lex_frac s2 of
                  None \<Rightarrow> None
                | Some (f, s3) \<Rightarrow>
                    (case lex_exp s3 of None \<Rightarrow> None | Some (e, s4) \<Rightarrow> Some (sg @ i @ f @ e, s4)))))"

text \<open>The rest of a text that starts with a given word.\<close>

definition after_word :: "string \<Rightarrow> string \<Rightarrow> string option" where
  "after_word w s = (if take (length w) s = w then Some (drop (length w) s) else None)"

lemma lex_digits_length: "lex_digits pre s = Some (t, r) \<Longrightarrow> length r < length s"
  by (auto simp: lex_digits_def split: if_splits)
    (metis length_append length_greater_0_conv less_add_same_cancel2 takeWhile_dropWhile_id)

lemma lex_number_length: "lex_number s = Some (t, r) \<Longrightarrow> length r < length s"
proof -
  assume "lex_number s = Some (t, r)"
  then obtain sg s1 i s2 f s3 e where p: "lex_sign s = (sg, s1)" "lex_int s1 = Some (i, s2)" "lex_frac s2 = Some (f, s3)"
    "lex_exp s3 = Some (e, r)"
    by (auto simp: lex_number_def split: prod.splits option.splits)
  have "length s1 \<le> length s" using p(1) by (cases s) (auto split: if_splits)
  moreover have "length s2 < length s1"
    using p(2) by (cases s1) (auto split: if_splits intro: le_less_trans [OF length_dropWhile_le])
  moreover have "length s3 \<le> length s2" using p(3) lex_digits_length by (cases s2) (fastforce split: if_splits)+
  moreover have "length r \<le> length s3"
    using p(4) lex_digits_length by (cases s3) (fastforce split: if_splits list.splits)+
  ultimately show ?thesis by simp
qed

lemma scan_string_length: "scan_string s = Some (t, r) \<Longrightarrow> length r < length s"
  by (induction s arbitrary: t rule: scan_string.induct) (fastforce split: if_splits list.splits)+

function lex_json :: "string \<Rightarrow> token list option" where
  "lex_json [] = Some []"
| "lex_json (c # cs) =
     (if is_space c then lex_json cs
      else if c = CHR ''{'' then map_option ((#) OpenBrace) (lex_json cs)
      else if c = CHR ''}'' then map_option ((#) CloseBrace) (lex_json cs)
      else if c = CHR ''['' then map_option ((#) OpenBracket) (lex_json cs)
      else if c = CHR '']'' then map_option ((#) CloseBracket) (lex_json cs)
      else if c = CHR '','' then map_option ((#) Comma) (lex_json cs)
      else if c = CHR '':'' then map_option ((#) Colon) (lex_json cs)
      else if c = quote_char
      then (case scan_string cs of None \<Rightarrow> None | Some (raw, rest) \<Rightarrow> map_option ((#) (Text (unescape raw))) (lex_json rest))
      else if c = CHR ''t'' then (case after_word ''rue'' cs of None \<Rightarrow> None | Some rest \<Rightarrow> map_option ((#) (Atom (JBool True))) (lex_json rest))
      else if c = CHR ''f'' then (case after_word ''alse'' cs of None \<Rightarrow> None | Some rest \<Rightarrow> map_option ((#) (Atom (JBool False))) (lex_json rest))
      else if c = CHR ''n'' then (case after_word ''ull'' cs of None \<Rightarrow> None | Some rest \<Rightarrow> map_option ((#) (Atom JNull)) (lex_json rest))
      else (case lex_number (c # cs) of None \<Rightarrow> None | Some (n, rest) \<Rightarrow> map_option ((#) (Atom (JNumber n))) (lex_json rest)))"
  by pat_completeness auto
termination
  by (relation "measure length")
    (auto simp: after_word_def dest: scan_string_length lex_number_length split: if_splits)

section \<open>Reading\<close>

text \<open>
  What the reader expects next, and the arrays and objects that are open: their elements so
  far, last one first, and the key whose value is being read.
\<close>

datatype mode = WantValue | WantFirst | WantKeyOrEnd | WantKey | WantColon | HaveValue json
datatype frame = ArrayFrame "json list" | ObjectFrame "(string \<times> json) list" | KeyFrame "(string \<times> json) list" string

definition max_depth :: nat where
  "max_depth = 10000"

fun open_value :: "token \<Rightarrow> frame list \<Rightarrow> (mode \<times> frame list) option" where
  "open_value (Text s) fs = Some (HaveValue (JString s), fs)"
| "open_value (Atom v) fs = Some (HaveValue v, fs)"
| "open_value OpenBracket fs = (if length fs < max_depth then Some (WantFirst, ArrayFrame [] # fs) else None)"
| "open_value OpenBrace fs = (if length fs < max_depth then Some (WantKeyOrEnd, ObjectFrame [] # fs) else None)"
| "open_value _ fs = None"

fun read_token :: "token \<Rightarrow> mode \<times> frame list \<Rightarrow> (mode \<times> frame list) option" where
  "read_token t (WantValue, fs) = open_value t fs"
| "read_token CloseBracket (WantFirst, ArrayFrame [] # fs) = Some (HaveValue (JArray []), fs)"
| "read_token t (WantFirst, fs) = open_value t fs"
| "read_token CloseBrace (WantKeyOrEnd, ObjectFrame ms # fs) = Some (HaveValue (JObject (rev ms)), fs)"
| "read_token (Text k) (WantKeyOrEnd, ObjectFrame ms # fs) = Some (WantColon, KeyFrame ms k # fs)"
| "read_token (Text k) (WantKey, ObjectFrame ms # fs) = Some (WantColon, KeyFrame ms k # fs)"
| "read_token Colon (WantColon, fs) = Some (WantValue, fs)"
| "read_token Comma (HaveValue v, ArrayFrame xs # fs) = Some (WantValue, ArrayFrame (v # xs) # fs)"
| "read_token CloseBracket (HaveValue v, ArrayFrame xs # fs) = Some (HaveValue (JArray (rev (v # xs))), fs)"
| "read_token Comma (HaveValue v, KeyFrame ms k # fs) = Some (WantKey, ObjectFrame ((k, v) # ms) # fs)"
| "read_token CloseBrace (HaveValue v, KeyFrame ms k # fs) = Some (HaveValue (JObject (rev ((k, v) # ms))), fs)"
| "read_token t s = None"

fun read_tokens :: "token list \<Rightarrow> mode \<times> frame list \<Rightarrow> (mode \<times> frame list) option" where
  "read_tokens [] s = Some s"
| "read_tokens (t # ts) s = (case read_token t s of None \<Rightarrow> None | Some s' \<Rightarrow> read_tokens ts s')"

definition json_parse :: "string \<Rightarrow> json option" where
  "json_parse s =
     (case lex_json s of
        None \<Rightarrow> None
      | Some ts \<Rightarrow> (case read_tokens ts (WantValue, []) of Some (HaveValue v, []) \<Rightarrow> Some v | _ \<Rightarrow> None))"

section \<open>Reading into a struct\<close>

text \<open>
  Two keys are the same up to the case of letters, by \<^verbatim>\<open>foldName\<close>: besides the letters of the
  other case, the long s and the Kelvin sign fold to a letter. How other runes fold among
  themselves does not matter, since the names of fields are ASCII.
\<close>

definition fold_rune :: "nat \<Rightarrow> nat" where
  "fold_rune r = (if 97 \<le> r \<and> r \<le> 122 then r - 32 else if r = 0x17F then 83 else if r = 0x212A then 75 else r)"

definition fold_name :: "string \<Rightarrow> nat list" where
  "fold_name s = map fold_rune (runes s)"

text \<open>
  The fields of a struct: name, and what storing a value does to it (\<open>None\<close> if the value has the
  wrong type). A field is found by its name, or else up to the case of letters.
\<close>

type_synonym 'a field = "string \<times> (json \<Rightarrow> 'a \<Rightarrow> 'a option)"

definition find_field :: "'a field list \<Rightarrow> string \<Rightarrow> 'a field option" where
  "find_field fields k =
     (case find (\<lambda>f. fst f = k) fields of
        Some f \<Rightarrow> Some f
      | None \<Rightarrow> find (\<lambda>f. fold_name (fst f) = fold_name k) fields)"

text \<open>Members without a field are skipped; after a value of the wrong type reading goes on, and the
  error is returned at the end.\<close>

fun store_members :: "'a field list \<Rightarrow> (string \<times> json) list \<Rightarrow> 'a \<Rightarrow> 'a \<times> bool" where
  "store_members fields [] a = (a, True)"
| "store_members fields ((k, v) # ms) a =
     (case find_field fields k of
        None \<Rightarrow> store_members fields ms a
      | Some f \<Rightarrow>
          (case snd f v a of
             Some a' \<Rightarrow> store_members fields ms a'
           | None \<Rightarrow> (fst (store_members fields ms a), False)))"

datatype json_error = SyntaxError | UnmarshalTypeError

definition unmarshal_struct :: "'a field list \<Rightarrow> 'a \<Rightarrow> string \<Rightarrow> json_error + 'a" where
  "unmarshal_struct fields zero text =
     (case json_parse text of
        None \<Rightarrow> Inl SyntaxError
      | Some JNull \<Rightarrow> Inr zero
      | Some (JObject ms) \<Rightarrow> (case store_members fields ms zero of (a, True) \<Rightarrow> Inr a | (a, False) \<Rightarrow> Inl UnmarshalTypeError)
      | Some _ \<Rightarrow> Inl UnmarshalTypeError)"

text \<open>Fields of type \<^verbatim>\<open>string\<close>, \<^verbatim>\<open>bool\<close> and \<^verbatim>\<open>int64\<close> (by \<^verbatim>\<open>strconv.ParseInt\<close>); \<^verbatim>\<open>null\<close> leaves a field alone.\<close>

fun store_string :: "((string \<Rightarrow> string) \<Rightarrow> 'a \<Rightarrow> 'a) \<Rightarrow> json \<Rightarrow> 'a \<Rightarrow> 'a option" where
  "store_string upd (JString s) a = Some (upd (\<lambda>_. s) a)"
| "store_string upd JNull a = Some a"
| "store_string upd v a = None"

fun store_bool :: "((bool \<Rightarrow> bool) \<Rightarrow> 'a \<Rightarrow> 'a) \<Rightarrow> json \<Rightarrow> 'a \<Rightarrow> 'a option" where
  "store_bool upd (JBool b) a = Some (upd (\<lambda>_. b) a)"
| "store_bool upd JNull a = Some a"
| "store_bool upd v a = None"

definition parse_int64 :: "string \<Rightarrow> int64 option" where
  "parse_int64 n =
     (case lex_sign n of
        (sg, ds) \<Rightarrow>
          let i = read_int n
          in if ds \<noteq> [] \<and> list_all is_digit ds \<and> - (2 ^ 63) \<le> i \<and> i < 2 ^ 63 then Some (of_int i) else None)"

fun store_int64 :: "((int64 \<Rightarrow> int64) \<Rightarrow> 'a \<Rightarrow> 'a) \<Rightarrow> json \<Rightarrow> 'a \<Rightarrow> 'a option" where
  "store_int64 upd (JNumber n) a = (case parse_int64 n of None \<Rightarrow> None | Some i \<Rightarrow> Some (upd (\<lambda>_. i) a))"
| "store_int64 upd JNull a = Some a"
| "store_int64 upd v a = None"

section \<open>Well-formed values\<close>

fun tokens :: "json \<Rightarrow> token list" where
  "tokens (JString s) = [Text s]"
| "tokens (JArray xs) = OpenBracket # (case map tokens xs of [] \<Rightarrow> [] | t # ts \<Rightarrow> t @ concat (map ((#) Comma) ts)) @ [CloseBracket]"
| "tokens (JObject ms) =
     OpenBrace # (case map (\<lambda>(k, v). Text k # Colon # tokens v) ms of [] \<Rightarrow> [] | t # ts \<Rightarrow> t @ concat (map ((#) Comma) ts)) @ [CloseBrace]"
| "tokens v = [Atom v]"

fun depth :: "json \<Rightarrow> nat" where
  "depth (JArray xs) = Suc (foldr max (map depth xs) 0)"
| "depth (JObject ms) = Suc (foldr max (map (\<lambda>(k, v). depth v) ms) 0)"
| "depth v = 0"

text \<open>Values that the sources write: strings of valid UTF-8 and integers.\<close>

fun json_ok :: "json \<Rightarrow> bool" where
  "json_ok (JString s) = utf8_valid s"
| "json_ok (JNumber n) = (n = show_int (read_int n))"
| "json_ok (JArray xs) = list_all json_ok xs"
| "json_ok (JObject ms) = list_all (\<lambda>(k, v). utf8_valid k \<and> json_ok v) ms"
| "json_ok v = True"

text \<open>A text may be followed by the end, a comma, a closing bracket or a new line.\<close>

definition boundary :: "string \<Rightarrow> bool" where
  "boundary rest \<longleftrightarrow> rest = [] \<or> hd rest \<in> {CHR '','', CHR '']'', CHR ''}'', CHR 0x0A}"

definition lexes :: "string \<Rightarrow> token list \<Rightarrow> bool" where
  "lexes text ts \<longleftrightarrow> (\<forall>rest. boundary rest \<longrightarrow> lex_json (text @ rest) = map_option ((@) ts) (lex_json rest))"

section \<open>Lemmas on tokens\<close>

lemma append_funs: "(@) [] = (\<lambda>r. r)" "(@) (x # xs) = (\<lambda>r. x # xs @ r)" "(@) (xs @ ys) = (\<lambda>r. xs @ ys @ r)"
  by (simp_all add: fun_eq_iff)

lemma char_of_48: "char_of (48 :: nat) = CHR ''0''"
  by (rule of_char_eq_iff [where ?'a = nat, THEN iffD1]) simp

lemma lexesD: "lexes text ts \<Longrightarrow> boundary rest \<Longrightarrow> lex_json (text @ rest) = map_option ((@) ts) (lex_json rest)"
  by (simp add: lexes_def)

lemma boundary_simps [simp]: "boundary []" "boundary (CHR '','' # r)" "boundary (CHR '']'' # r)" "boundary (CHR ''}'' # r)"
  by (simp_all add: boundary_def)

lemma boundary_not_digit: "boundary rest \<Longrightarrow> takeWhile is_digit rest = [] \<and> dropWhile is_digit rest = rest"
  by (cases rest) (auto simp: boundary_def is_digit_def code_def)

lemma is_digit_digit_char: "d < 10 \<Longrightarrow> is_digit (digit_char d)"
  by (simp add: is_digit_def digit_char_def code_def)

lemma show_nat_is_digit: "list_all is_digit (show_nat n)"
  using show_nat_digits by (auto simp: list_all_iff is_digit_def code_def)

text \<open>No number starts with a zero but zero itself.\<close>

lemma show_nat_first: "n \<noteq> 0 \<Longrightarrow> hd (show_nat n) \<noteq> CHR ''0''"
proof (induction n rule: show_nat.induct)
  case (1 n)
  show ?case
  proof (cases "n < 10")
    case True
    have "char_digit (CHR ''0'') = 0" by (simp add: char_digit_def)
    then have "digit_char n \<noteq> CHR ''0''" using char_digit_digit_char [OF True] "1.prems" by auto
    then show ?thesis using True by (subst show_nat.simps) simp
  next
    case False
    then have "hd (show_nat (n div 10)) \<noteq> CHR ''0''" using "1.IH" by simp
    then show ?thesis using False by (subst show_nat.simps) simp
  qed
qed

lemma lex_int_show:
  assumes "boundary rest"
  shows "lex_int (show_nat n @ rest) = Some (show_nat n, rest)"
proof (cases "n = 0")
  case True
  have "show_nat 0 = ''0''" by (simp add: show_nat.simps digit_char_def char_of_48)
  then show ?thesis using True by simp
next
  case False
  obtain c cs where s: "show_nat n = c # cs" by (cases "show_nat n") auto
  then have c: "c \<noteq> CHR ''0''" "is_digit c" "\<forall>x \<in> set cs. is_digit x"
    using show_nat_first [OF False] show_nat_is_digit [of n] by (auto simp: list_all_iff)
  have "takeWhile is_digit (cs @ rest) = cs" "dropWhile is_digit (cs @ rest) = rest"
    using c(3) boundary_not_digit [OF assms] by (simp_all add: takeWhile_append dropWhile_append)
  then show ?thesis using c s by simp
qed

lemma lex_frac_exp_boundary: "boundary rest \<Longrightarrow> lex_frac rest = Some ([], rest) \<and> lex_exp rest = Some ([], rest)"
  by (cases rest) (auto simp: boundary_def)

lemma show_nat_no_minus: "lex_sign (show_nat n @ rest) = ([], show_nat n @ rest)"
  using show_nat_no_sign [of n] by (cases "show_nat n") auto

lemma lex_number_show:
  assumes "boundary rest"
  shows "lex_number (show_int i @ rest) = Some (show_int i, rest)"
  using lex_int_show [OF assms] lex_frac_exp_boundary [OF assms] show_nat_no_minus
  by (simp add: lex_number_def show_int_def)

lemma digit_or_minus:
  "is_digit c \<or> c = CHR ''-'' \<Longrightarrow> \<not> is_space c \<and> c \<notin> {CHR ''{'', CHR ''}'', CHR ''['', CHR '']'', CHR '','', CHR '':'', quote_char, CHR ''t'', CHR ''f'', CHR ''n''}"
  by (auto simp: is_digit_def is_space_def code_def)

lemma lexes_number: "lexes (show_int i) [Atom (JNumber (show_int i))]"
proof -
  obtain c cs where s: "show_int i = c # cs" by (cases "show_int i") auto
  have "is_digit c \<or> c = CHR ''-''"
    using s show_nat_is_digit [of "nat i"] by (auto simp: show_int_def split: if_splits)
  note c = digit_or_minus [OF this]
  have "lex_json ((c # cs) @ rest) = map_option ((@) [Atom (JNumber (c # cs))]) (lex_json rest)" if "boundary rest" for rest
    using c lex_number_show [OF that, of i] by (simp add: s append_one)
  then show ?thesis by (simp add: lexes_def s)
qed

lemma lexes_string: "utf8_valid s \<Longrightarrow> lex_json (quote s @ rest) = map_option ((#) (Text s)) (lex_json rest)"
  using scan_escape [of s rest] unescape_escape [of s] by (simp add: quote_def is_space_def)

lemma lexes_words: "lexes ''null'' [Atom JNull]" "lexes ''true'' [Atom (JBool True)]" "lexes ''false'' [Atom (JBool False)]"
  by (simp_all add: lexes_def is_space_def after_word_def append_one)

lemma lexes_member:
  assumes "utf8_valid k" and "lexes text ts"
  shows "lexes (quote k @ '':'' @ text) (Text k # Colon # ts)"
proof -
  have "lex_json ((quote k @ '':'' @ text) @ rest) = map_option ((@) (Text k # Colon # ts)) (lex_json rest)" if "boundary rest" for rest
    using lexes_string [OF assms(1), of "'':'' @ text @ rest"] lexesD [OF assms(2) that]
    by (simp add: is_space_def option.map_comp o_def append_funs)
  then show ?thesis by (simp add: lexes_def)
qed

text \<open>Texts separated by commas.\<close>

definition joined :: "token list list \<Rightarrow> token list" where
  "joined tss = (case tss of [] \<Rightarrow> [] | t # ts \<Rightarrow> t @ concat (map ((#) Comma) ts))"

lemma joined_Cons: "joined (t # u # ts) = t @ Comma # joined (u # ts)" "joined [t] = t" "joined [] = []"
  by (simp_all add: joined_def)

lemma lexes_separated: "list_all2 lexes texts tss \<Longrightarrow> lexes (separated texts) (joined tss)"
proof (induction texts arbitrary: tss rule: separated.induct)
  case 1
  then show ?case by (simp add: joined_Cons lexes_def append_funs option.map_ident)
next
  case (2 x)
  then obtain t where "tss = [t]" "lexes x t" by (auto simp: list_all2_Cons1)
  then show ?case by (simp add: joined_Cons)
next
  case (3 x y xs)
  from "3.prems" obtain t u ts where tss: "tss = t # u # ts" "lexes x t" "lexes y u" "list_all2 lexes xs ts"
    by (auto simp: list_all2_Cons1)
  then have IH: "lexes (separated (y # xs)) (joined (u # ts))" using "3.IH" [of "u # ts"] by simp
  have "lex_json ((x @ '','' @ separated (y # xs)) @ rest) = map_option ((@) (joined tss)) (lex_json rest)" if "boundary rest" for rest
    using lexesD [OF tss(2), of "'','' @ separated (y # xs) @ rest"] lexesD [OF IH that]
    by (simp add: tss(1) joined_Cons is_space_def option.map_comp o_def append_funs)
  then show ?case by (simp add: lexes_def)
qed

text \<open>What is written splits into the tokens of the value.\<close>

lemma tokens_joined:
  "tokens (JArray xs) = OpenBracket # joined (map tokens xs) @ [CloseBracket]"
  "tokens (JObject ms) = OpenBrace # joined (map (\<lambda>(k, v). Text k # Colon # tokens v) ms) @ [CloseBrace]"
  by (simp_all add: joined_def)

declare tokens.simps(2,3) [simp del]

lemma lexes_bracketed:
  assumes "lexes text ts"
  shows "lexes (''['' @ text @ '']'') (OpenBracket # ts @ [CloseBracket])"
    and "lexes (''{'' @ text @ ''}'') (OpenBrace # ts @ [CloseBrace])"
  using lexesD [OF assms, of "'']'' @ _"] lexesD [OF assms, of "''}'' @ _"]
  by (simp_all add: lexes_def is_space_def option.map_comp o_def append_funs)

lemma lexes_print: "json_ok v \<Longrightarrow> lexes (json_print v) (tokens v)"
proof (induction v)
  case (JNumber n)
  then show ?case using lexes_number [of "read_int n"] by simp
next
  case (JString s)
  then show ?case using lexes_string by (simp add: lexes_def append_funs)
next
  case (JArray xs)
  then have "list_all2 lexes (map json_print xs) (map tokens xs)"
    by (auto simp: list_all2_map1 list_all2_map2 list_all_iff intro!: list.rel_refl_strong)
  then show ?case using lexes_bracketed(1) [OF lexes_separated] by (simp add: tokens_joined)
next
  case (JObject ms)
  have "lexes (quote k @ '':'' @ json_print v) (Text k # Colon # tokens v)" if "(k, v) \<in> set ms" for k v
    using that JObject by (intro lexes_member) (fastforce simp: list_all_iff)+
  then have "list_all2 lexes (map (\<lambda>(k, v). quote k @ '':'' @ json_print v) ms) (map (\<lambda>(k, v). Text k # Colon # tokens v) ms)"
    by (auto simp: list_all2_map1 list_all2_map2 intro!: list.rel_refl_strong)
  then show ?case using lexes_bracketed(2) [OF lexes_separated] by (simp add: tokens_joined)
qed (use lexes_words in auto)

section \<open>Lemmas on reading\<close>

lemma read_tokens_append:
  "read_tokens (xs @ ys) s = (case read_tokens xs s of None \<Rightarrow> None | Some s' \<Rightarrow> read_tokens ys s')"
  by (induction xs arbitrary: s) (auto split: option.split)

text \<open>The tokens of a value are read as that value, in the middle of any open arrays and objects.\<close>

definition reads :: "token list \<Rightarrow> json \<Rightarrow> bool" where
  "reads ts v \<longleftrightarrow> (\<forall>m fs rest. m \<in> {WantValue, WantFirst} \<longrightarrow> length fs + depth v \<le> max_depth \<longrightarrow>
     read_tokens (ts @ rest) (m, fs) = read_tokens rest (HaveValue v, fs))"

lemma readsD:
  "reads ts v \<Longrightarrow> m \<in> {WantValue, WantFirst} \<Longrightarrow> length fs + depth v \<le> max_depth \<Longrightarrow>
     read_tokens (ts @ rest) (m, fs) = read_tokens rest (HaveValue v, fs)"
  unfolding reads_def by blast

lemma foldr_max_ge: "x \<in> set xs \<Longrightarrow> (x :: nat) \<le> foldr max xs 0"
  by (induction xs) auto

lemma depth_member:
  "x \<in> set xs \<Longrightarrow> Suc (depth x) \<le> depth (JArray xs)" "(k, v) \<in> set ms \<Longrightarrow> Suc (depth v) \<le> depth (JObject ms)"
  using foldr_max_ge [of "depth x" "map depth xs"] foldr_max_ge [of "depth v" "map (\<lambda>(k, v). depth v) ms"] by force+

lemma read_elements:
  assumes "\<And>y. y \<in> set ys \<Longrightarrow> reads (tokens y) y \<and> Suc (length fs + depth y) \<le> max_depth"
  shows "read_tokens (concat (map ((#) Comma) (map tokens ys)) @ CloseBracket # rest) (HaveValue v, ArrayFrame acc # fs) =
    read_tokens rest (HaveValue (JArray (rev acc @ v # ys)), fs)"
  using assms
proof (induction ys arbitrary: v acc)
  case (Cons y ys)
  have "reads (tokens y) y" "length (ArrayFrame (v # acc) # fs) + depth y \<le> max_depth" using Cons.prems [of y] by simp_all
  note r = readsD [OF this(1) _ this(2), of WantValue]
  show ?case using r Cons.IH [of y "v # acc"] Cons.prems by simp
qed simp

lemma read_members:
  assumes "\<And>k' v'. (k', v') \<in> set ms \<Longrightarrow> reads (tokens v') v' \<and> Suc (length fs + depth v') \<le> max_depth"
  shows "read_tokens (concat (map ((#) Comma) (map (\<lambda>(k, v). Text k # Colon # tokens v) ms)) @ CloseBrace # rest)
      (HaveValue v, KeyFrame acc k # fs) =
    read_tokens rest (HaveValue (JObject (rev acc @ (k, v) # ms)), fs)"
  using assms
proof (induction ms arbitrary: k v acc)
  case (Cons m ms)
  obtain k' v' where m: "m = (k', v')" by (cases m)
  have "reads (tokens v') v'" "length (KeyFrame ((k, v) # acc) k' # fs) + depth v' \<le> max_depth"
    using Cons.prems [of k' v'] m by simp_all
  note r = readsD [OF this(1) _ this(2), of WantValue]
  have "reads (tokens x) x \<and> Suc (length fs + depth x) \<le> max_depth" if "(l, x) \<in> set ms" for l x
    using Cons.prems [of l x] that by simp
  note ih = Cons.IH [OF this, where v = v' and acc = "(k, v) # acc" and k = k']
  show ?case using r ih m by simp
qed simp

lemma reads_tokens: "reads (tokens v) v"
proof (induction v)
  case (JArray xs)
  have step: "read_tokens (tokens (JArray xs) @ rest) (m, fs) = read_tokens rest (HaveValue (JArray xs), fs)"
    if m: "m \<in> {WantValue, WantFirst}" and d: "length fs + depth (JArray xs) \<le> max_depth" for m fs rest
  proof -
    have el: "reads (tokens y) y \<and> Suc (length fs + depth y) \<le> max_depth" if "y \<in> set xs" for y
      using JArray [OF that] depth_member(1) [OF that] d by linarith
    have "length fs < max_depth" using d by simp
    then have o: "read_tokens (tokens (JArray xs) @ rest) (m, fs) =
        read_tokens (joined (map tokens xs) @ CloseBracket # rest) (WantFirst, ArrayFrame [] # fs)"
      using m by (auto simp: tokens_joined)
    show ?thesis
    proof (cases xs)
      case Nil
      then show ?thesis using o by (simp add: joined_Cons)
    next
      case (Cons x xs')
      have x: "reads (tokens x) x" "length (ArrayFrame [] # fs) + depth x \<le> max_depth" using el [of x] Cons by simp_all
      have l: "\<And>y. y \<in> set xs' \<Longrightarrow> reads (tokens y) y \<and> Suc (length fs + depth y) \<le> max_depth" using el Cons by simp
      show ?thesis
        unfolding o using readsD [OF x(1) _ x(2), of WantFirst] read_elements [OF l, where acc = "[]" and v = x and rest = rest] Cons
        by (simp add: joined_def)
    qed
  qed
  then show ?case unfolding reads_def by blast
next
  case (JObject ms)
  have step: "read_tokens (tokens (JObject ms) @ rest) (m, fs) = read_tokens rest (HaveValue (JObject ms), fs)"
    if m: "m \<in> {WantValue, WantFirst}" and d: "length fs + depth (JObject ms) \<le> max_depth" for m fs rest
  proof -
    have el: "reads (tokens v) v \<and> Suc (length fs + depth v) \<le> max_depth" if "(k, v) \<in> set ms" for k v
      using JObject [OF that] depth_member(2) [OF that] d by fastforce
    have "length fs < max_depth" using d by simp
    then have o: "read_tokens (tokens (JObject ms) @ rest) (m, fs) =
        read_tokens (joined (map (\<lambda>(k, v). Text k # Colon # tokens v) ms) @ CloseBrace # rest) (WantKeyOrEnd, ObjectFrame [] # fs)"
      using m by (auto simp: tokens_joined)
    show ?thesis
    proof (cases ms)
      case Nil
      then show ?thesis using o by (simp add: joined_Cons)
    next
      case (Cons kv ms')
      obtain k v where kv: "kv = (k, v)" by (cases kv)
      have x: "reads (tokens v) v" "length (KeyFrame [] k # fs) + depth v \<le> max_depth" using el [of k v] Cons kv by simp_all
      have l: "reads (tokens v') v' \<and> Suc (length fs + depth v') \<le> max_depth" if "(k', v') \<in> set ms'" for k' v'
        using el [of k' v'] that Cons by simp
      show ?thesis
        unfolding o using readsD [OF x(1) _ x(2), of WantValue] read_members [OF l, where acc = "[]" and v = v and k = k and rest = rest] Cons kv
        by (simp add: joined_def)
    qed
  qed
  then show ?case unfolding reads_def by blast
qed (auto simp: reads_def)

text \<open>Reading what was written.\<close>

lemma json_parse_print:
  assumes "json_ok v" and "depth v \<le> max_depth"
  shows "json_parse (json_print v) = Some v"
proof -
  have "lex_json (json_print v) = Some (tokens v)" using lexesD [OF lexes_print [OF assms(1)], of "[]"] by simp
  moreover have "read_tokens (tokens v) (WantValue, []) = Some (HaveValue v, [])"
    using readsD [OF reads_tokens, of WantValue "[]" v "[]"] assms(2) by simp
  ultimately show ?thesis by (simp add: json_parse_def)
qed

text \<open>Integers of 64 bits.\<close>

lemma parse_int64_show: "parse_int64 (show_int (sint i)) = Some i"
proof -
  have "lex_sign (show_int (sint i)) = (if sint i < 0 then (''-'', show_nat (nat (- sint i))) else ([], show_nat (nat (sint i))))"
    using show_nat_no_minus [of _ "[]"] by (simp add: show_int_def)
  moreover have "- (2 ^ 63) \<le> sint i" "sint i < 2 ^ 63" using sint_ge [of i] sint_lt [of i] by simp_all
  ultimately show ?thesis using show_nat_is_digit by (simp add: parse_int64_def)
qed

section \<open>What is read is valid UTF-8\<close>

fun json_utf8 :: "json \<Rightarrow> bool" where
  "json_utf8 (JString s) = utf8_valid s"
| "json_utf8 (JArray xs) = list_all json_utf8 xs"
| "json_utf8 (JObject ms) = list_all (\<lambda>(k, v). utf8_valid k \<and> json_utf8 v) ms"
| "json_utf8 v = True"

fun token_utf8 :: "token \<Rightarrow> bool" where
  "token_utf8 (Text s) = utf8_valid s"
| "token_utf8 (Atom v) = json_utf8 v"
| "token_utf8 t = True"

fun frame_utf8 :: "frame \<Rightarrow> bool" where
  "frame_utf8 (ArrayFrame xs) = list_all json_utf8 xs"
| "frame_utf8 (ObjectFrame ms) = json_utf8 (JObject ms)"
| "frame_utf8 (KeyFrame ms k) = (utf8_valid k \<and> json_utf8 (JObject ms))"

fun mode_utf8 :: "mode \<Rightarrow> bool" where
  "mode_utf8 (HaveValue v) = json_utf8 v"
| "mode_utf8 m = True"

lemma after_word_length: "after_word w s = Some r \<Longrightarrow> length r \<le> length s"
  by (auto simp: after_word_def split: if_splits)

lemma if_eqE: "(if b then x else y) = z \<Longrightarrow> (x = z \<Longrightarrow> R) \<Longrightarrow> (y = z \<Longrightarrow> R) \<Longrightarrow> R"
  by (cases b) simp_all

lemma option_caseE: "(case x of None \<Rightarrow> None | Some p \<Rightarrow> f p) = Some z \<Longrightarrow> (\<And>p. x = Some p \<Longrightarrow> f p = Some z \<Longrightarrow> R) \<Longrightarrow> R"
  by (cases x) simp_all

lemma pair_caseE:
  "(case x of None \<Rightarrow> None | Some (a, b) \<Rightarrow> f a b) = Some z \<Longrightarrow> (\<And>a b. x = Some (a, b) \<Longrightarrow> f a b = Some z \<Longrightarrow> R) \<Longrightarrow> R"
  by (cases x) auto

lemma lex_json_utf8: "lex_json s = Some ts \<Longrightarrow> list_all token_utf8 ts"
proof (induction "length s" arbitrary: s ts rule: less_induct)
  case less
  show ?case
  proof (cases s)
    case Nil
    then show ?thesis using less.prems by simp
  next
    case (Cons c cs)
    have skip: "length r \<le> length cs \<longrightarrow> list_all token_utf8 us" if "lex_json r = Some us" for r us
      using less.hyps [OF _ that] Cons by simp
    have one: "token_utf8 t \<longrightarrow> length r \<le> length cs \<longrightarrow> list_all token_utf8 ts" if "map_option ((#) t) (lex_json r) = Some ts" for t r
      using that skip by auto
    have number: "length r \<le> length cs" if "lex_number (c # cs) = Some (n, r)" for n r
      using lex_number_length [OF that] by simp
    note lengths = order_less_imp_le [OF scan_string_length] after_word_length number
    from less.prems [unfolded Cons lex_json.simps(2)] show ?thesis
      by (elim if_eqE pair_caseE option_caseE)
        (use one skip lengths in \<open>simp_all only: token_utf8.simps json_utf8.simps utf8_valid_unescape order.refl simp_thms\<close>)
  qed
qed

lemma open_value_utf8:
  "open_value t fs = Some s' \<Longrightarrow> token_utf8 t \<Longrightarrow> list_all frame_utf8 fs \<Longrightarrow> mode_utf8 (fst s') \<and> list_all frame_utf8 (snd s')"
  by (cases t) (auto split: if_splits)

lemma read_token_utf8:
  "read_token t s = Some s' \<Longrightarrow> token_utf8 t \<Longrightarrow> mode_utf8 (fst s) \<Longrightarrow> list_all frame_utf8 (snd s) \<Longrightarrow>
     mode_utf8 (fst s') \<and> list_all frame_utf8 (snd s')"
  by (erule read_token.elims; simp del: open_value.simps; (auto dest: open_value_utf8 open_value_utf8 [OF sym] simp del: open_value.simps)?)

lemma json_parse_utf8: "json_parse s = Some v \<Longrightarrow> json_utf8 v"
proof -
  assume "json_parse s = Some v"
  then obtain ts where ts: "lex_json s = Some ts" "read_tokens ts (WantValue, []) = Some (HaveValue v, [])"
    by (auto simp: json_parse_def split: option.splits prod.splits mode.splits list.splits)
  have "mode_utf8 (fst s') \<and> list_all frame_utf8 (snd s')"
    if "read_tokens ts s = Some s'" "list_all token_utf8 ts" "mode_utf8 (fst s)" "list_all frame_utf8 (snd s)" for ts s s'
    using that by (induction ts arbitrary: s) (auto split: option.splits dest: read_token_utf8)
  then show ?thesis using lex_json_utf8 [OF ts(1)] ts(2) by fastforce
qed

text \<open>A condition that every store keeps holds of the struct.\<close>

lemma find_field_mem: "find_field fields k = Some f \<Longrightarrow> f \<in> set fields"
  by (auto simp: find_field_def find_Some_iff split: option.splits)

lemma store_members_invariant:
  assumes "\<And>f v a a'. f \<in> set fields \<Longrightarrow> json_utf8 v \<Longrightarrow> P a \<Longrightarrow> snd f v a = Some a' \<Longrightarrow> P a'"
  shows "json_utf8 (JObject ms) \<Longrightarrow> P a \<Longrightarrow> P (fst (store_members fields ms a))"
proof (induction ms arbitrary: a)
  case (Cons m ms)
  obtain k v where m: "m = (k, v)" by (cases m)
  show ?case
  proof (cases "find_field fields k")
    case None
    then show ?thesis using Cons m by simp
  next
    case (Some f)
    note keep = assms [OF find_field_mem [OF Some]]
    show ?thesis
    proof (cases "snd f v a")
      case None
      then show ?thesis using Cons m Some by simp
    next
      case (Some a')
      then have "P a'" using keep [OF _ Cons.prems(2) Some] Cons.prems(1) m by simp
      then show ?thesis using Cons.IH [of a'] Cons.prems(1) m Some \<open>find_field fields k = Some f\<close> by simp
    qed
  qed
qed simp

lemma unmarshal_invariant:
  assumes "unmarshal_struct fields zero text = Inr a" and "P zero"
    and "\<And>f v a a'. f \<in> set fields \<Longrightarrow> json_utf8 v \<Longrightarrow> P a \<Longrightarrow> snd f v a = Some a' \<Longrightarrow> P a'"
  shows "P a"
proof (cases "json_parse text")
  case (Some v)
  then show ?thesis
    using assms(1,2) store_members_invariant [of fields P, OF assms(3)] json_parse_utf8 [OF Some]
    by (cases v) (force simp: unmarshal_struct_def split: prod.splits bool.splits)+
qed (use assms in \<open>simp add: unmarshal_struct_def\<close>)

end
