(* ===== verification/Base64.thy ===== *)
theory Base64
  imports Protocol
begin

text \<open>
  Base64 as \<^verbatim>\<open>encoding/base64\<close> writes it: three bytes become four digits of six bits. The sources
  use two variants: the standard alphabet with padding (for \<^verbatim>\<open>[]byte\<close> fields in JSON) and the
  URL alphabet without padding (\<^verbatim>\<open>base64.RawURLEncoding\<close>, for JSON web tokens). The decoder is
  the reference against which the encoder is shown to lose nothing.
\<close>

section \<open>Definitions\<close>

definition std_alphabet :: string where
  "std_alphabet = ''ABCDEFGHIJKLMNOPQRSTUVWXYZabcdefghijklmnopqrstuvwxyz0123456789+/''"

definition url_alphabet :: string where
  "url_alphabet = ''ABCDEFGHIJKLMNOPQRSTUVWXYZabcdefghijklmnopqrstuvwxyz0123456789-_''"

text \<open>The digits of a group of three, two or one bytes.\<close>

definition digits4 :: "8 word \<Rightarrow> 8 word \<Rightarrow> 8 word \<Rightarrow> nat list" where
  "digits4 a b c =
     (let val = unat a * 65536 + unat b * 256 + unat c
      in [val div 262144 mod 64, val div 4096 mod 64, val div 64 mod 64, val mod 64])"

fun base64_digits_of :: "bytes \<Rightarrow> nat list" where
  "base64_digits_of (a # b # c # rest) = digits4 a b c @ base64_digits_of rest"
| "base64_digits_of [a, b] = take 3 (digits4 a b 0)"
| "base64_digits_of [a] = take 2 (digits4 a 0 0)"
| "base64_digits_of [] = []"

definition base64_padding :: "bytes \<Rightarrow> nat" where
  "base64_padding bs = (3 - length bs mod 3) mod 3"

definition base64_std :: "bytes \<Rightarrow> string" where
  "base64_std bs = map ((!) std_alphabet) (base64_digits_of bs) @ replicate (base64_padding bs) (CHR ''='')"

definition base64_raw_url :: "bytes \<Rightarrow> string" where
  "base64_raw_url bs = map ((!) url_alphabet) (base64_digits_of bs)"

text \<open>Decoding. Bits that are left over at the end are ignored.\<close>

fun index_of :: "'a list \<Rightarrow> 'a \<Rightarrow> nat option" where
  "index_of [] x = None"
| "index_of (y # ys) x = (if x = y then Some 0 else map_option Suc (index_of ys x))"

definition bytes3 :: "nat \<Rightarrow> nat \<Rightarrow> nat \<Rightarrow> nat \<Rightarrow> bytes" where
  "bytes3 i j k l =
     (let val = i * 262144 + j * 4096 + k * 64 + l
      in [of_nat (val div 65536), of_nat (val div 256), of_nat val])"

fun bytes_of_digits :: "nat list \<Rightarrow> bytes option" where
  "bytes_of_digits (i # j # k # l # rest) = map_option ((@) (bytes3 i j k l)) (bytes_of_digits rest)"
| "bytes_of_digits [i, j, k] = Some (take 2 (bytes3 i j k 0))"
| "bytes_of_digits [i, j] = Some (take 1 (bytes3 i j 0 0))"
| "bytes_of_digits [i] = None"
| "bytes_of_digits [] = Some []"

definition base64_decode :: "string \<Rightarrow> string \<Rightarrow> bytes option" where
  "base64_decode alphabet s = Option.bind (those (map (index_of alphabet) s)) bytes_of_digits"

definition base64_std_decode :: "string \<Rightarrow> bytes option" where
  "base64_std_decode s = base64_decode std_alphabet (takeWhile (\<lambda>c. c \<noteq> CHR ''='') s)"

section \<open>Lemmas\<close>

lemma byte_mult_256: "of_nat (x * 256) = (0 :: 8 word)" "of_nat (x * 65536) = (0 :: 8 word)"
proof -
  have "256 = (2 ^ LENGTH(8) :: nat)" by simp
  then have z: "of_nat 256 = (0 :: 8 word)" by (simp only: word_of_nat_eq_0_iff dvd_refl)
  show "of_nat (x * 256) = (0 :: 8 word)" by (simp only: of_nat_mult z mult_zero_right)
  have "x * 65536 = x * 256 * 256" by simp
  then show "of_nat (x * 65536) = (0 :: 8 word)" by (simp only: of_nat_mult z mult_zero_right)
qed

lemma digits4_bytes3:
  "\<exists>i j k l. digits4 a b c = [i, j, k, l] \<and> i < 64 \<and> j < 64 \<and> k < 64 \<and> l < 64 \<and> bytes3 i j k l = [a, b, c] \<and>
     (c = 0 \<longrightarrow> l = 0) \<and> (b = 0 \<longrightarrow> c = 0 \<longrightarrow> k = 0)"
proof -
  define x y z where "x = unat a" and "y = unat b" and "z = unat c"
  have lt: "x < 256" "y < 256" "z < 256"
    using unsigned_less [of a] unsigned_less [of b] unsigned_less [of c] by (simp_all add: x_def y_def z_def)
  define val where "val = x * 65536 + y * 256 + z"
  have v: "val < 16777216" using lt by (simp add: val_def)
  have "val div 262144 mod 64 * 262144 + val div 4096 mod 64 * 4096 + val div 64 mod 64 * 64 + val mod 64 = val"
  proof -
    have q: "val div 4096 = val div 64 div 64" "val div 262144 = val div 64 div 64 div 64"
      by (simp_all add: div_mult2_eq [symmetric])
    have "val div 262144 < 64" using v by simp
    then have "val div 262144 mod 64 = val div 64 div 64 div 64" by (simp add: q)
    then show ?thesis
      using div_mult_mod_eq [of val 64] div_mult_mod_eq [of "val div 64" 64] div_mult_mod_eq [of "val div 64 div 64" 64]
      unfolding q(1) by linarith
  qed
  moreover have "of_nat (val div 65536) = a" "of_nat (val div 256) = b" "of_nat val = c"
  proof -
    have "val div 65536 = x" "val div 256 = x * 256 + y" using lt by (simp_all add: val_def)
    moreover have "of_nat x = a" "of_nat y = b" "of_nat z = c" by (simp_all add: x_def y_def z_def)
    ultimately show "of_nat (val div 65536) = a" "of_nat (val div 256) = b" "of_nat val = c"
      unfolding val_def by (simp_all only: of_nat_add byte_mult_256 add_0)
  qed
  moreover have "val mod 64 = 0" if "c = 0" using that unfolding val_def z_def by simp
  moreover have "val div 64 mod 64 = 0" if "b = 0" "c = 0"
  proof -
    have "val = x * 1024 * 64" using that by (simp add: val_def y_def z_def)
    then show ?thesis by simp
  qed
  moreover have "digits4 a b c = [val div 262144 mod 64, val div 4096 mod 64, val div 64 mod 64, val mod 64]"
    by (simp only: digits4_def Let_def val_def x_def y_def z_def)
  ultimately have "digits4 a b c = [val div 262144 mod 64, val div 4096 mod 64, val div 64 mod 64, val mod 64] \<and>
      bytes3 (val div 262144 mod 64) (val div 4096 mod 64) (val div 64 mod 64) (val mod 64) = [a, b, c] \<and>
      (c = 0 \<longrightarrow> val mod 64 = 0) \<and> (b = 0 \<longrightarrow> c = 0 \<longrightarrow> val div 64 mod 64 = 0)"
    by (simp only: bytes3_def Let_def simp_thms) blast
  then show ?thesis by (intro exI conjI) auto
qed

lemma digits4_cases:
  obtains i j k l where "digits4 a b c = [i, j, k, l]" and "i < 64" and "j < 64" and "k < 64" and "l < 64"
    and "bytes3 i j k l = [a, b, c]" and "c = 0 \<Longrightarrow> l = 0" and "b = 0 \<Longrightarrow> c = 0 \<Longrightarrow> k = 0"
  using digits4_bytes3 [of a b c] by blast

lemma bytes_of_digits_of: "bytes_of_digits (base64_digits_of bs) = Some bs \<and> (\<forall>d \<in> set (base64_digits_of bs). d < 64)"
proof (induction bs rule: base64_digits_of.induct)
  case (1 a b c rest)
  obtain i j k l where "digits4 a b c = [i, j, k, l]" "i < 64" "j < 64" "k < 64" "l < 64" "bytes3 i j k l = [a, b, c]"
    by (rule digits4_cases)
  then show ?case using "1.IH" by simp
next
  case (2 a b)
  obtain i j k l where "digits4 a b 0 = [i, j, k, l]" "i < 64" "j < 64" "k < 64" "bytes3 i j k l = [a, b, 0]" "l = 0"
    by (rule digits4_cases [of a b 0]) auto
  then show ?case by simp
next
  case (3 a)
  obtain i j k l where "digits4 a 0 0 = [i, j, k, l]" "i < 64" "j < 64" "bytes3 i j k l = [a, 0, 0]" "l = 0" "k = 0"
    by (rule digits4_cases [of a 0 0]) auto
  then show ?case by simp
qed simp

lemma index_of_nth: "distinct xs \<Longrightarrow> i < length xs \<Longrightarrow> index_of xs (xs ! i) = Some i"
proof (induction xs arbitrary: i)
  case (Cons x xs)
  then show ?case by (cases i) auto
qed simp

lemma alphabets: "distinct std_alphabet" "length std_alphabet = 64" "distinct url_alphabet" "length url_alphabet = 64"
  "CHR ''='' \<notin> set std_alphabet" "CHR ''.'' \<notin> set url_alphabet"
  by (simp_all add: std_alphabet_def url_alphabet_def)

lemma base64_decode_digits:
  assumes "distinct alphabet" and "length alphabet = 64"
  shows "base64_decode alphabet (map ((!) alphabet) (base64_digits_of bs)) = Some bs"
proof -
  have "map (index_of alphabet) (map ((!) alphabet) (base64_digits_of bs)) = map Some (base64_digits_of bs)"
    using bytes_of_digits_of [of bs] index_of_nth [OF assms(1)] assms(2) by simp
  moreover have "those (map Some ds) = Some ds" for ds :: "nat list" by (induction ds) simp_all
  ultimately show ?thesis using bytes_of_digits_of [of bs] by (simp only: base64_decode_def) simp
qed

lemma base64_raw_url_decode: "base64_decode url_alphabet (base64_raw_url bs) = Some bs"
  unfolding base64_raw_url_def by (rule base64_decode_digits) (simp_all add: alphabets)

lemma base64_std_decode_encode: "base64_std_decode (base64_std bs) = Some bs"
proof -
  have "x \<noteq> CHR ''=''" if "x \<in> set (map ((!) std_alphabet) (base64_digits_of bs))" for x
    using that bytes_of_digits_of [of bs] alphabets(2,5) nth_mem by fastforce
  then have "takeWhile (\<lambda>c. c \<noteq> CHR ''='') (base64_std bs) = map ((!) std_alphabet) (base64_digits_of bs)"
    unfolding base64_std_def by (subst takeWhile_append2) (auto simp: takeWhile_replicate)
  then show ?thesis using base64_decode_digits [OF alphabets(1,2)] by (simp add: base64_std_decode_def)
qed

lemma base64_raw_url_chars: "set (base64_raw_url bs) \<subseteq> set url_alphabet"
  using bytes_of_digits_of [of bs] alphabets(4) by (auto simp: base64_raw_url_def)

end
