(* ===== verification/Json_Messages.thy ===== *)
theory Json_Messages
  imports Chat Notification Json Base64
begin

text \<open>
  The codecs of \<^verbatim>\<open>internal/protocol/codec.go\<close> on the messages of the examples: how the structs and
  maps of \<^verbatim>\<open>example/internal/chat/handler.go\<close> and \<^verbatim>\<open>example/notification/main.go\<close> are written as
  JSON by their tags, and how the structs are read. With these codecs the chat example is shown
  to put nothing on the wire but well-formed messages, and messages are shown to arrive with the
  sender, the room and the text they were sent with.
\<close>

section \<open>Codecs\<close>

text \<open>\<^verbatim>\<open>json.Marshal\<close>, given how the type of the value is written. The values of the sources have no
  cycles, channels, functions or floating-point numbers, so that it does not fail on them.\<close>

definition JSON_Marshal :: "('v \<Rightarrow> json) \<Rightarrow> 'v \<Rightarrow> go_error + bytes" where
  "JSON_Marshal enc v = Inr (string_bytes (json_print (enc v)))"

text \<open>The errors of the library by their types; the texts, which name the offset, are left out.\<close>

fun json_go_error :: "json_error \<Rightarrow> go_error" where
  "json_go_error SyntaxError = OtherError ''*json.SyntaxError'' []"
| "json_go_error UnmarshalTypeError = OtherError ''*json.UnmarshalTypeError'' []"

text \<open>\<^verbatim>\<open>json.Unmarshal\<close> into a struct that has its zero value, given the fields of its type.\<close>

definition JSON_Unmarshal :: "'a field list \<Rightarrow> 'a \<Rightarrow> bytes \<Rightarrow> go_error + 'a" where
  "JSON_Unmarshal flds zero data =
     (case unmarshal_struct flds zero (bytes_string data) of Inl e \<Rightarrow> Inl (json_go_error e) | Inr v \<Rightarrow> Inr v)"

datatype codec = JSONCodec | RawCodec

fun Codec_Name :: "codec \<Rightarrow> string" where
  "Codec_Name JSONCodec = ''json''"
| "Codec_Name RawCodec = ''raw''"

definition DefaultCodec :: codec where
  "DefaultCodec = JSONCodec"

text \<open>What a codec promises for the values \<open>ok\<close>.\<close>

locale lossless_codec =
  fixes marshal :: "'v \<Rightarrow> go_error + bytes" and unmarshal :: "bytes \<Rightarrow> go_error + 'v" and ok :: "'v \<Rightarrow> bool"
  assumes lossless: "ok v \<Longrightarrow> \<exists>data. marshal v = Inr data \<and> unmarshal data = Inr v"
begin

lemma unmarshal_marshal: "ok v \<Longrightarrow> marshal v = Inr data \<Longrightarrow> unmarshal data = Inr v"
  using lossless by fastforce

lemma marshal_inject: "ok v \<Longrightarrow> ok v' \<Longrightarrow> marshal v = marshal v' \<Longrightarrow> v = v'"
  using lossless by (metis sum.inject(2))

text \<open>A sequence of encoded values is decoded one by one.\<close>

lemma unmarshal_all:
  "list_all ok vs \<Longrightarrow> map marshal vs = map Inr datas \<Longrightarrow> map unmarshal datas = map Inr vs"
proof (induction vs arbitrary: datas)
  case (Cons v vs)
  then obtain data rest where "datas = data # rest" "marshal v = Inr data" "map marshal vs = map Inr rest" by auto
  then show ?case using Cons unmarshal_marshal by simp
qed simp

end

section \<open>Messages of the chat example\<close>

text \<open>\<^verbatim>\<open>omitempty\<close>: an empty string is not written.\<close>

definition optional_member :: "string \<Rightarrow> string \<Rightarrow> (string \<times> json) list" where
  "optional_member k s = (if s = [] then [] else [(k, JString s)])"

definition chat_json :: "ChatMessage \<Rightarrow> json" where
  "chat_json m = JObject ((''type'', JString (cm_Type m)) # optional_member ''userId'' (cm_UserID m) @
     optional_member ''roomId'' (cm_RoomID m) @ optional_member ''content'' (cm_Content m))"

text \<open>Maps are written with their keys in order.\<close>

fun chat_value_json :: "chat_value \<Rightarrow> json" where
  "chat_value_json (ChatValue m) = chat_json m"
| "chat_value_json (JoinedValue roomID userID) =
     JObject [(''content'', JString ''Successfully joined the room''), (''roomId'', JString roomID),
       (''type'', JString ''joined''), (''userId'', JString userID)]"

definition chat_fields :: "ChatMessage field list" where
  "chat_fields = [(''type'', store_string cm_Type_update), (''userId'', store_string cm_UserID_update),
     (''roomId'', store_string cm_RoomID_update), (''content'', store_string cm_Content_update)]"

definition chat_marshal :: "chat_value \<Rightarrow> go_error + bytes" where
  "chat_marshal = JSON_Marshal chat_value_json"

definition chat_unmarshal :: "bytes \<Rightarrow> go_error + ChatMessage" where
  "chat_unmarshal = JSON_Unmarshal chat_fields (chat_message [] [] [] [])"

definition chat_utf8 :: "ChatMessage \<Rightarrow> bool" where
  "chat_utf8 m \<longleftrightarrow> utf8_valid (cm_Type m) \<and> utf8_valid (cm_UserID m) \<and> utf8_valid (cm_RoomID m) \<and> utf8_valid (cm_Content m)"

text \<open>The chat example with its JSON library.\<close>

definition json_chat_env :: "(nat \<Rightarrow> nat) \<Rightarrow> (string \<times> conn) range_order \<Rightarrow> (string \<times> any) range_order \<Rightarrow> chat_env" where
  "json_chat_env choice ord md =
     \<lparr>ce_marshal = chat_marshal, ce_unmarshal = chat_unmarshal, ce_choice = choice, ce_ord = ord, ce_meta = md\<rparr>"

section \<open>Messages of the notification example\<close>

text \<open>The data of a message is a string in base64. (A nil slice would be written as \<^verbatim>\<open>null\<close>; the
  handler makes its data from a string, which is never nil.)\<close>

definition message_json :: "Message \<Rightarrow> json" where
  "message_json m = JObject [(''id'', JNumber (show_int (sint (msg_ID m)))), (''timestamp'', JNumber (show_int (sint (msg_Timestamp m)))),
     (''type'', JString (msg_Type m)), (''topic'', JString (msg_Topic m)), (''data'', JString (base64_std (msg_Data m)))]"

fun note_value_json :: "note_value \<Rightarrow> json" where
  "note_value_json (NoteJoined roomID userID) =
     JObject [(''message'', JString ''Successfully joined''), (''roomId'', JString roomID),
       (''type'', JString ''joined''), (''userId'', JString userID)]"
| "note_value_json (NoteMessage m) = message_json m"
| "note_value_json (NoteError s) = JObject [(''error'', JString s), (''type'', JString ''error'')]"
| "note_value_json NoteAck = JObject [(''message'', JString ''Message stored''), (''status'', JString ''ok''), (''type'', JString ''ack'')]"

definition note_fields :: "NotificationData field list" where
  "note_fields = [(''type'', store_string nd_Type_update), (''roomId'', store_string nd_RoomID_update),
     (''userId'', store_string nd_UserID_update), (''username'', store_string nd_Username_update),
     (''content'', store_string nd_Content_update), (''sinceId'', store_int64 nd_SinceID_update)]"

definition note_marshal :: "note_value \<Rightarrow> go_error + bytes" where
  "note_marshal = JSON_Marshal note_value_json"

definition note_zero :: NotificationData where
  "note_zero = \<lparr>nd_Type = [], nd_RoomID = [], nd_UserID = [], nd_Username = [], nd_Content = [], nd_SinceID = 0\<rparr>"

definition note_unmarshal :: "bytes \<Rightarrow> go_error + NotificationData" where
  "note_unmarshal = JSON_Unmarshal note_fields note_zero"

definition json_note_env :: "(nat \<Rightarrow> nat) \<Rightarrow> (string \<times> any) range_order \<Rightarrow> int64 \<Rightarrow> note_env" where
  "json_note_env choice md now =
     \<lparr>ne_marshal = note_marshal, ne_unmarshal = note_unmarshal, ne_choice = choice, ne_meta = md, ne_now = now\<rparr>"

text \<open>A client's reading of a stored message, and its request, written by the tags of the struct.\<close>

fun store_bytes :: "((bytes \<Rightarrow> bytes) \<Rightarrow> 'a \<Rightarrow> 'a) \<Rightarrow> json \<Rightarrow> 'a \<Rightarrow> 'a option" where
  "store_bytes upd (JString s) a = map_option (\<lambda>bs. upd (\<lambda>_. bs) a) (base64_std_decode s)"
| "store_bytes upd JNull a = Some (upd (\<lambda>_. []) a)"
| "store_bytes upd v a = None"

definition message_fields :: "Message field list" where
  "message_fields = [(''id'', store_int64 msg_ID_update), (''timestamp'', store_int64 msg_Timestamp_update),
     (''type'', store_string msg_Type_update), (''topic'', store_string msg_Topic_update), (''data'', store_bytes msg_Data_update)]"

definition message_unmarshal :: "bytes \<Rightarrow> go_error + Message" where
  "message_unmarshal =
     JSON_Unmarshal message_fields \<lparr>msg_ID = 0, msg_Timestamp = 0, msg_Type = [], msg_Topic = [], msg_Data = []\<rparr>"

definition request_json :: "NotificationData \<Rightarrow> json" where
  "request_json d = JObject [(''type'', JString (nd_Type d)), (''roomId'', JString (nd_RoomID d)), (''userId'', JString (nd_UserID d)),
     (''username'', JString (nd_Username d)), (''content'', JString (nd_Content d)), (''sinceId'', JNumber (show_int (sint (nd_SinceID d))))]"

definition request_utf8 :: "NotificationData \<Rightarrow> bool" where
  "request_utf8 d \<longleftrightarrow> utf8_valid (nd_Type d) \<and> utf8_valid (nd_RoomID d) \<and> utf8_valid (nd_UserID d) \<and>
     utf8_valid (nd_Username d) \<and> utf8_valid (nd_Content d)"

section \<open>Lemmas on the codecs\<close>

lemma JSON_roundtrip:
  assumes "json_ok (JObject ms)" and "depth (JObject ms) \<le> max_depth" and "store_members flds ms zero = (a, True)"
  shows "JSON_Unmarshal flds zero (string_bytes (json_print (JObject ms))) = Inr a"
  using json_parse_print [OF assms(1,2)] assms(3) by (simp add: JSON_Unmarshal_def unmarshal_struct_def del: json_print.simps)

lemma max_depth_pos: "Suc 0 \<le> max_depth"
  by (simp add: max_depth_def)

lemma utf8_Nil [simp]: "utf8_valid []"
  by simp

lemma json_ok_optional: "utf8_valid k \<Longrightarrow> utf8_valid s \<Longrightarrow> list_all (\<lambda>(k, v). utf8_valid k \<and> json_ok v) (optional_member k s)"
  by (simp add: optional_member_def)

lemma keys_utf8: "utf8_valid ''type''" "utf8_valid ''userId''" "utf8_valid ''roomId''" "utf8_valid ''content''" "utf8_valid ''id''"
  "utf8_valid ''timestamp''" "utf8_valid ''topic''" "utf8_valid ''data''" "utf8_valid ''username''" "utf8_valid ''sinceId''"
  by (rule utf8_literal; simp)+

declare utf8_valid.simps(2) [simp del]

lemma depth_members: "(\<And>k v. (k, v) \<in> set ms \<Longrightarrow> depth v = 0) \<Longrightarrow> depth (JObject ms) \<le> max_depth"
proof -
  assume "\<And>k v. (k, v) \<in> set ms \<Longrightarrow> depth v = 0"
  then have "foldr max (map (\<lambda>(k, v). depth v) ms) 0 = 0" by (induction ms) (auto split: prod.split)
  then show ?thesis using max_depth_pos by simp
qed

text \<open>Every field is found under its own name.\<close>

lemma chat_find:
  "find_field chat_fields ''type'' = Some (''type'', store_string cm_Type_update)"
  "find_field chat_fields ''userId'' = Some (''userId'', store_string cm_UserID_update)"
  "find_field chat_fields ''roomId'' = Some (''roomId'', store_string cm_RoomID_update)"
  "find_field chat_fields ''content'' = Some (''content'', store_string cm_Content_update)"
  by (simp_all add: find_field_def chat_fields_def)

lemma note_find:
  "find_field note_fields ''type'' = Some (''type'', store_string nd_Type_update)"
  "find_field note_fields ''roomId'' = Some (''roomId'', store_string nd_RoomID_update)"
  "find_field note_fields ''userId'' = Some (''userId'', store_string nd_UserID_update)"
  "find_field note_fields ''username'' = Some (''username'', store_string nd_Username_update)"
  "find_field note_fields ''content'' = Some (''content'', store_string nd_Content_update)"
  "find_field note_fields ''sinceId'' = Some (''sinceId'', store_int64 nd_SinceID_update)"
  by (simp_all add: find_field_def note_fields_def)

lemma message_find:
  "find_field message_fields ''id'' = Some (''id'', store_int64 msg_ID_update)"
  "find_field message_fields ''timestamp'' = Some (''timestamp'', store_int64 msg_Timestamp_update)"
  "find_field message_fields ''type'' = Some (''type'', store_string msg_Type_update)"
  "find_field message_fields ''topic'' = Some (''topic'', store_string msg_Topic_update)"
  "find_field message_fields ''data'' = Some (''data'', store_bytes msg_Data_update)"
  by (simp_all add: find_field_def message_fields_def)

section \<open>The codecs lose nothing\<close>

lemma chat_store_members:
  "store_members chat_fields ((''type'', JString (cm_Type m)) # optional_member ''userId'' (cm_UserID m) @
     optional_member ''roomId'' (cm_RoomID m) @ optional_member ''content'' (cm_Content m)) (chat_message [] [] [] []) = (m, True)"
  by (cases m) (simp add: optional_member_def chat_find chat_message_def)

lemma chat_roundtrip: "chat_utf8 m \<Longrightarrow> chat_unmarshal (string_bytes (json_print (chat_json m))) = Inr m"
  unfolding chat_unmarshal_def chat_json_def
  by (rule JSON_roundtrip [OF _ depth_members chat_store_members])
    (auto simp: chat_utf8_def json_ok_optional keys_utf8 optional_member_def split: if_splits)

interpretation chat_codec: lossless_codec "\<lambda>m. chat_marshal (ChatValue m)" chat_unmarshal chat_utf8
  by unfold_locales (simp add: chat_marshal_def JSON_Marshal_def chat_roundtrip)

text \<open>The reply to a join can be read as a message.\<close>

lemma joined_roundtrip:
  assumes "utf8_valid r" and "utf8_valid u"
  shows "chat_unmarshal (string_bytes (json_print (chat_value_json (JoinedValue r u)))) =
    Inr (chat_message ''joined'' u r ''Successfully joined the room'')"
proof -
  have "utf8_valid ''Successfully joined the room''" "utf8_valid ''joined''" by (rule utf8_literal; simp)+
  then show ?thesis
    unfolding chat_unmarshal_def chat_value_json.simps using assms
    by (intro JSON_roundtrip depth_members) (auto simp: keys_utf8 chat_find chat_message_def)
qed

lemma request_roundtrip: "request_utf8 d \<Longrightarrow> note_unmarshal (string_bytes (json_print (request_json d))) = Inr d"
  unfolding note_unmarshal_def request_json_def
  by (intro JSON_roundtrip depth_members) (auto simp: request_utf8_def keys_utf8 note_find note_zero_def parse_int64_show)

interpretation request_codec: lossless_codec "JSON_Marshal request_json" note_unmarshal request_utf8
  by unfold_locales (simp add: JSON_Marshal_def request_roundtrip)

lemma base64_std_utf8: "utf8_valid (base64_std bs)"
proof (rule utf8_valid_ascii)
  fix c assume "c \<in> set (base64_std bs)"
  then have "c \<in> set std_alphabet \<or> c = CHR ''=''"
    using bytes_of_digits_of [of bs] alphabets(2) nth_mem by (fastforce simp: base64_std_def)
  moreover have "\<forall>c \<in> set std_alphabet. code c < 0x80" by (simp add: std_alphabet_def code_def)
  ultimately show "code c < 0x80" by (auto simp: code_def)
qed

lemma message_roundtrip:
  assumes "utf8_valid (msg_Type m)" and "utf8_valid (msg_Topic m)"
  shows "message_unmarshal (string_bytes (json_print (message_json m))) = Inr m"
  unfolding message_unmarshal_def message_json_def using assms
  by (intro JSON_roundtrip depth_members)
    (auto simp: keys_utf8 message_find parse_int64_show base64_std_utf8 base64_std_decode_encode)

interpretation message_codec: lossless_codec "\<lambda>m. note_marshal (NoteMessage m)" message_unmarshal
    "\<lambda>m. utf8_valid (msg_Type m) \<and> utf8_valid (msg_Topic m)"
  by unfold_locales (simp add: note_marshal_def JSON_Marshal_def message_roundtrip)

text \<open>The raw codec on byte slices and on strings.\<close>

interpretation raw_codec: lossless_codec Raw_Marshal "\<lambda>data. Raw_Unmarshal data PtrString" "\<lambda>v. \<exists>s. v = AnyString s"
  by unfold_locales auto

end
