(* ===== verification/Json_Stream.thy ===== *)
theory Json_Stream
  imports Json
begin

text \<open>
  The stream interface of \<^verbatim>\<open>encoding/json\<close>: \<^verbatim>\<open>Decoder.Decode\<close> reads one value and leaves what
  follows it unread, where \<^verbatim>\<open>Unmarshal\<close> wants the whole text to be one value; \<^verbatim>\<open>Encoder.Encode\<close>
  writes a value and a new line. Shown here: on a whole text both readers agree, and what was
  encoded is decoded.
\<close>

section \<open>One token\<close>

text \<open>The first token of a text, none for white space, and what follows.\<close>

definition lex_token :: "char \<Rightarrow> string \<Rightarrow> (token option \<times> string) option" where
  "lex_token c cs =
     (if is_space c then Some (None, cs)
      else if c = CHR ''{'' then Some (Some OpenBrace, cs)
      else if c = CHR ''}'' then Some (Some CloseBrace, cs)
      else if c = CHR ''['' then Some (Some OpenBracket, cs)
      else if c = CHR '']'' then Some (Some CloseBracket, cs)
      else if c = CHR '','' then Some (Some Comma, cs)
      else if c = CHR '':'' then Some (Some Colon, cs)
      else if c = quote_char
      then map_option (\<lambda>(raw, rest). (Some (Text (unescape raw)), rest)) (scan_string cs)
      else if c = CHR ''t'' then map_option (\<lambda>rest. (Some (Atom (JBool True)), rest)) (after_word ''rue'' cs)
      else if c = CHR ''f'' then map_option (\<lambda>rest. (Some (Atom (JBool False)), rest)) (after_word ''alse'' cs)
      else if c = CHR ''n'' then map_option (\<lambda>rest. (Some (Atom JNull), rest)) (after_word ''ull'' cs)
      else map_option (\<lambda>(n, rest). (Some (Atom (JNumber n)), rest)) (lex_number (c # cs)))"

lemma lex_token_length: "lex_token c cs = Some (t, r) \<Longrightarrow> length r \<le> length cs"
  by (auto simp: lex_token_def after_word_def dest!: scan_string_length lex_number_length split: if_splits)

lemma lex_json_token:
  "lex_json (c # cs) =
     (case lex_token c cs of
        None \<Rightarrow> None
      | Some (None, r) \<Rightarrow> lex_json r
      | Some (Some t, r) \<Rightarrow> map_option ((#) t) (lex_json r))"
  by (simp add: lex_token_def split: option.split)

section \<open>Reading one value\<close>

text \<open>
  A number at the top level ends the reading also before a character that cannot follow it, which
  the decoder would refuse; for the structs that the sources decode a number is an error anyway.
\<close>

fun whole_value :: "mode \<times> frame list \<Rightarrow> json option" where
  "whole_value (HaveValue v, []) = Some v"
| "whole_value st = None"

function decode_from :: "string \<Rightarrow> mode \<times> frame list \<Rightarrow> (json \<times> string) option" where
  "decode_from s st =
     (case whole_value st of
        Some v \<Rightarrow> Some (v, s)
      | None \<Rightarrow>
          (case s of
             [] \<Rightarrow> None
           | c # cs \<Rightarrow>
               (case lex_token c cs of
                  None \<Rightarrow> None
                | Some (None, r) \<Rightarrow> decode_from r st
                | Some (Some t, r) \<Rightarrow> (case read_token t st of None \<Rightarrow> None | Some st' \<Rightarrow> decode_from r st'))))"
  by pat_completeness auto
termination
  by (relation "measure (\<lambda>(s, st). length s)") (auto dest: lex_token_length)

declare decode_from.simps [simp del]

definition json_decode :: "string \<Rightarrow> json option" where
  "json_decode s = map_option fst (decode_from s (WantValue, []))"

section \<open>Both readers agree\<close>

lemma whole_value_Some: "whole_value st = Some v \<longleftrightarrow> st = (HaveValue v, [])"
  by (cases st rule: whole_value.cases) auto

lemma read_token_whole: "read_token t (HaveValue v, []) = None"
  by (cases t) simp_all

lemma decode_from_tokens:
  assumes "lex_json s = Some ts" and "read_tokens ts st = Some (HaveValue v, [])"
  shows "\<exists>r. decode_from s st = Some (v, r)"
  using assms
proof (induction "length s" arbitrary: s ts st rule: less_induct)
  case less
  show ?case
  proof (cases "whole_value st")
    case (Some w)
    then have st: "st = (HaveValue w, [])" by (simp add: whole_value_Some)
    then have "ts = []" using less.prems(2) by (cases ts) (simp_all add: read_token_whole)
    then show ?thesis using less.prems(2) st by (simp add: decode_from.simps)
  next
    case None
    note step = decode_from.simps [of s st, unfolded None option.case]
    show ?thesis
    proof (cases s)
      case Nil
      then have "st = (HaveValue v, [])" using less.prems by simp
      then show ?thesis using None by simp
    next
      case (Cons c cs)
      obtain t r where tr: "lex_token c cs = Some (t, r)"
        using less.prems(1) by (auto simp: Cons lex_json_token simp del: lex_json.simps split: option.splits prod.splits)
      have shorter: "length r < length s" using lex_token_length [OF tr] Cons by simp
      show ?thesis
      proof (cases t)
        case None
        then have "lex_json r = Some ts" using less.prems(1) by (simp add: Cons lex_json_token tr del: lex_json.simps)
        then show ?thesis using less.hyps [OF shorter _ less.prems(2)] step Cons tr None by simp
      next
        case (Some u)
        then obtain ts' where ts: "lex_json r = Some ts'" "ts = u # ts'"
          using less.prems(1) by (auto simp: Cons lex_json_token tr simp del: lex_json.simps)
        then obtain st' where st': "read_token u st = Some st'" "read_tokens ts' st' = Some (HaveValue v, [])"
          using less.prems(2) by (auto split: option.splits)
        then show ?thesis using less.hyps [OF shorter ts(1) st'(2)] step Cons tr Some by simp
      qed
    qed
  qed
qed

lemma json_decode_parse: "json_parse s = Some v \<Longrightarrow> json_decode s = Some v"
  unfolding json_parse_def json_decode_def
  by (auto dest!: decode_from_tokens split: option.splits prod.splits mode.splits list.splits)

text \<open>The text of a value and a new line.\<close>

definition json_encode :: "json \<Rightarrow> string" where
  "json_encode v = json_print v @ [CHR 0x0A]"

lemma json_parse_encode:
  assumes "json_ok v" and "depth v \<le> max_depth"
  shows "json_parse (json_encode v) = Some v"
proof -
  have "boundary [CHR 0x0A]" "lex_json [CHR 0x0A] = Some []" by (simp_all add: boundary_def is_space_def)
  then have "lex_json (json_encode v) = Some (tokens v)"
    unfolding json_encode_def by (simp only: lexesD [OF lexes_print [OF assms(1)]] option.map append_Nil2)
  moreover have "read_tokens (tokens v) (WantValue, []) = Some (HaveValue v, [])"
    using readsD [OF reads_tokens, of WantValue "[]" v "[]"] assms(2) by simp
  ultimately show ?thesis by (simp add: json_parse_def)
qed

section \<open>Structs\<close>

definition decode_struct :: "'a field list \<Rightarrow> 'a \<Rightarrow> string \<Rightarrow> json_error + 'a" where
  "decode_struct fields zero text =
     (case json_decode text of
        None \<Rightarrow> Inl SyntaxError
      | Some JNull \<Rightarrow> Inr zero
      | Some (JObject ms) \<Rightarrow> (case store_members fields ms zero of (a, True) \<Rightarrow> Inr a | (a, False) \<Rightarrow> Inl UnmarshalTypeError)
      | Some _ \<Rightarrow> Inl UnmarshalTypeError)"

lemma decode_struct_unmarshal: "json_parse text \<noteq> None \<Longrightarrow> decode_struct fields zero text = unmarshal_struct fields zero text"
  by (auto simp: decode_struct_def unmarshal_struct_def json_decode_parse)

lemma decode_struct_encode:
  assumes "json_ok (JObject ms)" and "depth (JObject ms) \<le> max_depth" and "store_members fields ms zero = (a, True)"
    and "text = json_print (JObject ms) \<or> text = json_encode (JObject ms)"
  shows "unmarshal_struct fields zero text = Inr a" and "decode_struct fields zero text = Inr a"
proof -
  have "json_parse text = Some (JObject ms)" using assms(4) json_parse_print [OF assms(1,2)] json_parse_encode [OF assms(1,2)] by blast
  then show "unmarshal_struct fields zero text = Inr a" "decode_struct fields zero text = Inr a"
    using assms(3) by (simp_all add: unmarshal_struct_def decode_struct_unmarshal)
qed

end
