(* ===== verification/Negotiation.thy ===== *)
theory Negotiation
  imports Hybrid Json_Messages Json_Stream
begin

text \<open>
  Protocol negotiation over HTTP (\<^verbatim>\<open>handleNegotiate\<close> of \<^verbatim>\<open>hybrid/server.go\<close>) from the bytes of the
  request to those of the response: the JSON of \<^verbatim>\<open>ClientHello\<close> and \<^verbatim>\<open>ServerHello\<close> by the tags of
  \<^verbatim>\<open>hybrid/config.go\<close> around the selection of \<open>Hybrid\<close>. Shown here: a client that sends its hello
  reads an answer that names a protocol the server offers, and every other body is refused.
\<close>

section \<open>Messages\<close>

definition hello_fields :: "ClientHello field list" where
  "hello_fields = [(''protocol'', store_string hello_Protocol_update), (''version'', store_string hello_Version_update),
     (''supportsWt'', store_bool hello_SupportsWT_update), (''fallbackOnly'', store_bool hello_FallbackOnly_update),
     (''clientId'', store_string hello_ClientID_update), (''userAgent'', store_string hello_UserAgent_update)]"

definition hello_zero :: ClientHello where
  "hello_zero = \<lparr>hello_Protocol = [], hello_Version = [], hello_SupportsWT = False, hello_FallbackOnly = False,
     hello_ClientID = [], hello_UserAgent = []\<rparr>"

definition hello_json :: "ClientHello \<Rightarrow> json" where
  "hello_json h = JObject [(''protocol'', JString (hello_Protocol h)), (''version'', JString (hello_Version h)),
     (''supportsWt'', JBool (hello_SupportsWT h)), (''fallbackOnly'', JBool (hello_FallbackOnly h)),
     (''clientId'', JString (hello_ClientID h)), (''userAgent'', JString (hello_UserAgent h))]"

definition answer_json :: "ServerHello \<Rightarrow> json" where
  "answer_json a = JObject [(''protocol'', JString (sh_Protocol a)), (''version'', JString (sh_Version a)),
     (''serverId'', JString (sh_ServerID a)), (''sessionId'', JString (sh_SessionID a)), (''fallbackUrl'', JString (sh_FallbackURL a))]"

definition answer_fields :: "ServerHello field list" where
  "answer_fields = [(''protocol'', store_string sh_Protocol_update), (''version'', store_string sh_Version_update),
     (''serverId'', store_string sh_ServerID_update), (''sessionId'', store_string sh_SessionID_update),
     (''fallbackUrl'', store_string sh_FallbackURL_update)]"

definition answer_zero :: ServerHello where
  "answer_zero = \<lparr>sh_Protocol = [], sh_Version = [], sh_ServerID = [], sh_SessionID = [], sh_FallbackURL = []\<rparr>"

definition hello_utf8 :: "ClientHello \<Rightarrow> bool" where
  "hello_utf8 h \<longleftrightarrow> utf8_valid (hello_Protocol h) \<and> utf8_valid (hello_Version h) \<and> utf8_valid (hello_ClientID h) \<and>
     utf8_valid (hello_UserAgent h)"

section \<open>The handler\<close>

record http_response =
  rsp_Status :: nat
  rsp_ContentType :: string
  rsp_Body :: bytes

text \<open>What the decoder makes of the body; the handler does not look at the error.\<close>

definition decode_hello :: "bytes \<Rightarrow> go_error + ClientHello" where
  "decode_hello body =
     (case decode_struct hello_fields hello_zero (bytes_string body) of Inl e \<Rightarrow> Inl (json_go_error e) | Inr h \<Rightarrow> Inr h)"

text \<open>\<^verbatim>\<open>http.Error\<close> ends the text with a new line.\<close>

definition negotiate_http :: "bytes \<Rightarrow> HTTPRequest \<Rightarrow> int64 \<Rightarrow> int64 \<Rightarrow> hybrid_server \<Rightarrow> http_response" where
  "negotiate_http body r unix nano s =
     (case handleNegotiate (decode_hello body) r unix nano s of
        Inl status \<Rightarrow> \<lparr>rsp_Status = status, rsp_ContentType = ''text/plain; charset=utf-8'',
           rsp_Body = string_bytes (''invalid request'' @ [CHR 0x0A])\<rparr>
      | Inr resp \<Rightarrow> \<lparr>rsp_Status = 200, rsp_ContentType = ''application/json'', rsp_Body = string_bytes (json_encode (answer_json resp))\<rparr>)"

text \<open>A client's reading of the answer.\<close>

definition read_answer :: "bytes \<Rightarrow> go_error + ServerHello" where
  "read_answer = JSON_Unmarshal answer_fields answer_zero"

section \<open>Lemmas\<close>

declare utf8_valid.simps(2) [simp del]

lemma hello_keys_utf8: "utf8_valid ''protocol''" "utf8_valid ''version''" "utf8_valid ''supportsWt''" "utf8_valid ''fallbackOnly''"
  "utf8_valid ''clientId''" "utf8_valid ''userAgent''" "utf8_valid ''serverId''" "utf8_valid ''sessionId''" "utf8_valid ''fallbackUrl''"
  by (rule utf8_literal; simp)+

lemma hello_find:
  "find_field hello_fields ''protocol'' = Some (''protocol'', store_string hello_Protocol_update)"
  "find_field hello_fields ''version'' = Some (''version'', store_string hello_Version_update)"
  "find_field hello_fields ''supportsWt'' = Some (''supportsWt'', store_bool hello_SupportsWT_update)"
  "find_field hello_fields ''fallbackOnly'' = Some (''fallbackOnly'', store_bool hello_FallbackOnly_update)"
  "find_field hello_fields ''clientId'' = Some (''clientId'', store_string hello_ClientID_update)"
  "find_field hello_fields ''userAgent'' = Some (''userAgent'', store_string hello_UserAgent_update)"
  by (simp_all add: find_field_def hello_fields_def)

lemma answer_find:
  "find_field answer_fields ''protocol'' = Some (''protocol'', store_string sh_Protocol_update)"
  "find_field answer_fields ''version'' = Some (''version'', store_string sh_Version_update)"
  "find_field answer_fields ''serverId'' = Some (''serverId'', store_string sh_ServerID_update)"
  "find_field answer_fields ''sessionId'' = Some (''sessionId'', store_string sh_SessionID_update)"
  "find_field answer_fields ''fallbackUrl'' = Some (''fallbackUrl'', store_string sh_FallbackURL_update)"
  by (simp_all add: find_field_def answer_fields_def)

lemma decode_hello_json:
  assumes "hello_utf8 h"
  shows "decode_hello (string_bytes (json_print (hello_json h))) = Inr h"
proof -
  have "decode_struct hello_fields hello_zero (json_print (hello_json h)) = Inr h"
    unfolding hello_json_def
    by (rule decode_struct_encode(2) [OF _ depth_members])
      (use assms in \<open>auto simp: hello_utf8_def hello_keys_utf8 hello_find hello_zero_def simp del: json_print.simps\<close>)
  then show ?thesis by (simp add: decode_hello_def)
qed

lemma read_answer_json:
  assumes "utf8_valid (sh_Protocol a)" and "utf8_valid (sh_Version a)" and "utf8_valid (sh_ServerID a)"
    and "utf8_valid (sh_SessionID a)" and "utf8_valid (sh_FallbackURL a)"
  shows "read_answer (string_bytes (json_encode (answer_json a))) = Inr a"
proof -
  have "unmarshal_struct answer_fields answer_zero (json_encode (answer_json a)) = Inr a"
    unfolding answer_json_def
    by (rule decode_struct_encode(1) [OF _ depth_members])
      (use assms in \<open>auto simp: hello_keys_utf8 answer_find answer_zero_def simp del: json_print.simps\<close>)
  then show ?thesis by (simp add: read_answer_def JSON_Unmarshal_def)
qed

text \<open>The codec of each message.\<close>

interpretation hello_codec: lossless_codec "JSON_Marshal hello_json" decode_hello hello_utf8
  by unfold_locales (simp add: JSON_Marshal_def decode_hello_json)

lemma show_int_utf8: "utf8_valid (show_int i)"
proof (rule utf8_valid_ascii)
  fix c assume "c \<in> set (show_int i)"
  then have "is_digit c \<or> c = CHR ''-''" using show_nat_is_digit by (auto simp: show_int_def list_all_iff split: if_splits)
  then show "code c < 0x80" by (auto simp: is_digit_def code_def)
qed

section \<open>Properties\<close>

text \<open>
  C32. Negotiation over HTTP. On a hybrid server in automatic mode, a client that posts the JSON of its
  hello gets status 200 and a body of type JSON, which it reads as an answer naming the protocol that the
  fallback manager selects, which is one the server offers, and the URL of the WebSocket server on the
  host of the request. Any body that the decoder refuses is answered with status 400, and no other one.
\<close>

theorem negotiation_wire:
  assumes "hybrid_NewServer env conf opts fs = Return (s, fs')" and "hc_Protocol conf = ProtocolAuto"
    and "utf8_valid (req_Host r)" and "utf8_valid (ws_Path (hc_Ws (hys_conf s)))" and "hello_utf8 hello"
  shows "(case negotiate_http (string_bytes (json_print (hello_json hello))) r unix nano s of rsp \<Rightarrow>
       rsp_Status rsp = 200 \<and> rsp_ContentType rsp = ''application/json'' \<and>
       (\<exists>answer. read_answer (rsp_Body rsp) = Inr answer \<and>
          sh_Protocol answer = SelectProtocol (hys_fallback s) hello \<and>
          sh_Protocol answer \<in> pi_Protocol ` set (GetProtocolInfo s) \<and>
          (\<exists>info \<in> set (GetProtocolInfo s). pi_Protocol info = ProtocolWebSocket \<and>
             sh_FallbackURL answer = ''ws://'' @ req_Host r @ pi_Path info))) \<and>
    (rsp_Status (negotiate_http body r unix nano s) = 400 \<longleftrightarrow> (\<exists>err. decode_hello body = Inl err))"
proof -
  let ?rsp = "negotiate_http (string_bytes (json_print (hello_json hello))) r unix nano s"
  obtain answer where answer: "handleNegotiate (Inr hello) r unix nano s = Inr answer" by (simp add: handleNegotiate_def)
  have rsp: "?rsp = \<lparr>rsp_Status = 200, rsp_ContentType = ''application/json'', rsp_Body = string_bytes (json_encode (answer_json answer))\<rparr>"
    by (simp add: negotiate_http_def decode_hello_json [OF assms(5)] answer)
  have offered: "sh_Protocol answer \<in> pi_Protocol ` set (GetProtocolInfo s)"
    "\<exists>info \<in> set (GetProtocolInfo s). pi_Protocol info = ProtocolWebSocket \<and>
       sh_FallbackURL answer = ''ws://'' @ req_Host r @ pi_Path info"
    using negotiate_offers_available [OF assms(1,2), of "Inr hello" r unix nano] by (simp_all add: answer)
  have texts: "utf8_valid ''1.0''" "utf8_valid ''hybrid-''" "utf8_valid ''ws://''" "utf8_valid ''websocket''" "utf8_valid ''webtransport''"
    by (rule utf8_literal; simp)+
  have "utf8_valid (sh_Protocol answer)"
    using offered(1) texts by (auto simp: GetProtocolInfo_def ProtocolWebSocket_def ProtocolWebTransport_def split: if_splits)
  moreover have "utf8_valid (''hybrid-'' @ show_int (sint unix))" "utf8_valid (''ws://'' @ req_Host r @ ws_Path (hc_Ws (hys_conf s)))"
    using texts assms(3,4) show_int_utf8 utf8_valid_append by blast+
  ultimately have "read_answer (string_bytes (json_encode (answer_json answer))) = Inr answer"
    using answer texts by (intro read_answer_json) (auto simp: handleNegotiate_def generateSessionID_def show_int_utf8)
  moreover have "sh_Protocol answer = SelectProtocol (hys_fallback s) hello" using answer by (auto simp: handleNegotiate_def)
  moreover have "rsp_Status (negotiate_http body r unix nano s) = 400 \<longleftrightarrow> (\<exists>err. decode_hello body = Inl err)"
    by (cases "decode_hello body") (simp_all add: negotiate_http_def handleNegotiate_def)
  ultimately show ?thesis using rsp offered by simp
qed

lemma negotiation_wire_witness:
  "\<exists>s fs' answer. hybrid_NewServer sample_env sample_HybridConf [] {} = Return (s, fs') \<and>
     read_answer (rsp_Body (negotiate_http (string_bytes (json_print (hello_json sample_hello))) sample_query 1 2 s)) = Inr answer \<and>
     sh_Protocol answer \<in> pi_Protocol ` set (GetProtocolInfo s)"
proof -
  obtain s fs' where s: "hybrid_NewServer sample_env sample_HybridConf [] {} = Return (s, fs')"
    by (cases "hybrid_NewServer sample_env sample_HybridConf [] {}")
      (auto simp: hybrid_NewServer_def sample_env_def ws_NewServer_def WsConf_SetUp_def Let_def split: prod.splits)
  have auto: "hc_Protocol sample_HybridConf = ProtocolAuto" by (simp add: sample_HybridConf_def ProtocolAuto_def)
  have "utf8_valid ''webtransport''" "utf8_valid ''1.0''" "utf8_valid ''c1''" "utf8_valid ''/ws''" by (rule utf8_literal; simp)+
  then have "hello_utf8 sample_hello" "utf8_valid (req_Host sample_query)" "utf8_valid (ws_Path (hc_Ws (hys_conf s)))"
    using hybrid_NewServer_ws(2) [OF s]
    by (simp_all add: hello_utf8_def sample_hello_def sample_query_def HybridConf_SetUp_def Let_def sample_HybridConf_def default_WsConf_def)
  note m = negotiation_wire [OF s auto this(2,3,1), of 1 2, THEN conjunct1]
  show ?thesis using s m by blast
qed

end
