(* ===== verification/Hub_Size.thy ===== *)
theory Hub_Size
  imports Prelude
begin

text \<open>
  The rounding of the shard count to a power of two (\<^verbatim>\<open>nextPowerOf2\<close> in \<^verbatim>\<open>stateful/hub.go\<close>) on
  64-bit integers, and masks on 32-bit hashes. Shown here: the bit-smearing code computes the
  least power of two that is at least its argument for arguments up to \<open>2 ^ 32\<close>, and an index
  masked with a power of two minus one is below that power.
\<close>

unbundle bit_operations_syntax

section \<open>Definitions\<close>

text \<open>\<^verbatim>\<open>>>\<close> on the signed type \<^verbatim>\<open>int\<close> is the arithmetic shift.\<close>

definition nextPowerOf2 :: "int64 \<Rightarrow> int64" where
  "nextPowerOf2 n0 =
     (let n = n0 - 1;
          n = n OR signed_drop_bit 1 n;
          n = n OR signed_drop_bit 2 n;
          n = n OR signed_drop_bit 4 n;
          n = n OR signed_drop_bit 8 n;
          n = n OR signed_drop_bit 16 n
      in n + 1)"

text \<open>The bits of a number and all bits below them, by distance.\<close>

definition smeared :: "int64 \<Rightarrow> nat \<Rightarrow> int64 \<Rightarrow> bool" where
  "smeared x d y \<longleftrightarrow> (\<forall>i. bit y i \<longleftrightarrow> (\<exists>j \<le> d. bit x (i + j)))"

section \<open>Smearing\<close>

lemma smeared_0: "smeared x 0 x"
  by (simp add: smeared_def)

lemma bit_signed_drop_bit_nonneg:
  fixes w :: "'a::len word"
  assumes "\<not> bit w (LENGTH('a) - 1)"
  shows "bit (signed_drop_bit k w) i \<longleftrightarrow> bit w (i + k)"
proof (cases "LENGTH('a) - k \<le> i \<and> i < LENGTH('a)")
  case True
  then have "\<not> i + k < LENGTH('a)" by linarith
  then have "\<not> bit w (i + k)" using bit_imp_le_length by blast
  with True assms show ?thesis by (simp add: bit_signed_drop_bit_iff)
next
  case False
  then show ?thesis by (auto simp: bit_signed_drop_bit_iff add.commute)
qed

lemmas bit_signed_drop_bit_pos = bit_signed_drop_bit_nonneg [where 'a = 64, simplified]

lemma bit64_bound: "bit (x :: int64) i \<Longrightarrow> i \<le> 63"
  using bit_imp_le_length [of x i] by simp

lemma smeared_step:
  assumes "smeared x d y" and "\<not> bit x 63" and "k = Suc d"
  shows "smeared x (d + k) (y OR signed_drop_bit k y)"
proof -
  have "\<not> bit y 63"
  proof
    assume "bit y 63"
    then obtain j where "bit x (63 + j)" using assms(1) by (auto simp: smeared_def)
    then show False using assms(2) bit64_bound [of x "63 + j"] by simp
  qed
  then have *: "bit (y OR signed_drop_bit k y) i \<longleftrightarrow> bit y i \<or> bit y (i + k)" for i
    by (simp add: bit_or_iff bit_signed_drop_bit_pos)
  have "(\<exists>j\<le>d. bit x (i + j)) \<or> (\<exists>j\<le>d. bit x (i + k + j)) \<longleftrightarrow> (\<exists>j\<le>d + k. bit x (i + j))" for i
  proof
    assume "\<exists>j\<le>d + k. bit x (i + j)"
    then obtain j where j: "j \<le> d + k" "bit x (i + j)" by blast
    show "(\<exists>j\<le>d. bit x (i + j)) \<or> (\<exists>j\<le>d. bit x (i + k + j))"
    proof (cases "j \<le> d")
      case False
      then have "j - k \<le> d" and "i + k + (j - k) = i + j" using j(1) assms(3) by simp_all
      then show ?thesis using j(2) by metis
    qed (use j(2) in blast)
  next
    assume "(\<exists>j\<le>d. bit x (i + j)) \<or> (\<exists>j\<le>d. bit x (i + k + j))"
    then show "\<exists>j\<le>d + k. bit x (i + j)"
      by (metis add.assoc add.commute add_le_cancel_left trans_le_add1)
  qed
  then show ?thesis using assms(1) by (simp add: smeared_def *)
qed

lemma smeared_top:
  assumes "smeared x 31 y" and "bit x m" and "m < 32" and top: "\<And>i. bit x i \<Longrightarrow> i \<le> m"
  shows "y = mask (Suc m)"
proof (rule bit_eqI)
  fix i
  have "(\<exists>j\<le>31. bit x (i + j)) \<longleftrightarrow> i \<le> m"
  proof
    assume "i \<le> m"
    then have "m - i \<le> 31" and "i + (m - i) = m" using assms(3) by simp_all
    then show "\<exists>j\<le>31. bit x (i + j)" using assms(2) by metis
  next
    assume "\<exists>j\<le>31. bit x (i + j)"
    then show "i \<le> m" using top by (meson add_leE)
  qed
  moreover have "i \<le> m \<Longrightarrow> i < 64" using assms(3) by simp
  ultimately show "bit y i = bit (mask (Suc m) :: int64) i"
    using assms(1) by (auto simp: smeared_def bit_mask_iff)
qed

lemma smear_chain:
  assumes "\<not> bit (n0 - 1) 63"
  obtains y where "smeared (n0 - 1) 31 y" and "nextPowerOf2 n0 = y + 1"
proof -
  let ?x = "n0 - 1"
  define a where "a = ?x OR signed_drop_bit 1 ?x"
  define b where "b = a OR signed_drop_bit 2 a"
  define c where "c = b OR signed_drop_bit 4 b"
  define d where "d = c OR signed_drop_bit 8 c"
  define e where "e = d OR signed_drop_bit 16 d"
  have "smeared ?x (0 + 1) a" unfolding a_def by (rule smeared_step [OF smeared_0 assms]) simp
  then have "smeared ?x (0 + 1 + 2) b" unfolding b_def by (rule smeared_step [OF _ assms]) simp
  then have "smeared ?x (0 + 1 + 2 + 4) c" unfolding c_def by (rule smeared_step [OF _ assms]) simp
  then have "smeared ?x (0 + 1 + 2 + 4 + 8) d" unfolding d_def by (rule smeared_step [OF _ assms]) simp
  then have "smeared ?x (0 + 1 + 2 + 4 + 8 + 16) e" unfolding e_def by (rule smeared_step [OF _ assms]) simp
  then have "smeared ?x 31 e" by simp
  moreover have "nextPowerOf2 n0 = e + 1"
    by (simp add: nextPowerOf2_def a_def b_def c_def d_def e_def Let_def)
  ultimately show ?thesis using that by blast
qed

lemma bit64_of_nat: "bit (of_nat a :: int64) i \<longleftrightarrow> i < 64 \<and> odd (a div 2 ^ i)"
  by (simp add: bit_of_nat_iff bit_nat_def)

text \<open>The highest set bit of a number.\<close>

lemma highest_bit:
  assumes "0 < (a::nat)" and "a < 2 ^ 32"
  obtains m where "m < 32" and "2 ^ m \<le> a" and "a < 2 ^ Suc m"
    and "bit (of_nat a :: int64) m" and "\<And>i. bit (of_nat a :: int64) i \<Longrightarrow> i \<le> m"
proof -
  obtain m where m: "2 ^ m \<le> a" "a < 2 ^ Suc m"
    using assms(1) ex_power_ivl1 [of 2 a] by auto
  have "m < 32"
    by (rule power_less_imp_less_exp [OF _ le_less_trans [OF m(1) assms(2)]]) simp
  moreover have "bit (of_nat a :: int64) m"
  proof -
    have "a div 2 ^ m = 1" using m by (simp add: div_nat_eqI)
    then show ?thesis using \<open>m < 32\<close> by (simp add: bit64_of_nat)
  qed
  moreover have "i \<le> m" if "bit (of_nat a :: int64) i" for i
  proof (rule ccontr)
    assume "\<not> i \<le> m"
    then have "(2::nat) ^ Suc m \<le> 2 ^ i" by (intro power_increasing) auto
    then have "a div 2 ^ i = 0" using m(2) by simp
    then show False using that by (simp add: bit64_of_nat)
  qed
  ultimately show ?thesis using that m by blast
qed

lemma nextPowerOf2_exp:
  assumes "1 < n" and "n \<le> 2 ^ 32"
  obtains m where "m < 32" and "2 ^ m < n" and "n \<le> 2 ^ Suc m"
    and "nextPowerOf2 (of_nat n) = of_nat (2 ^ Suc m)"
proof -
  have "0 < n - 1" and "n - 1 < 2 ^ 32" using assms by linarith+
  then obtain m where m: "m < 32" "2 ^ m \<le> n - 1" "n - 1 < 2 ^ Suc m"
    and b: "bit (of_nat (n - 1) :: int64) m" "\<And>i. bit (of_nat (n - 1) :: int64) i \<Longrightarrow> i \<le> m"
    by (rule highest_bit) blast
  have x: "of_nat n - 1 = (of_nat (n - 1) :: int64)"
    using assms(1) by simp
  have "\<not> bit (of_nat n - 1 :: int64) 63"
    using b(2) [of 63] m(1) unfolding x by auto
  then obtain y where y: "smeared (of_nat n - 1) 31 y" "nextPowerOf2 (of_nat n) = y + 1"
    by (rule smear_chain)
  have "y = mask (Suc m)"
    using y(1) b(1) m(1) b(2) unfolding x by (rule smeared_top)
  then have "nextPowerOf2 (of_nat n) = of_nat (2 ^ Suc m)"
    by (simp add: y(2) mask_eq_exp_minus_1)
  then show ?thesis using that m assms(1) by simp
qed

lemma nextPowerOf2_1 [simp]: "nextPowerOf2 1 = 1"
  by (simp add: nextPowerOf2_def)

text \<open>The result is a power of two up to \<open>2 ^ 32\<close>, and the least that is not below the argument.\<close>

lemma nextPowerOf2_least:
  assumes "0 < n" and "n \<le> 2 ^ 32"
  shows "\<exists>k \<le> 32. nextPowerOf2 (of_nat n) = of_nat (2 ^ k) \<and> n \<le> 2 ^ k \<and> (\<forall>j. n \<le> 2 ^ j \<longrightarrow> k \<le> j)"
proof (cases "n = 1")
  case True
  then show ?thesis by (intro exI [of _ 0]) simp
next
  case False
  then obtain m where m: "m < 32" "2 ^ m < n" "n \<le> 2 ^ Suc m" "nextPowerOf2 (of_nat n) = of_nat (2 ^ Suc m)"
    using nextPowerOf2_exp [of n] assms by auto
  have "Suc m \<le> j" if "n \<le> 2 ^ j" for j
  proof -
    have "(2::nat) ^ m < 2 ^ j" using m(2) that by (rule less_le_trans)
    then show ?thesis by simp
  qed
  with m show ?thesis by (intro exI [of _ "Suc m"]) auto
qed

section \<open>Masked indices\<close>

lemma mask_cast:
  assumes "k \<le> 32"
  shows "ucast (2 ^ k - 1 :: int64) = (mask k :: uint32)"
proof -
  have "(2 ^ k - 1 :: int64) = mask k"
    by (simp add: mask_eq_exp_minus_1)
  then show ?thesis using assms
    by (auto simp: bit_eq_iff bit_ucast_iff bit_mask_iff)
qed

lemma masked_index_less: "k \<le> 32 \<Longrightarrow> unat (x AND mask k :: uint32) < 2 ^ k"
proof -
  have "unat (take_bit k x) < 2 ^ k"
    by (simp add: unsigned_take_bit_eq)
  then show ?thesis by (simp add: take_bit_eq_mask)
qed

end
