(* ===== verification/Hub.thy ===== *)
theory Hub
  imports Hub_Size Registry Delivery
begin

text \<open>
  The sharded connection hub (\<^verbatim>\<open>stateful/hub.go\<close>): construction, the hash that selects a shard,
  register, unregister, bind, lookups, iteration, statistics, and the atomic counter. An index
  outside the slice of shards panics in Go, so everything that selects a shard returns an
  \<^typ>\<open>'a outcome\<close>.

  The hub refines a flat registry (the locale \<open>conn_registry\<close>): which shard holds an entry
  is invisible to its clients.
\<close>

unbundle bit_operations_syntax

section \<open>The hub\<close>

record hubShard =
  hs_connections :: "(string, conn) gomap"
  hs_userConns :: "(string, string, conn) nested"

record Hub =
  hub_shards :: "hubShard list"
  hub_shardMask :: int64

definition empty_shard :: hubShard where
  "empty_shard = \<lparr>hs_connections = [], hs_userConns = []\<rparr>"

text \<open>\<^verbatim>\<open>make\<close> panics on a negative length.\<close>

definition NewHub :: "int64 \<Rightarrow> Hub outcome" where
  "NewHub shards0 =
     (let shards1 = (if sint shards0 \<le> 0 then 32 else shards0);
          shards = nextPowerOf2 shards1
      in if sint shards < 0 then Panics
         else Return \<lparr>hub_shards = replicate (nat (sint shards)) empty_shard, hub_shardMask = shards - 1\<rparr>)"

definition shard_hash :: "string \<Rightarrow> uint32" where
  "shard_hash key = foldl (\<lambda>hash c. (hash XOR of_nat c) * 16777619) 0 (runes key)"

definition getShard :: "Hub \<Rightarrow> string \<Rightarrow> nat outcome" where
  "getShard h key =
     (let i = unat (shard_hash key AND ucast (hub_shardMask h))
      in if i < length (hub_shards h) then Return i else Panics)"

definition update_shard :: "nat \<Rightarrow> (hubShard \<Rightarrow> hubShard) \<Rightarrow> Hub \<Rightarrow> Hub" where
  "update_shard i f h = h\<lparr>hub_shards := (hub_shards h)[i := f (hub_shards h ! i)]\<rparr>"

definition Hub_Register :: "world \<Rightarrow> conn \<Rightarrow> Hub \<Rightarrow> Hub outcome" where
  "Hub_Register w c h =
     bind_outcome (getShard h (conn_ID w c))
       (\<lambda>i. Return (update_shard i
          (\<lambda>shard. shard\<lparr>hs_connections := mapassign (conn_ID w c) c (hs_connections shard)\<rparr>) h))"

definition Hub_Unregister :: "world \<Rightarrow> conn \<Rightarrow> Hub \<Rightarrow> Hub outcome" where
  "Hub_Unregister w c h =
     bind_outcome (getShard h (conn_ID w c))
       (\<lambda>i. Return (update_shard i
          (\<lambda>shard.
             let shard1 = shard\<lparr>hs_connections := mapdelete (conn_ID w c) (hs_connections shard)\<rparr>;
                 userID = conn_UserID w c
             in if userID \<noteq> []
                then shard1\<lparr>hs_userConns := unbind_in userID (conn_ID w c) (hs_userConns shard1)\<rparr>
                else shard1) h))"

definition Hub_BindUser :: "conn \<Rightarrow> string \<Rightarrow> Hub \<times> world \<Rightarrow> (Hub \<times> world) outcome" where
  "Hub_BindUser c userID s =
     (let w = conn_SetUserID userID c (snd s)
      in bind_outcome (getShard (fst s) (conn_ID w c))
           (\<lambda>i. Return (update_shard i
              (\<lambda>shard. shard\<lparr>hs_userConns := bind_in userID (conn_ID w c) c (hs_userConns shard)\<rparr>) (fst s), w)))"

definition Hub_Get :: "Hub \<Rightarrow> string \<Rightarrow> conn option outcome" where
  "Hub_Get h connID =
     bind_outcome (getShard h connID) (\<lambda>i. Return (map_of (hs_connections (hub_shards h ! i)) connID))"

text \<open>The \<open>i\<close>-th shard is visited with the \<open>i\<close>-th range order.\<close>

fun by_user_loop :: "(string \<times> conn) range_order \<Rightarrow> nat \<Rightarrow> string \<Rightarrow> hubShard list \<Rightarrow> conn list" where
  "by_user_loop ord i userID [] = []"
| "by_user_loop ord i userID (shard # shards) =
     (case map_of (hs_userConns shard) userID of
        None \<Rightarrow> []
      | Some conns \<Rightarrow> map snd (ord i conns)) @ by_user_loop ord (Suc i) userID shards"

definition Hub_GetByUser :: "(string \<times> conn) range_order \<Rightarrow> Hub \<Rightarrow> string \<Rightarrow> conn list" where
  "Hub_GetByUser ord h userID = by_user_loop ord 0 userID (hub_shards h)"

definition Hub_Count :: "Hub \<Rightarrow> int64" where
  "Hub_Count h = foldl (\<lambda>count shard. count + of_nat (length (hs_connections shard))) 0 (hub_shards h)"

text \<open>The callback acts on a state and says whether to go on.\<close>

fun foreach_shards ::
  "(string \<times> conn) range_order \<Rightarrow> nat \<Rightarrow> (conn \<Rightarrow> 'a \<Rightarrow> 'a \<times> bool) \<Rightarrow> hubShard list \<Rightarrow> 'a \<Rightarrow> 'a" where
  "foreach_shards ord i fn [] a = a"
| "foreach_shards ord i fn (shard # shards) a =
     (case foreach_conns fn (map snd (ord i (hs_connections shard))) a of
        (a', True) \<Rightarrow> foreach_shards ord (Suc i) fn shards a'
      | (a', False) \<Rightarrow> a')"

definition Hub_ForEach :: "(string \<times> conn) range_order \<Rightarrow> (conn \<Rightarrow> 'a \<Rightarrow> 'a \<times> bool) \<Rightarrow> Hub \<Rightarrow> 'a \<Rightarrow> 'a" where
  "Hub_ForEach ord fn h a = foreach_shards ord 0 fn (hub_shards h) a"

record ShardStats =
  ss_Connections :: nat
  ss_Users :: nat

record HubStats =
  st_TotalConnections :: int64
  st_TotalUsers :: int64
  st_ShardStats :: "ShardStats list"

definition Hub_Stats :: "Hub \<Rightarrow> HubStats" where
  "Hub_Stats h =
     foldl (\<lambda>stats shard.
        stats\<lparr>st_ShardStats := st_ShardStats stats @
                [\<lparr>ss_Connections = length (hs_connections shard), ss_Users = length (hs_userConns shard)\<rparr>],
              st_TotalConnections := st_TotalConnections stats + of_nat (length (hs_connections shard)),
              st_TotalUsers := st_TotalUsers stats + of_nat (length (hs_userConns shard))\<rparr>)
       \<lparr>st_TotalConnections = 0, st_TotalUsers = 0, st_ShardStats = []\<rparr> (hub_shards h)"

section \<open>The atomic counter\<close>

definition Counter_Inc :: "int64 \<Rightarrow> int64" where
  "Counter_Inc v = v + 1"

definition Counter_Dec :: "int64 \<Rightarrow> int64" where
  "Counter_Dec v = v - 1"

definition Counter_Value :: "int64 \<Rightarrow> int64" where
  "Counter_Value v = v"

section \<open>Invariant and abstract content\<close>

definition shard_ok :: "Hub \<Rightarrow> nat \<Rightarrow> hubShard \<Rightarrow> bool" where
  "shard_ok h i shard \<longleftrightarrow>
     gomap_ok (hs_connections shard) \<and> nested_ok (hs_userConns shard) \<and>
     (\<forall>k \<in> dom (map_of (hs_connections shard)). getShard h k = Return i) \<and>
     (\<forall>u. \<forall>k \<in> dom (user_view (hs_userConns shard) u). getShard h k = Return i)"

definition hub_sized :: "Hub \<Rightarrow> bool" where
  "hub_sized h \<longleftrightarrow>
     (\<exists>k \<le> 32. length (hub_shards h) = 2 ^ k \<and> hub_shardMask h = 2 ^ k - 1)"

definition hub_ok :: "Hub \<Rightarrow> bool" where
  "hub_ok h \<longleftrightarrow> hub_sized h \<and> (\<forall>i < length (hub_shards h). shard_ok h i (hub_shards h ! i))"

text \<open>The shard of a key, where the index is in range.\<close>

definition shard_of :: "Hub \<Rightarrow> string \<Rightarrow> nat" where
  "shard_of h key = unat (shard_hash key AND ucast (hub_shardMask h))"

definition hub_conns :: "Hub \<Rightarrow> string \<rightharpoonup> conn" where
  "hub_conns h key = map_of (hs_connections (hub_shards h ! shard_of h key)) key"

definition hub_users :: "Hub \<Rightarrow> string \<Rightarrow> string \<rightharpoonup> conn" where
  "hub_users h u key = user_view (hs_userConns (hub_shards h ! shard_of h key)) u key"

text \<open>The operations on the hub together with the connection objects; a panic leaves the state.\<close>

definition hub_register :: "conn \<Rightarrow> Hub \<times> world \<Rightarrow> Hub \<times> world" where
  "hub_register c s = (case Hub_Register (snd s) c (fst s) of Return h \<Rightarrow> (h, snd s) | _ \<Rightarrow> s)"

definition hub_unregister :: "conn \<Rightarrow> Hub \<times> world \<Rightarrow> Hub \<times> world" where
  "hub_unregister c s = (case Hub_Unregister (snd s) c (fst s) of Return h \<Rightarrow> (h, snd s) | _ \<Rightarrow> s)"

definition hub_bind :: "conn \<Rightarrow> string \<Rightarrow> Hub \<times> world \<Rightarrow> Hub \<times> world" where
  "hub_bind c u s = (case Hub_BindUser c u s of Return s' \<Rightarrow> s' | _ \<Rightarrow> s)"

text \<open>Sequences of operations, on the hub and on the flat registry it stands for.\<close>

datatype hub_op = HubRegister conn | HubUnregister conn | HubBindUser conn string

fun hub_step :: "hub_op \<Rightarrow> Hub \<times> world \<Rightarrow> (Hub \<times> world) outcome" where
  "hub_step (HubRegister c) s = bind_outcome (Hub_Register (snd s) c (fst s)) (\<lambda>h. Return (h, snd s))"
| "hub_step (HubUnregister c) s = bind_outcome (Hub_Unregister (snd s) c (fst s)) (\<lambda>h. Return (h, snd s))"
| "hub_step (HubBindUser c u) s = Hub_BindUser c u s"

fun hub_run :: "hub_op list \<Rightarrow> Hub \<times> world \<Rightarrow> (Hub \<times> world) outcome" where
  "hub_run [] s = Return s"
| "hub_run (x # xs) s = bind_outcome (hub_step x s) (hub_run xs)"

record flat_registry =
  flat_conns :: "string \<rightharpoonup> conn"
  flat_users :: "string \<Rightarrow> string \<rightharpoonup> conn"
  flat_world :: world

fun flat_step :: "hub_op \<Rightarrow> flat_registry \<Rightarrow> flat_registry" where
  "flat_step (HubRegister c) f = f\<lparr>flat_conns := (flat_conns f)(conn_ID (flat_world f) c \<mapsto> c)\<rparr>"
| "flat_step (HubUnregister c) f =
     (let k = conn_ID (flat_world f) c; u = conn_UserID (flat_world f) c
      in f\<lparr>flat_conns := (flat_conns f)(k := None),
           flat_users := (if u = [] then flat_users f
                          else (flat_users f)(u := (flat_users f u)(k := None)))\<rparr>)"
| "flat_step (HubBindUser c u) f =
     f\<lparr>flat_users := (flat_users f)(u := (flat_users f u)(conn_ID (flat_world f) c \<mapsto> c)),
       flat_world := conn_SetUserID u c (flat_world f)\<rparr>"

definition flat_run :: "hub_op list \<Rightarrow> flat_registry \<Rightarrow> flat_registry" where
  "flat_run ops f = foldl (\<lambda>f x. flat_step x f) f ops"

definition flat_of :: "Hub \<times> world \<Rightarrow> flat_registry" where
  "flat_of s = \<lparr>flat_conns = hub_conns (fst s), flat_users = hub_users (fst s), flat_world = snd s\<rparr>"

text \<open>The connections in the order in which \<^verbatim>\<open>ForEach\<close> visits them.\<close>

fun visit_order :: "(string \<times> conn) range_order \<Rightarrow> nat \<Rightarrow> hubShard list \<Rightarrow> conn list" where
  "visit_order ord i [] = []"
| "visit_order ord i (shard # shards) =
     map snd (ord i (hs_connections shard)) @ visit_order ord (Suc i) shards"

text \<open>Small hubs and three connection objects, used in examples.\<close>

definition sample_hub :: Hub where
  "sample_hub = \<lparr>hub_shards = [empty_shard], hub_shardMask = 0\<rparr>"

definition two_shard_hub :: Hub where
  "two_shard_hub = \<lparr>hub_shards = [empty_shard, empty_shard], hub_shardMask = 1\<rparr>"

definition sample_world :: world where
  "sample_world =
     \<lparr>w_ws = (\<lambda>r. ws_NewConnection (if r = 0 then ''a'' else if r = 1 then ''b'' else ''c'') [] 0),
      w_wt = (\<lambda>r. wt_NewConnection ''d'' [] 0)\<rparr>"

section \<open>Lemmas\<close>

lemma update_shard_simps [simp]:
  "hub_shardMask (update_shard i f h) = hub_shardMask h"
  "length (hub_shards (update_shard i f h)) = length (hub_shards h)"
  "getShard (update_shard i f h) = getShard h"
  "shard_of (update_shard i f h) = shard_of h"
  "hub_sized (update_shard i f h) = hub_sized h"
  by (simp_all add: update_shard_def getShard_def shard_of_def hub_sized_def fun_eq_iff)

lemma nth_update_shard:
  "j < length (hub_shards h) \<Longrightarrow>
     hub_shards (update_shard i f h) ! j = (if j = i then f (hub_shards h ! i) else hub_shards h ! j)"
  by (auto simp: update_shard_def nth_list_update)

lemma getShard_Return [simp]: "getShard h k = Return i \<longleftrightarrow> i = shard_of h k \<and> i < length (hub_shards h)"
  by (auto simp: getShard_def shard_of_def Let_def)

lemma shard_of_less: "hub_sized h \<Longrightarrow> shard_of h k < length (hub_shards h)"
  by (auto simp: hub_sized_def shard_of_def mask_cast masked_index_less)

lemma getShard_sized: "hub_sized h \<Longrightarrow> getShard h k = Return (shard_of h k)"
  by (simp add: shard_of_less)

lemma shard_ok_iff:
  "hub_sized h \<Longrightarrow> shard_ok h i shard \<longleftrightarrow>
     gomap_ok (hs_connections shard) \<and> nested_ok (hs_userConns shard) \<and>
     (\<forall>k \<in> dom (map_of (hs_connections shard)). shard_of h k = i) \<and>
     (\<forall>u. \<forall>k \<in> dom (user_view (hs_userConns shard) u). shard_of h k = i)"
  using shard_of_less by (fastforce simp: shard_ok_def)

lemma shard_ok_update [simp]: "shard_ok (update_shard i f h) = shard_ok h"
  by (simp add: shard_ok_def fun_eq_iff)

lemma hub_ok_update:
  assumes "hub_ok h" and "i < length (hub_shards h)"
    and "\<And>shard. shard_ok h i shard \<Longrightarrow> shard_ok h i (f shard)"
  shows "hub_ok (update_shard i f h)"
  using assms by (auto simp: hub_ok_def nth_update_shard)

lemma hub_okD:
  assumes "hub_ok h"
  shows "hub_sized h" and "shard_ok h (shard_of h k) (hub_shards h ! shard_of h k)"
  using assms shard_of_less by (auto simp: hub_ok_def)

lemma hub_register_eq:
  "hub_sized (fst s) \<Longrightarrow>
     hub_register c s =
       (update_shard (shard_of (fst s) (conn_ID (snd s) c))
          (\<lambda>shard. shard\<lparr>hs_connections := mapassign (conn_ID (snd s) c) c (hs_connections shard)\<rparr>) (fst s), snd s)"
  by (simp add: hub_register_def Hub_Register_def getShard_sized)

lemma hub_unregister_eq:
  "hub_sized (fst s) \<Longrightarrow>
     hub_unregister c s =
       (update_shard (shard_of (fst s) (conn_ID (snd s) c))
          (\<lambda>shard. shard\<lparr>hs_connections := mapdelete (conn_ID (snd s) c) (hs_connections shard),
              hs_userConns := (if conn_UserID (snd s) c = [] then hs_userConns shard
                 else unbind_in (conn_UserID (snd s) c) (conn_ID (snd s) c) (hs_userConns shard))\<rparr>) (fst s), snd s)"
  by (simp add: hub_unregister_def Hub_Unregister_def getShard_sized update_shard_def Let_def)

lemma hub_bind_eq:
  "hub_sized (fst s) \<Longrightarrow>
     hub_bind c u s =
       (update_shard (shard_of (fst s) (conn_ID (snd s) c))
          (\<lambda>shard. shard\<lparr>hs_userConns := bind_in u (conn_ID (snd s) c) c (hs_userConns shard)\<rparr>) (fst s),
        conn_SetUserID u c (snd s))"
  by (simp add: hub_bind_def Hub_BindUser_def getShard_sized)

lemmas hub_op_eqs = hub_register_eq hub_unregister_eq hub_bind_eq

lemma hub_ops_ok:
  assumes "hub_ok (fst s)"
  shows "hub_ok (fst (hub_register c s))" "hub_ok (fst (hub_unregister c s))" "hub_ok (fst (hub_bind c u s))"
proof -
  note [simp] = hub_okD(1) [OF assms] shard_of_less [OF hub_okD(1) [OF assms]]
  show "hub_ok (fst (hub_register c s))"
    by (simp add: hub_op_eqs) (rule hub_ok_update [OF assms], auto simp: shard_ok_iff)
  show "hub_ok (fst (hub_unregister c s))"
    by (simp add: hub_op_eqs) (rule hub_ok_update [OF assms], simp, fastforce simp: shard_ok_iff split: if_splits)
  show "hub_ok (fst (hub_bind c u s))"
    by (simp add: hub_op_eqs) (rule hub_ok_update [OF assms], auto simp: shard_ok_iff split: if_splits)
qed

lemmas hub_content = hub_conns_def hub_users_def nth_update_shard shard_of_less

interpretation hub: conn_registry "\<lambda>s. hub_ok (fst s)" "\<lambda>s. hub_conns (fst s)" "\<lambda>s. hub_users (fst s)"
  "\<lambda>s. conn_ID (snd s)" "\<lambda>s. conn_UserID (snd s)" hub_register hub_unregister hub_bind
proof unfold_locales
  fix s :: "Hub \<times> world" and c u
  assume ok: "hub_ok (fst s)"
  note sized [simp] = hub_okD(1) [OF ok]
  show "hub_ok (fst (hub_register c s))" "hub_ok (fst (hub_unregister c s))" "hub_ok (fst (hub_bind c u s))"
    using ok by (rule hub_ops_ok)+
  show "hub_conns (fst (hub_register c s)) = (hub_conns (fst s))(conn_ID (snd s) c \<mapsto> c)"
    "hub_conns (fst (hub_unregister c s)) = (hub_conns (fst s))(conn_ID (snd s) c := None)"
    "hub_conns (fst (hub_bind c u s)) = hub_conns (fst s)"
    by (auto simp: hub_op_eqs hub_content fun_eq_iff)
  show "hub_users (fst (hub_register c s)) = hub_users (fst s)"
    "hub_users (fst (hub_bind c u s)) = (hub_users (fst s))(u := (hub_users (fst s) u)(conn_ID (snd s) c \<mapsto> c))"
    "hub_users (fst (hub_unregister c s)) =
      (if conn_UserID (snd s) c = [] then hub_users (fst s)
       else (hub_users (fst s))(conn_UserID (snd s) c :=
              (hub_users (fst s) (conn_UserID (snd s) c))(conn_ID (snd s) c := None)))"
    by (auto simp: hub_op_eqs hub_content fun_eq_iff)
  show "conn_ID (snd (hub_register c s)) = conn_ID (snd s)" "conn_ID (snd (hub_bind c u s)) = conn_ID (snd s)"
    "conn_UserID (snd (hub_register c s)) = conn_UserID (snd s)"
    "conn_UserID (snd (hub_bind c u s)) = (conn_UserID (snd s))(c := u)"
    by (simp_all add: hub_op_eqs)
qed

section \<open>Refinement of the flat registry\<close>

lemma hub_step_refines:
  assumes ok: "hub_ok (fst s)"
  shows "\<exists>s'. hub_step x s = Return s' \<and> hub_ok (fst s') \<and> flat_of s' = flat_step x (flat_of s)"
proof (cases x)
  case (HubRegister c)
  have "hub_step x s = Return (hub_register c s)"
    using HubRegister hub_okD(1) [OF ok] by (simp add: hub_op_eqs Hub_Register_def getShard_sized)
  moreover have "flat_of (hub_register c s) = flat_step x (flat_of s)"
    using HubRegister hub.register_conns [OF ok] hub.register_users [OF ok] hub_okD(1) [OF ok]
    by (simp add: flat_of_def) (simp add: hub_op_eqs)
  ultimately show ?thesis using hub_ops_ok(1) [OF ok] by blast
next
  case (HubUnregister c)
  have "hub_step x s = Return (hub_unregister c s)"
    using HubUnregister hub_okD(1) [OF ok]
    by (simp add: hub_op_eqs Hub_Unregister_def getShard_sized update_shard_def Let_def)
  moreover have "flat_of (hub_unregister c s) = flat_step x (flat_of s)"
    using HubUnregister hub.unregister_conns [OF ok] hub.unregister_users [OF ok] hub_okD(1) [OF ok]
    by (simp add: flat_of_def Let_def) (simp add: hub_op_eqs)
  ultimately show ?thesis using hub_ops_ok(2) [OF ok] by blast
next
  case (HubBindUser c u)
  have "hub_step x s = Return (hub_bind c u s)"
    using HubBindUser hub_okD(1) [OF ok] by (simp add: hub_op_eqs Hub_BindUser_def getShard_sized)
  moreover have "flat_of (hub_bind c u s) = flat_step x (flat_of s)"
    using HubBindUser hub.bind_conns [OF ok] hub.bind_users [OF ok] hub_okD(1) [OF ok]
    by (simp add: flat_of_def) (simp add: hub_op_eqs)
  ultimately show ?thesis using hub_ops_ok(3) [OF ok] by blast
qed

lemma hub_run_refines:
  "hub_ok (fst s) \<Longrightarrow>
     \<exists>s'. hub_run ops s = Return s' \<and> hub_ok (fst s') \<and> flat_of s' = flat_run ops (flat_of s)"
proof (induction ops arbitrary: s)
  case Nil
  then show ?case by (simp add: flat_run_def)
next
  case (Cons x xs)
  obtain s1 where s1: "hub_step x s = Return s1" "hub_ok (fst s1)" "flat_of s1 = flat_step x (flat_of s)"
    using hub_step_refines [OF Cons.prems] by blast
  then show ?case using Cons.IH [OF s1(2)] by (simp add: flat_run_def)
qed

lemma Hub_Get_eq: "hub_sized h \<Longrightarrow> Hub_Get h k = Return (hub_conns h k)"
  by (simp add: Hub_Get_def getShard_sized hub_conns_def)

section \<open>Construction\<close>

lemma NewHub_sized:
  assumes "sint n \<le> 2 ^ 32"
  obtains h k where "NewHub n = Return h" and "k \<le> 32" and "hub_sized h"
    and "hub_shards h = replicate (2 ^ k) empty_shard"
    and "(if sint n \<le> 0 then 32 else nat (sint n)) \<le> 2 ^ k"
    and "\<And>j. (if sint n \<le> 0 then 32 else nat (sint n)) \<le> 2 ^ j \<Longrightarrow> k \<le> j"
proof -
  define m where "m = (if sint n \<le> 0 then 32 else nat (sint n))"
  have m: "0 < m" "m \<le> 2 ^ 32" using assms by (auto simp: m_def)
  have arg: "(if sint n \<le> 0 then 32 else n) = of_nat m"
    by (simp add: m_def)
  obtain k where k: "k \<le> 32" "nextPowerOf2 (of_nat m) = of_nat (2 ^ k)" "m \<le> 2 ^ k" "\<And>j. m \<le> 2 ^ j \<Longrightarrow> k \<le> j"
    using nextPowerOf2_least [OF m] by auto
  have "(2::nat) ^ k \<le> 2 ^ 32" using k(1) by (rule power_increasing) simp
  also have "\<dots> < 2 ^ 63" by simp
  finally have sk: "sint (of_nat (2 ^ k) :: int64) = int (2 ^ k)"
    by (rule sint_of_nat64)
  have "NewHub n = Return \<lparr>hub_shards = replicate (nat (int (2 ^ k))) empty_shard, hub_shardMask = of_nat (2 ^ k) - 1\<rparr>"
    unfolding NewHub_def arg Let_def k(2) sk by simp
  then have "NewHub n = Return \<lparr>hub_shards = replicate (2 ^ k) empty_shard, hub_shardMask = 2 ^ k - 1\<rparr>"
    by (simp add: nat_power_eq)
  then show ?thesis
    using that [of "\<lparr>hub_shards = replicate (2 ^ k) empty_shard, hub_shardMask = 2 ^ k - 1\<rparr>" k] k
    unfolding m_def hub_sized_def by auto
qed

lemma hub_ok_empty:
  "hub_sized h \<Longrightarrow> hub_shards h = replicate n empty_shard \<Longrightarrow>
     hub_ok h \<and> hub_conns h = Map.empty \<and> hub_users h = (\<lambda>_. Map.empty)"
  using shard_of_less [of h]
  by (auto simp: hub_ok_def shard_ok_def empty_shard_def hub_conns_def hub_users_def fun_eq_iff)

section \<open>Queries over all shards\<close>

text \<open>
  A family of maps, one per shard, such that every key of the \<open>i\<close>-th map belongs to shard \<open>i\<close>:
  the entries of the family are the entries of one map.
\<close>

lemma partition_dom:
  assumes "\<And>k. p k < length xs" and "\<And>i k. i < length xs \<Longrightarrow> k \<in> dom (map_of (f (xs ! i))) \<Longrightarrow> p k = i"
  shows "dom (\<lambda>k. map_of (f (xs ! p k)) k) = (\<Union>i < length xs. dom (map_of (f (xs ! i))))"
  using assms by (fastforce simp: dom_def)

lemma partition_card:
  assumes "\<And>k. p k < length xs" and "\<And>i k. i < length xs \<Longrightarrow> k \<in> dom (map_of (f (xs ! i))) \<Longrightarrow> p k = i"
    and "\<And>i. i < length xs \<Longrightarrow> gomap_ok (f (xs ! i))"
  shows "sum_list (map (length \<circ> f) xs) = card (dom (\<lambda>k. map_of (f (xs ! p k)) k))"
proof -
  have disj: "dom (map_of (f (xs ! i))) \<inter> dom (map_of (f (xs ! j))) = {}"
    if "i < length xs" "j < length xs" "i \<noteq> j" for i j
    using assms(2) that by blast
  have "card (\<Union>i < length xs. dom (map_of (f (xs ! i)))) = (\<Sum>i < length xs. card (dom (map_of (f (xs ! i)))))"
    by (rule card_UN_disjoint) (use disj in \<open>simp_all add: finite_dom_map_of\<close>)
  also have "\<dots> = (\<Sum>i < length xs. length (f (xs ! i)))"
    using assms(3) by (simp add: length_gomap_card)
  finally show ?thesis
    using partition_dom [of p xs f, OF assms(1,2)] by (simp add: sum_list_sum_nth atLeast0LessThan)
qed

lemma UN_set_nth: "(\<Union>x \<in> set xs. g x) = (\<Union>i < length xs. g (xs ! i))"
  by (auto simp: set_conv_nth)

lemma partition_ran:
  assumes "\<And>k. p k < length xs" and "\<And>i k. i < length xs \<Longrightarrow> k \<in> dom (map_of (f (xs ! i))) \<Longrightarrow> p k = i"
    and "\<And>i. i < length xs \<Longrightarrow> gomap_ok (f (xs ! i))"
  shows "ran (\<lambda>k. map_of (f (xs ! p k)) k) = (\<Union>x \<in> set xs. snd ` set (f x))"
proof -
  have "c \<in> ran (\<lambda>k. map_of (f (xs ! p k)) k) \<longleftrightarrow> (\<exists>i < length xs. c \<in> ran (map_of (f (xs ! i))))" for c
    using assms(1,2) by (fastforce simp: ran_def dom_def)
  then have "ran (\<lambda>k. map_of (f (xs ! p k)) k) = (\<Union>i < length xs. ran (map_of (f (xs ! i))))"
    by (simp add: set_eq_iff Bex_def)
  also have "\<dots> = (\<Union>i < length xs. snd ` set (f (xs ! i)))"
    using assms(3) by (simp add: gomap_ok_def ran_distinct)
  finally show ?thesis by (simp add: UN_set_nth)
qed

lemma hub_partition:
  assumes "hub_ok h"
  shows "\<And>k. shard_of h k < length (hub_shards h)"
    and "\<And>i. i < length (hub_shards h) \<Longrightarrow> gomap_ok (hs_connections (hub_shards h ! i))"
    and "\<And>i. i < length (hub_shards h) \<Longrightarrow> gomap_ok (conns_of (hs_userConns (hub_shards h ! i)) u)"
    and "\<And>i k. i < length (hub_shards h) \<Longrightarrow>
           k \<in> dom (map_of (hs_connections (hub_shards h ! i))) \<Longrightarrow> shard_of h k = i"
    and "\<And>i k. i < length (hub_shards h) \<Longrightarrow>
           k \<in> dom (map_of (conns_of (hs_userConns (hub_shards h ! i)) u)) \<Longrightarrow> shard_of h k = i"
proof -
  have sized: "hub_sized h" and ok: "\<And>i. i < length (hub_shards h) \<Longrightarrow> shard_ok h i (hub_shards h ! i)"
    using assms by (simp_all add: hub_ok_def)
  show "\<And>k. shard_of h k < length (hub_shards h)" by (rule shard_of_less [OF sized])
  show "\<And>i. i < length (hub_shards h) \<Longrightarrow> gomap_ok (hs_connections (hub_shards h ! i))"
    "\<And>i. i < length (hub_shards h) \<Longrightarrow> gomap_ok (conns_of (hs_userConns (hub_shards h ! i)) u)"
    "\<And>i k. i < length (hub_shards h) \<Longrightarrow>
       k \<in> dom (map_of (hs_connections (hub_shards h ! i))) \<Longrightarrow> shard_of h k = i"
    using ok by (simp_all add: shard_ok_iff [OF sized])
  show "\<And>i k. i < length (hub_shards h) \<Longrightarrow>
       k \<in> dom (map_of (conns_of (hs_userConns (hub_shards h ! i)) u)) \<Longrightarrow> shard_of h k = i"
    using ok by (simp add: shard_ok_iff [OF sized] user_view_def)
qed

lemma hub_conns_eq: "hub_conns h = (\<lambda>k. map_of (hs_connections (hub_shards h ! shard_of h k)) k)"
  by (simp add: hub_conns_def fun_eq_iff)

lemma hub_users_eq: "hub_users h u = (\<lambda>k. map_of (conns_of (hs_userConns (hub_shards h ! shard_of h k)) u) k)"
  by (simp add: hub_users_def user_view_def fun_eq_iff)

lemma Hub_Count_loop:
  "foldl (\<lambda>count shard. count + of_nat (length (hs_connections shard))) a shards =
     a + (of_nat (sum_list (map (length \<circ> hs_connections) shards)) :: int64)"
  by (induction shards arbitrary: a) (simp_all add: add.assoc)

lemma visit_order_all:
  assumes "order_ok ord"
  shows "set (visit_order ord i shards) = (\<Union>shard \<in> set shards. snd ` set (hs_connections shard))"
    and "length (visit_order ord i shards) = sum_list (map (length \<circ> hs_connections) shards)"
  by (induction shards arbitrary: i) (simp_all add: order_ok_set [OF assms] order_ok_length [OF assms])

lemma by_user_all:
  assumes "order_ok ord"
  shows "set (by_user_loop ord i u shards) = (\<Union>shard \<in> set shards. snd ` set (conns_of (hs_userConns shard) u))"
    and "length (by_user_loop ord i u shards) = sum_list (map (length \<circ> (\<lambda>shard. conns_of (hs_userConns shard) u)) shards)"
proof -
  have "by_user_loop ord i u (shard # shards) =
      map snd (ord i (conns_of (hs_userConns shard) u)) @ by_user_loop ord (Suc i) u shards" for i shard shards
    using assms by (simp add: conns_of_def split: option.split)
  note step = this
  show "set (by_user_loop ord i u shards) = (\<Union>shard \<in> set shards. snd ` set (conns_of (hs_userConns shard) u))"
    "length (by_user_loop ord i u shards) = sum_list (map (length \<circ> (\<lambda>shard. conns_of (hs_userConns shard) u)) shards)"
    by (induction shards arbitrary: i)
      (simp_all add: step order_ok_set [OF assms] order_ok_length [OF assms] del: by_user_loop.simps(2))
qed

lemma foreach_shards_visit:
  "foreach_shards ord i fn shards a = fst (foreach_conns fn (visit_order ord i shards) a)"
  by (induction shards arbitrary: i a) (auto simp: foreach_conns_append split: prod.split bool.split)

lemma Hub_Stats_loop:
  "foldl (\<lambda>stats shard.
      stats\<lparr>st_ShardStats := st_ShardStats stats @
              [\<lparr>ss_Connections = length (hs_connections shard), ss_Users = length (hs_userConns shard)\<rparr>],
            st_TotalConnections := st_TotalConnections stats + of_nat (length (hs_connections shard)),
            st_TotalUsers := st_TotalUsers stats + of_nat (length (hs_userConns shard))\<rparr>) st shards =
   st\<lparr>st_TotalConnections := st_TotalConnections st + of_nat (sum_list (map (length \<circ> hs_connections) shards)),
      st_TotalUsers := st_TotalUsers st + of_nat (sum_list (map (length \<circ> hs_userConns) shards)),
      st_ShardStats := st_ShardStats st @
        map (\<lambda>shard. \<lparr>ss_Connections = length (hs_connections shard), ss_Users = length (hs_userConns shard)\<rparr>) shards\<rparr>"
  by (induction shards arbitrary: st) (simp_all add: add.assoc)

section \<open>Properties\<close>

text \<open>
  C9. Building a hub. For every requested number of shards up to \<open>2 ^ 32\<close>, NewHub returns
  a well-formed empty hub whose number of shards is the least power of two that is at least the
  requested number (32 when a number below one is requested), and whose mask selects exactly
  its shards.
\<close>

theorem hub_new:
  assumes "sint n \<le> 2 ^ 32"
  shows "\<exists>h k. NewHub n = Return h \<and> hub_ok h \<and> length (hub_shards h) = 2 ^ k \<and>
           (let requested = (if sint n \<le> 0 then 32 else nat (sint n))
            in requested \<le> 2 ^ k \<and> (\<forall>j. requested \<le> 2 ^ j \<longrightarrow> k \<le> j)) \<and>
           (\<forall>key. \<exists>i < 2 ^ k. getShard h key = Return i) \<and>
           (\<forall>key. Hub_Get h key = Return None)"
proof -
  obtain h k where h: "NewHub n = Return h" "hub_sized h" "hub_shards h = replicate (2 ^ k) empty_shard"
    "(if sint n \<le> 0 then 32 else nat (sint n)) \<le> 2 ^ k"
    "\<And>j. (if sint n \<le> 0 then 32 else nat (sint n)) \<le> 2 ^ j \<Longrightarrow> k \<le> j"
    using NewHub_sized [OF assms] by metis
  moreover have "hub_ok h" "hub_conns h = Map.empty" using hub_ok_empty [OF h(2,3)] by auto
  moreover have "\<forall>key. \<exists>i < 2 ^ k. getShard h key = Return i"
    using shard_of_less [OF h(2)] h(3) by simp
  ultimately show ?thesis
    by (intro exI [of _ h] exI [of _ k]) (simp add: Let_def Hub_Get_eq)
qed

lemma hub_new_witness: "\<exists>h k. NewHub 33 = Return h \<and> length (hub_shards h) = 2 ^ k \<and> 33 \<le> (2::nat) ^ k"
  using hub_new [of 33] by (auto simp: Let_def)

text \<open>
  C6. The sharded hub is a flat registry. Whatever sequence of Register, Unregister and
  BindUser calls is made on a new hub, none of them panics, the invariant holds, and the
  content of the hub (connections by ID, connections by user) is that of one pair of plain maps
  updated by the same calls; Get returns what the plain map holds.
\<close>

theorem hub_refines_flat:
  assumes "sint n \<le> 2 ^ 32" and "NewHub n = Return h"
  shows "\<exists>s. hub_run ops (h, w) = Return s \<and> hub_ok (fst s) \<and>
           flat_of s = flat_run ops \<lparr>flat_conns = Map.empty, flat_users = (\<lambda>_. Map.empty), flat_world = w\<rparr> \<and>
           (\<forall>key. Hub_Get (fst s) key = Return (flat_conns (flat_of s) key))"
proof -
  have new: "hub_ok h \<and> hub_conns h = Map.empty \<and> hub_users h = (\<lambda>_. Map.empty)"
    using NewHub_sized [OF assms(1)] hub_ok_empty assms(2) by (metis outcome.inject)
  then obtain s where s: "hub_run ops (h, w) = Return s" "hub_ok (fst s)"
    "flat_of s = flat_run ops (flat_of (h, w))"
    using hub_run_refines [of "(h, w)" ops] by auto
  moreover have "flat_of (h, w) = \<lparr>flat_conns = Map.empty, flat_users = (\<lambda>_. Map.empty), flat_world = w\<rparr>"
    using new by (simp add: flat_of_def)
  moreover have "Hub_Get (fst s) key = Return (flat_conns (flat_of s) key)" for key
    using hub_okD(1) [OF s(2)] by (simp add: Hub_Get_eq flat_of_def)
  ultimately show ?thesis by auto
qed

lemma hub_refines_flat_witness:
  "\<exists>s. hub_run [HubRegister (WsConn 0), HubBindUser (WsConn 0) ''bob''] (sample_hub, sample_world) = Return s \<and>
     Hub_Get (fst s) ''a'' = Return (Some (WsConn 0))"
proof -
  have "NewHub 1 = Return sample_hub" by (simp add: NewHub_def sample_hub_def)
  then show ?thesis
    using hub_refines_flat [of 1 sample_hub "[HubRegister (WsConn 0), HubBindUser (WsConn 0) ''bob'']" sample_world]
    by (auto simp: flat_run_def sample_world_def ws_NewConnection_def)
qed

text \<open>
  Queries over the whole hub. In any order in which the maps are visited: Count is the
  number of registered connection IDs; GetByUser returns the connections bound to the user, one
  per connection ID, and nothing else; and Stats agrees with Count, listing every shard.
\<close>

lemma hub_queries:
  assumes "hub_ok h" and "order_ok ord"
  shows "Hub_Count h = of_nat (card (dom (hub_conns h))) \<and>
         set (Hub_GetByUser ord h u) = ran (hub_users h u) \<and>
         length (Hub_GetByUser ord h u) = card (dom (hub_users h u)) \<and>
         st_TotalConnections (Hub_Stats h) = Hub_Count h \<and>
         length (st_ShardStats (Hub_Stats h)) = length (hub_shards h)"
proof -
  note p = hub_partition [OF assms(1)]
  have count: "Hub_Count h = of_nat (card (dom (hub_conns h)))"
    using partition_card [of "shard_of h" "hub_shards h" hs_connections, OF p(1,4,2)]
    by (simp add: Hub_Count_def Hub_Count_loop hub_conns_eq)
  have "set (Hub_GetByUser ord h u) = ran (hub_users h u)"
    using partition_ran [of "shard_of h" "hub_shards h" "\<lambda>shard. conns_of (hs_userConns shard) u", OF p(1,5,3)]
    by (simp add: Hub_GetByUser_def by_user_all [OF assms(2)] hub_users_eq)
  moreover have "length (Hub_GetByUser ord h u) = card (dom (hub_users h u))"
    using partition_card [of "shard_of h" "hub_shards h" "\<lambda>shard. conns_of (hs_userConns shard) u", OF p(1,5,3)]
    by (simp add: Hub_GetByUser_def by_user_all [OF assms(2)] hub_users_eq)
  ultimately show ?thesis
    using count by (simp add: Hub_Stats_def Hub_Stats_loop Hub_Count_def Hub_Count_loop)
qed

text \<open>
  C34. Iteration. ForEach calls its callback on the connections of the hub one after the other,
  every registered connection once per connection ID, and stops at the first call that returns
  false: it is the early-exit iteration over one list of all connections.
\<close>

theorem hub_foreach:
  assumes "hub_ok h" and "order_ok ord"
  shows "\<exists>cs. set cs = ran (hub_conns h) \<and> length cs = card (dom (hub_conns h)) \<and>
           (\<forall>fn (a::'a). Hub_ForEach ord fn h a = fst (foreach_conns fn cs a))"
proof -
  note p = hub_partition [OF assms(1)]
  let ?cs = "visit_order ord 0 (hub_shards h)"
  have "set ?cs = ran (hub_conns h)"
    using partition_ran [of "shard_of h" "hub_shards h" hs_connections, OF p(1,4,2)]
    by (simp add: visit_order_all [OF assms(2)] hub_conns_eq)
  moreover have "length ?cs = card (dom (hub_conns h))"
    using partition_card [of "shard_of h" "hub_shards h" hs_connections, OF p(1,4,2)]
    by (simp add: visit_order_all [OF assms(2)] hub_conns_eq)
  ultimately show ?thesis
    by (intro exI [of _ ?cs]) (simp add: Hub_ForEach_def foreach_shards_visit)
qed

lemma hub_foreach_witness:
  "\<exists>cs :: conn list. length cs = card (dom (hub_conns sample_hub)) \<and>
     Hub_ForEach (\<lambda>i xs. xs) (\<lambda>c n. (n + 1, True)) sample_hub (0::nat) =
       fst (foreach_conns (\<lambda>c n. (n + 1, True)) cs 0)"
proof -
  have "hub_sized sample_hub" by (auto simp: hub_sized_def sample_hub_def intro!: exI [of _ 0])
  then have "hub_ok sample_hub" using hub_ok_empty [of sample_hub 1] by (simp add: sample_hub_def)
  then obtain cs where cs: "length cs = card (dom (hub_conns sample_hub))"
    "\<And>fn (a::nat). Hub_ForEach (\<lambda>i xs. xs) fn sample_hub a = fst (foreach_conns fn cs a)"
    using hub_foreach [where 'a = nat, OF _ order_ok_id] by blast
  show ?thesis by (rule exI [of _ cs]) (simp only: cs simp_thms)
qed

text \<open>
  A second binding. A connection of a well-formed hub that is bound to one user, then to
  another, and then unregistered is gone from the connections but is still returned by
  GetByUser for the first user.
\<close>

lemma hub_rebind_leaks:
  assumes "hub_ok h" and "u \<noteq> v" and "v \<noteq> []" and "order_ok ord"
  shows "\<exists>s. hub_run [HubBindUser c u, HubRegister c, HubBindUser c v, HubUnregister c] (h, w) = Return s \<and>
           Hub_Get (fst s) (conn_ID w c) = Return None \<and>
           c \<in> set (Hub_GetByUser ord (fst s) u)"
proof -
  let ?ops = "[HubBindUser c u, HubRegister c, HubBindUser c v, HubUnregister c]"
  obtain s where s: "hub_run ?ops (h, w) = Return s" "hub_ok (fst s)"
    "flat_of s = flat_run ?ops (flat_of (h, w))"
    using hub_run_refines [of "(h, w)" ?ops] assms(1) by auto
  have "hub_conns (fst s) (conn_ID w c) = None" and "hub_users (fst s) u (conn_ID w c) = Some c"
    using arg_cong [OF s(3), of flat_conns] arg_cong [OF s(3), of flat_users] assms(2,3)
    by (simp_all add: flat_of_def flat_run_def Let_def)
  moreover note p = hub_partition [OF s(2)]
  moreover have "set (Hub_GetByUser ord (fst s) u) = ran (hub_users (fst s) u)"
    using partition_ran [of "shard_of (fst s)" "hub_shards (fst s)" "\<lambda>shard. conns_of (hs_userConns shard) u", OF p(1,5,3)]
    by (simp add: Hub_GetByUser_def by_user_all [OF assms(4)] hub_users_eq)
  ultimately show ?thesis
    using s(1) hub_okD(1) [OF s(2)] by (auto simp: Hub_Get_eq intro: ranI)
qed

text \<open>
  One user counted twice. There is a hub in which one user has two connections and the
  statistics report two users: TotalUsers adds the users of every shard.
\<close>

lemma hub_stats_overcount:
  "\<exists>s. hub_run [HubRegister (WsConn 0), HubBindUser (WsConn 0) ''bob'', HubRegister (WsConn 1),
         HubBindUser (WsConn 1) ''bob''] (two_shard_hub, sample_world) = Return s \<and>
       st_TotalUsers (Hub_Stats (fst s)) = 2 \<and>
       {u. Hub_GetByUser (\<lambda>i xs. xs) (fst s) u \<noteq> []} = {''bob''}"
proof -
  have a: "getShard two_shard_hub ''a'' = Return 1" and b: "getShard two_shard_hub ''b'' = Return 0"
    by code_simp+
  have ids: "conn_ID sample_world (WsConn 0) = ''a''" "conn_ID sample_world (WsConn (Suc 0)) = ''b''"
    by (simp_all add: sample_world_def ws_NewConnection_def)
  show ?thesis
    by (simp add: Hub_Register_def Hub_BindUser_def a b ids update_shard_simps(3) Let_def del: getShard_Return conn_ID.simps conn_SetUserID.simps)
      (auto simp: two_shard_hub_def empty_shard_def update_shard_def Hub_Stats_def Hub_GetByUser_def bind_in_eq conns_of_def)
qed

end
