(* ===== verification/Heartbeat.thy ===== *)
theory Heartbeat
  imports Hub Conn_World
begin

text \<open>
  The heartbeat manager of \<^verbatim>\<open>stateful/heartbeat.go\<close>. \<^verbatim>\<open>checkConnections\<close> closes the registered
  connections whose last activity is longer ago than the timeout; \<^verbatim>\<open>Start\<close> calls it on every tick
  until its context ends. Times are integers of nanoseconds; the difference of two times is a
  \<^verbatim>\<open>time.Duration\<close>, which saturates. The hub and the clock are inputs of each round of the loop,
  and so is what other goroutines have done to the connections since the last round.
\<close>

section \<open>Definitions\<close>

text \<open>The \<^verbatim>\<open>hub\<close> field points to the shared hub, which other goroutines change; its content at each
  check is the argument \<open>h\<close> of \<open>checkConnections\<close>, so it is not a field here.\<close>

record HeartbeatManager =
  hm_interval :: int64
  hm_timeout :: int64

definition NewHeartbeatManager :: "int64 \<Rightarrow> int64 \<Rightarrow> HeartbeatManager" where
  "NewHeartbeatManager interval timeout = \<lparr>hm_interval = interval, hm_timeout = timeout\<rparr>"

text \<open>\<^verbatim>\<open>t.Sub(u)\<close>.\<close>

definition Time_Sub :: "int \<Rightarrow> int \<Rightarrow> int64" where
  "Time_Sub t u = of_int (max (- (2 ^ 63)) (min (2 ^ 63 - 1) (t - u)))"

definition UpdateActivity :: "int \<Rightarrow> conn \<Rightarrow> world \<Rightarrow> world" where
  "UpdateActivity now c w = conn_SetMetadata ''lastActivity'' (AnyTime now) c w"

text \<open>The callback of \<^verbatim>\<open>checkConnections\<close>; the iteration ends early only if closing panics.\<close>

definition check_connection ::
  "(string \<times> any) range_order \<Rightarrow> (conn \<Rightarrow> ws_io) \<Rightarrow> (conn \<Rightarrow> wt_io) \<Rightarrow> HeartbeatManager \<Rightarrow> int \<Rightarrow> conn \<Rightarrow>
     world outcome \<Rightarrow> world outcome \<times> bool" where
  "check_connection mo wsio wtio m now c s =
     (let s' = bind_outcome s (\<lambda>w.
        (case map_of (conn_Metadata mo w c) ''lastActivity'' of
           Some (AnyTime lastActivity) \<Rightarrow>
             if int64_less (hm_timeout m) (Time_Sub now lastActivity)
             then bind_outcome (conn_Close (wsio c) (wtio c) c w) (\<lambda>(w', _). Return w')
             else Return w
         | _ \<Rightarrow> Return w))
      in (s', returns s'))"

definition checkConnections ::
  "(string \<times> conn) range_order \<Rightarrow> (string \<times> any) range_order \<Rightarrow> (conn \<Rightarrow> ws_io) \<Rightarrow> (conn \<Rightarrow> wt_io) \<Rightarrow>
     HeartbeatManager \<Rightarrow> Hub \<Rightarrow> int \<Rightarrow> world \<Rightarrow> world outcome" where
  "checkConnections ord mo wsio wtio m h now w = Hub_ForEach ord (check_connection mo wsio wtio m now) h (Return w)"

text \<open>What the loop of \<^verbatim>\<open>Start\<close> finds in one round.\<close>

record heartbeat_round =
  hr_choice :: nat
  hr_ctx :: go_context
  hr_tick :: bool
  hr_now :: int
  hr_hub :: Hub
  hr_others :: "world \<Rightarrow> world"

datatype heartbeat_case = CtxEnded | Ticked

definition heartbeat_ready :: "heartbeat_round \<Rightarrow> heartbeat_case list" where
  "heartbeat_ready r = (if hr_ctx r \<noteq> None then [CtxEnded] else []) @ (if hr_tick r then [Ticked] else [])"

text \<open>The loop, over the rounds given; the flag says whether it has returned. When no case is
  ready it waits for the next round.\<close>

fun heartbeat_loop ::
  "(string \<times> conn) range_order \<Rightarrow> (string \<times> any) range_order \<Rightarrow> (conn \<Rightarrow> ws_io) \<Rightarrow> (conn \<Rightarrow> wt_io) \<Rightarrow>
     HeartbeatManager \<Rightarrow> heartbeat_round list \<Rightarrow> world \<Rightarrow> (world \<times> bool) outcome" where
  "heartbeat_loop ord mo wsio wtio m [] w = Return (w, False)"
| "heartbeat_loop ord mo wsio wtio m (r # rs) w =
     (let w1 = hr_others r w
      in case go_select (hr_choice r) (heartbeat_ready r) of
           None \<Rightarrow> heartbeat_loop ord mo wsio wtio m rs w1
         | Some CtxEnded \<Rightarrow> Return (w1, True)
         | Some Ticked \<Rightarrow>
             bind_outcome (checkConnections ord mo wsio wtio m (hr_hub r) (hr_now r) w1)
               (heartbeat_loop ord mo wsio wtio m rs))"

text \<open>\<^verbatim>\<open>time.NewTicker\<close> panics unless the interval is positive.\<close>

definition Heartbeat_Start ::
  "(string \<times> conn) range_order \<Rightarrow> (string \<times> any) range_order \<Rightarrow> (conn \<Rightarrow> ws_io) \<Rightarrow> (conn \<Rightarrow> wt_io) \<Rightarrow>
     HeartbeatManager \<Rightarrow> heartbeat_round list \<Rightarrow> world \<Rightarrow> (world \<times> bool) outcome" where
  "Heartbeat_Start ord mo wsio wtio m rs w =
     (if sint (hm_interval m) \<le> 0 then Panics else heartbeat_loop ord mo wsio wtio m rs w)"

text \<open>A connection whose recorded activity is longer ago than the timeout.\<close>

definition conn_stale :: "HeartbeatManager \<Rightarrow> int \<Rightarrow> world \<Rightarrow> conn \<Rightarrow> bool" where
  "conn_stale m now w c \<longleftrightarrow>
     (case conn_meta w c ''lastActivity'' of Some (AnyTime t) \<Rightarrow> int64_less (hm_timeout m) (Time_Sub now t) | _ \<Rightarrow> False)"

text \<open>Rounds with well-formed hubs, in which the other goroutines keep the connections valid.\<close>

definition round_ok :: "heartbeat_round \<Rightarrow> bool" where
  "round_ok r \<longleftrightarrow> hub_ok (hr_hub r) \<and> (\<forall>w. world_ok w \<longrightarrow> world_ok (hr_others r w))"

section \<open>Lemmas\<close>

lemma sint_Time_Sub: "sint (Time_Sub t u) = max (- (2 ^ 63)) (min (2 ^ 63 - 1) (t - u))"
  by (simp add: Time_Sub_def sint_sbintrunc' signed_take_bit_int_eq_self)

lemma check_connection_Return:
  assumes "world_ok w" and "order_ok mo"
  obtains w' where "check_connection mo wsio wtio m now c (Return w) = (Return w', True)"
    and "conn_closed w' = (\<lambda>d. conn_closed w d \<or> d = c \<and> conn_stale m now w c)"
    and "conn_queue w' = conn_queue w" and "conn_UserID w' = conn_UserID w" and "conn_meta w' = conn_meta w" and "world_ok w'"
proof (cases "conn_stale m now w c")
  case True
  obtain w' err where w': "conn_Close (wsio c) (wtio c) c w = Return (w', err)"
    and "conn_closed w' = (conn_closed w)(c := True)" "conn_queue w' = conn_queue w"
    "conn_UserID w' = conn_UserID w" "conn_meta w' = conn_meta w" "world_ok w'"
    using conn_Close_frame [OF assms(1)] .
  moreover have "check_connection mo wsio wtio m now c (Return w) = (Return w', True)"
    using True w' assms by (auto simp: check_connection_def conn_stale_def conn_Metadata_meta split: option.splits any.splits)
  ultimately show ?thesis using that True by (auto simp: fun_eq_iff)
next
  case False
  then have "check_connection mo wsio wtio m now c (Return w) = (Return w, True)"
    using assms by (auto simp: check_connection_def conn_stale_def conn_Metadata_meta split: option.splits any.splits)
  then show ?thesis using that [of w] False assms by simp
qed

lemma check_all:
  assumes "world_ok w" and "order_ok mo"
  shows "\<exists>w'. foreach_conns (check_connection mo wsio wtio m now) cs (Return w) = (Return w', True) \<and>
    conn_closed w' = (\<lambda>d. conn_closed w d \<or> d \<in> set cs \<and> conn_stale m now w d) \<and>
    conn_queue w' = conn_queue w \<and> conn_UserID w' = conn_UserID w \<and> conn_meta w' = conn_meta w \<and> world_ok w'"
  using assms(1)
proof (induction cs arbitrary: w)
  case Nil
  then show ?case by simp
next
  case (Cons c cs)
  obtain w1 where w1: "check_connection mo wsio wtio m now c (Return w) = (Return w1, True)"
    "conn_closed w1 = (\<lambda>d. conn_closed w d \<or> d = c \<and> conn_stale m now w c)"
    "conn_queue w1 = conn_queue w" "conn_UserID w1 = conn_UserID w" "conn_meta w1 = conn_meta w" "world_ok w1"
    using check_connection_Return [OF Cons.prems assms(2)] .
  have stale: "conn_stale m now w1 = conn_stale m now w" using w1(5) by (simp add: conn_stale_def fun_eq_iff)
  show ?case using Cons.IH [OF w1(6)] w1 by (auto simp: stale fun_eq_iff)
qed

lemma checkConnections_spec:
  assumes "hub_ok h" and "order_ok ord" and "order_ok mo" and "world_ok w"
  obtains w' where "checkConnections ord mo wsio wtio m h now w = Return w'"
    and "conn_closed w' = (\<lambda>c. conn_closed w c \<or> c \<in> ran (hub_conns h) \<and> conn_stale m now w c)"
    and "conn_queue w' = conn_queue w" and "conn_UserID w' = conn_UserID w" and "conn_meta w' = conn_meta w" and "world_ok w'"
proof -
  let ?cs = "visit_order ord 0 (hub_shards h)"
  have cs: "set ?cs = ran (hub_conns h)"
    using hub_partition [OF assms(1)] partition_ran [of "shard_of h" "hub_shards h" hs_connections]
    by (simp add: visit_order_all [OF assms(2)] hub_conns_eq)
  show ?thesis
    using check_all [OF assms(4,3), of wsio wtio m now ?cs] that
    by (auto simp: checkConnections_def Hub_ForEach_def foreach_shards_visit cs)
qed

lemma heartbeat_loop_runs:
  assumes "order_ok ord" and "order_ok mo"
  shows "world_ok w \<Longrightarrow> \<forall>r \<in> set rs. round_ok r \<Longrightarrow>
    \<exists>w' fin. heartbeat_loop ord mo wsio wtio m rs w = Return (w', fin) \<and> world_ok w' \<and>
      ((\<exists>r \<in> set rs. hr_ctx r \<noteq> None \<and> \<not> hr_tick r) \<longrightarrow> fin)"
proof (induction rs arbitrary: w)
  case Nil
  then show ?case by (auto intro: exI [of _ False])
next
  case (Cons r rs)
  let ?w1 = "hr_others r w"
  have w1: "world_ok ?w1" and hub: "hub_ok (hr_hub r)" using Cons.prems by (simp_all add: round_ok_def)
  have rs: "\<forall>r \<in> set rs. round_ok r" using Cons.prems by simp
  show ?case
  proof (cases "go_select (hr_choice r) (heartbeat_ready r)")
    case None
    then have "hr_ctx r = None" by (auto simp: heartbeat_ready_def split: if_splits)
    then show ?thesis using Cons.IH [OF w1 rs] None by (simp del: go_select_None)
  next
    case (Some x)
    show ?thesis
    proof (cases x)
      case CtxEnded
      then show ?thesis using Some w1 by (auto intro: exI [of _ True])
    next
      case Ticked
      then have tick: "hr_tick r" using go_select_in [OF Some] by (auto simp: heartbeat_ready_def split: if_splits)
      obtain w2 where "checkConnections ord mo wsio wtio m (hr_hub r) (hr_now r) ?w1 = Return w2" "world_ok w2"
        using checkConnections_spec [OF hub assms w1] by metis
      then show ?thesis using Cons.IH [OF _ rs] Some Ticked tick by simp
    qed
  qed
qed

lemma hub_ok_sample: "hub_ok sample_hub"
proof -
  have "hub_sized sample_hub" by (auto simp: hub_sized_def sample_hub_def intro!: exI [of _ 0])
  then show ?thesis using hub_ok_empty [of sample_hub 1] by (simp add: sample_hub_def)
qed

lemma world_ok_sample: "world_ok sample_world"
  by (simp add: world_ok_def sample_world_def ws_conn_ok_def wt_conn_ok_def ws_NewConnection_def wt_NewConnection_def)

section \<open>Properties\<close>

text \<open>
  C30. The heartbeat check closes exactly the silent connections. On a well-formed hub it never
  panics, and afterwards a connection is closed if and only if it was closed before, or it is
  registered and its recorded activity is longer ago than the timeout; queues, user IDs and
  metadata are untouched. A connection that has recorded activity within the timeout, and one
  that never recorded any, stays open.
\<close>

theorem heartbeat_closes_stale:
  assumes "hub_ok h" and "order_ok ord" and "order_ok mo" and "world_ok w"
  shows "\<exists>w'. checkConnections ord mo wsio wtio m h now w = Return w' \<and>
    (\<forall>c. conn_closed w' c \<longleftrightarrow> conn_closed w c \<or>
       c \<in> ran (hub_conns h) \<and>
       (\<exists>t. conn_meta w c ''lastActivity'' = Some (AnyTime t) \<and>
            sint (hm_timeout m) < max (- (2 ^ 63)) (min (2 ^ 63 - 1) (now - t)))) \<and>
    conn_queue w' = conn_queue w \<and> conn_UserID w' = conn_UserID w \<and> conn_meta w' = conn_meta w"
proof -
  obtain w' where w': "checkConnections ord mo wsio wtio m h now w = Return w'"
    "conn_closed w' = (\<lambda>c. conn_closed w c \<or> c \<in> ran (hub_conns h) \<and> conn_stale m now w c)"
    "conn_queue w' = conn_queue w" "conn_UserID w' = conn_UserID w" "conn_meta w' = conn_meta w"
    using checkConnections_spec [OF assms] .
  have "conn_stale m now w c \<longleftrightarrow> (\<exists>t. conn_meta w c ''lastActivity'' = Some (AnyTime t) \<and>
      sint (hm_timeout m) < max (- (2 ^ 63)) (min (2 ^ 63 - 1) (now - t)))" for c
    by (simp add: conn_stale_def sint_Time_Sub split: option.split any.split)
  then show ?thesis using w' by auto
qed

lemma heartbeat_closes_stale_witness:
  "\<exists>h w'. Hub_Register sample_world (WsConn 0) sample_hub = Return h \<and>
     checkConnections (\<lambda>i xs. xs) (\<lambda>i xs. xs) (\<lambda>_ _ _. None) (\<lambda>_ _ _. None) (NewHeartbeatManager 30 90) h 200
       (UpdateActivity 100 (WsConn 0) sample_world) = Return w' \<and> conn_closed w' (WsConn 0)"
proof -
  let ?s = "hub_register (WsConn 0) (sample_hub, sample_world)"
  have sized: "hub_sized sample_hub" using hub_okD(1) [OF hub_ok_sample] .
  have ok: "hub_ok (fst ?s)" using hub.register_ok [of "(sample_hub, sample_world)"] hub_ok_sample by simp
  have reg: "Hub_Register sample_world (WsConn 0) sample_hub = Return (fst ?s)"
    using sized by (simp add: hub_register_eq Hub_Register_def getShard_sized del: getShard_Return conn_ID.simps)
  have "WsConn 0 \<in> ran (hub_conns (fst ?s))"
    using hub.register_conns [of "(sample_hub, sample_world)"] hub_ok_sample by (auto simp: ran_def)
  moreover have "conn_meta (UpdateActivity 100 (WsConn 0) sample_world) (WsConn 0) ''lastActivity'' = Some (AnyTime 100)"
    by (simp add: UpdateActivity_def del: conn_SetMetadata.simps conn_meta.simps)
  moreover have "world_ok (UpdateActivity 100 (WsConn 0) sample_world)"
    by (simp add: UpdateActivity_def world_ok_sample del: conn_SetMetadata.simps)
  ultimately show ?thesis
    using heartbeat_closes_stale [OF ok, of "\<lambda>i xs. xs" "\<lambda>i xs. xs" "UpdateActivity 100 (WsConn 0) sample_world"
        "\<lambda>_ _ _. None" "\<lambda>_ _ _. None" "NewHeartbeatManager 30 90" 200] reg
    by (auto simp: NewHeartbeatManager_def simp del: conn_closed.simps conn_meta.simps)
qed

text \<open>
  C31. The heartbeat loop runs and ends. With a positive interval and well-formed hubs, Start
  never panics, whatever happens to the connections between its rounds, and it has returned once
  a round finds its context ended and no tick pending; with an interval that is not positive it
  panics at once.
\<close>

theorem heartbeat_start_ends:
  assumes "order_ok ord" and "order_ok mo" and "world_ok w" and "\<forall>r \<in> set rs. round_ok r"
  shows "if 0 < sint (hm_interval m)
    then \<exists>w' fin. Heartbeat_Start ord mo wsio wtio m rs w = Return (w', fin) \<and>
      ((\<exists>r \<in> set rs. hr_ctx r \<noteq> None \<and> \<not> hr_tick r) \<longrightarrow> fin)
    else Heartbeat_Start ord mo wsio wtio m rs w = Panics"
  using heartbeat_loop_runs [OF assms(1,2,3,4), of wsio wtio m] by (auto simp: Heartbeat_Start_def)

lemma heartbeat_start_ends_witness:
  "\<exists>w'. Heartbeat_Start (\<lambda>i xs. xs) (\<lambda>i xs. xs) (\<lambda>_ _ _. None) (\<lambda>_ _ _. None) (NewHeartbeatManager 30 90)
     [\<lparr>hr_choice = 0, hr_ctx = None, hr_tick = True, hr_now = 5, hr_hub = sample_hub, hr_others = (\<lambda>w. w)\<rparr>,
      \<lparr>hr_choice = 0, hr_ctx = Some (ErrorString ''canceled''), hr_tick = False, hr_now = 9, hr_hub = sample_hub, hr_others = (\<lambda>w. w)\<rparr>]
     sample_world = Return (w', True)"
  (is "\<exists>w'. Heartbeat_Start ?o ?mo ?ws ?wt ?m ?rs ?w = _")
proof -
  have "\<forall>r \<in> set ?rs. round_ok r" by (simp add: round_ok_def hub_ok_sample)
  then show ?thesis
    using heartbeat_start_ends [of ?o ?mo ?w ?rs ?m ?ws ?wt] by (auto simp: world_ok_sample NewHeartbeatManager_def)
qed

end
