(* ===== verification/Wire.thy ===== *)
theory Wire
  imports Json_Messages
begin

text \<open>
  The examples with their JSON library: what they put on the wire. Whatever bytes the clients
  send, the chat example queues only texts that are read as one of its messages, and a message
  arrives with the sender, the room and the text it was sent with; a notification arrives with
  the bytes that were stored.
\<close>

section \<open>Definitions\<close>

definition chat_kinds :: "string set" where
  "chat_kinds = {''system'', ''joined'', ''join'', ''message'', ''leave'', ''error''}"

definition chat_text :: "bytes \<Rightarrow> bool" where
  "chat_text data \<longleftrightarrow> (case chat_unmarshal data of Inl e \<Rightarrow> False | Inr m \<Rightarrow> chat_utf8 m \<and> cm_Type m \<in> chat_kinds)"

definition wire_ok :: "world \<Rightarrow> bool" where
  "wire_ok w \<longleftrightarrow> (\<forall>c. utf8_valid (conn_UserID w c) \<and> utf8_valid (any_string (conn_meta w c ''roomId'')) \<and>
     list_all chat_text (conn_queue w c))"

text \<open>The callbacks use the JSON library, and the servers only take messages out of the queues.\<close>

definition wire_call :: "chat_env \<times> chat_call \<Rightarrow> bool" where
  "wire_call ex \<longleftrightarrow> call_ok ex \<and> (\<exists>choice ord md. fst ex = json_chat_env choice ord md) \<and>
     (\<forall>f w c. snd ex = CallOthers f \<longrightarrow> set (conn_queue (f w) c) \<subseteq> set (conn_queue w c))"

fun chat_value_ok :: "chat_value \<Rightarrow> bool" where
  "chat_value_ok (ChatValue m) = (chat_utf8 m \<and> cm_Type m \<in> chat_kinds)"
| "chat_value_ok (JoinedValue r u) = (utf8_valid r \<and> utf8_valid u)"

section \<open>What is queued\<close>

lemma phrases_utf8: "utf8_valid ''system''" "utf8_valid ''joined''" "utf8_valid ''join''" "utf8_valid ''message''" "utf8_valid ''leave''"
  "utf8_valid ''error''" "utf8_valid ''Welcome to the chat!''" "utf8_valid '' joined the room''" "utf8_valid '' left the room''"
  "utf8_valid not_in_room" "utf8_valid ''unknown message type: ''" "utf8_valid ''Successfully joined the room''"
  by (rule utf8_literal; simp add: not_in_room_def)+

lemma chat_kindsI [simp]: "''system'' \<in> chat_kinds" "''joined'' \<in> chat_kinds" "''join'' \<in> chat_kinds" "''message'' \<in> chat_kinds"
  "''leave'' \<in> chat_kinds" "''error'' \<in> chat_kinds"
  by (simp_all add: chat_kinds_def)

lemma chat_message_sel [simp]:
  "cm_Type (chat_message t u r x) = t" "cm_UserID (chat_message t u r x) = u" "cm_RoomID (chat_message t u r x) = r"
  "cm_Content (chat_message t u r x) = x"
  by (simp_all add: chat_message_def)

lemma chat_utf8_message:
  "chat_utf8 (chat_message t u r x) \<longleftrightarrow> utf8_valid t \<and> utf8_valid u \<and> utf8_valid r \<and> utf8_valid x"
  by (simp add: chat_utf8_def)

lemma chat_marshal_text:
  assumes "chat_value_ok v" and "chat_marshal v = Inr data"
  shows "chat_text data"
proof (cases v)
  case (ChatValue m)
  then show ?thesis using chat_codec.unmarshal_marshal [of m data] assms by (simp add: chat_text_def)
next
  case (JoinedValue r u)
  then show ?thesis using joined_roundtrip [of r u] assms
    by (auto simp: chat_text_def chat_marshal_def JSON_Marshal_def chat_utf8_message phrases_utf8)
qed

text \<open>Every message that is read consists of valid UTF-8.\<close>

lemma chat_unmarshal_utf8: "chat_unmarshal raw = Inr m \<Longrightarrow> chat_utf8 m"
proof -
  assume "chat_unmarshal raw = Inr m"
  then have u: "unmarshal_struct chat_fields (chat_message [] [] [] []) (bytes_string raw) = Inr m"
    by (simp add: chat_unmarshal_def JSON_Unmarshal_def split: sum.splits)
  have "chat_utf8 a'" if "f \<in> set chat_fields" "json_utf8 v" "chat_utf8 a" "snd f v a = Some a'" for f v a a'
    using that by (cases v) (auto simp: chat_fields_def chat_utf8_def)
  then show ?thesis using unmarshal_invariant [OF u, of chat_utf8] by (simp add: chat_utf8_message)
qed

section \<open>The invariant\<close>

lemma wire_ok_send:
  assumes "conn_send_at ch data c w = Return (w', e)" and "chat_text data" and "wire_ok w"
  shows "wire_ok w'"
proof -
  have "list_all chat_text (conn_queue w' d)" for d
  proof (cases "d = c")
    case True
    then show ?thesis using assms conn_out.send_ok [of ch data c w w'] conn_out.send_err [of ch data c w w']
      by (cases e) (auto simp: wire_ok_def)
  next
    case False
    then show ?thesis using conn_out.send_other [OF assms(1) False] assms(3) by (simp add: wire_ok_def)
  qed
  then show ?thesis using conn_send_at_frame [OF assms(1)] assms(3) by (simp add: wire_ok_def)
qed

lemma wire_ok_loop:
  "send_loop (\<lambda>i. conn_send_at (ch i) data) cs w e = Return (w', err) \<Longrightarrow> chat_text data \<Longrightarrow> wire_ok w \<Longrightarrow> wire_ok w'"
proof (induction cs arbitrary: w e)
  case (Cons c cs)
  from Cons.prems(1) obtain w1 e1 where s: "conn_send_at (ch (length cs)) data c w = Return (w1, e1)"
    and l: "send_loop (\<lambda>i. conn_send_at (ch i) data) cs w1 (case e1 of None \<Rightarrow> e | Some x \<Rightarrow> Some x) = Return (w', err)"
    by (rule send_loop_ConsE)
  show ?case using Cons.IH [OF l Cons.prems(2)] wire_ok_send [OF s Cons.prems(2,3)] by simp
qed simp

lemma wire_ok_SendJSON:
  "conn_SendJSON chat_marshal ch v c w = Return (w', e) \<Longrightarrow> chat_value_ok v \<Longrightarrow> wire_ok w \<Longrightarrow> wire_ok w'"
  by (auto simp: conn_SendJSON_def split: sum.splits dest: wire_ok_send chat_marshal_text)

lemma wire_ok_send_json:
  "send_json (json_chat_env choice ord md) i v c w = Return w' \<Longrightarrow> chat_value_ok v \<Longrightarrow> wire_ok w \<Longrightarrow> wire_ok w'"
  by (auto simp: send_json_def json_chat_env_def dest: wire_ok_SendJSON)

lemma wire_ok_broadcast:
  "broadcastToRoom (json_chat_env choice ord md) r m h w = Return w' \<Longrightarrow> chat_utf8 m \<Longrightarrow> cm_Type m \<in> chat_kinds \<Longrightarrow>
     wire_ok w \<Longrightarrow> wire_ok w'"
  using chat_marshal_text [of "ChatValue m"]
  by (auto simp: broadcastToRoom_def json_chat_env_def split: sum.splits option.splits dest!: wire_ok_loop)

lemma wire_ok_SetUserID: "wire_ok w \<Longrightarrow> utf8_valid u \<Longrightarrow> wire_ok (conn_SetUserID u c w)"
  by (auto simp: wire_ok_def)

lemma wire_ok_SetMetadata:
  "wire_ok w \<Longrightarrow> (k = ''roomId'' \<Longrightarrow> utf8_valid (any_string (Some v))) \<Longrightarrow> wire_ok (conn_SetMetadata k v c w)"
  by (auto simp: wire_ok_def)

lemma wire_ok_user: "wire_ok w \<Longrightarrow> utf8_valid (conn_UserID w c)"
  by (simp add: wire_ok_def)

lemma wire_ok_current_room:
  "wire_ok w \<Longrightarrow> world_ok w \<Longrightarrow> order_ok md \<Longrightarrow> utf8_valid (current_room (json_chat_env choice ord md) c w)"
  by (simp add: current_room_eq json_chat_env_def wire_ok_def)

lemma wire_ok_message_user: "wire_ok w \<Longrightarrow> chat_utf8 m \<Longrightarrow> utf8_valid (message_user c m w)"
  by (simp add: message_user_def wire_ok_user chat_utf8_def)

lemma wire_ok_join:
  assumes "wire_ok w" and "chat_utf8 m" and "handleJoin (json_chat_env choice ord md) c m (h, w) = Return s'"
  shows "wire_ok (snd s')"
proof -
  let ?env = "json_chat_env choice ord md"
  let ?u = "if conn_UserID w c = [] then cm_UserID m else conn_UserID w c"
  let ?w1 = "if conn_UserID w c = [] then conn_SetUserID ?u c w else w"
  let ?w3 = "conn_SetMetadata ''username'' (AnyString (cm_Content m)) c (conn_SetMetadata ''roomId'' (AnyString (cm_RoomID m)) c ?w1)"
  let ?h = "h\<lparr>ch_rooms := bind_in (cm_RoomID m) ?u c (ch_rooms h), ch_userToRoom := mapassign ?u (cm_RoomID m) (ch_userToRoom h)\<rparr>"
  obtain w4 where w4: "send_json ?env 0 (JoinedValue (cm_RoomID m) ?u) c ?w3 = Return w4"
    and w5: "broadcastToRoom ?env (cm_RoomID m) (chat_message ''join'' ?u [] (?u @ '' joined the room'')) ?h w4 = Return (snd s')"
    using assms(3) by (auto simp: handleJoin_def Let_def)
  have u: "utf8_valid ?u" "utf8_valid (cm_RoomID m)" using assms(1,2) by (auto simp: chat_utf8_def wire_ok_user)
  then have "wire_ok ?w3" using assms(1) by (intro wire_ok_SetMetadata) (auto intro: wire_ok_SetUserID)
  then have "wire_ok w4" using wire_ok_send_json [OF w4] u by simp
  then show ?thesis
    using wire_ok_broadcast [OF w5] u by (simp add: chat_utf8_message phrases_utf8 utf8_valid_append)
qed

lemma wire_ok_OnMessage:
  assumes "wire_ok w" and "world_ok w" and "order_ok md" and "Chat_OnMessage (json_chat_env choice ord md) c raw (h, w) = Return (s', e)"
  shows "wire_ok (snd s')"
proof (cases "chat_unmarshal raw")
  case (Inl err)
  then show ?thesis using assms(1,4) by (auto simp: Chat_OnMessage_def json_chat_env_def)
next
  case (Inr m0)
  let ?env = "json_chat_env choice ord md"
  define m where "m = (if cm_UserID m0 = [] then m0\<lparr>cm_UserID := conn_UserID w c\<rparr> else m0)"
  have m: "chat_utf8 m" using chat_unmarshal_utf8 [OF Inr] wire_ok_user [OF assms(1)] by (simp add: m_def chat_utf8_def)
  have room: "utf8_valid (current_room ?env c w)" by (rule wire_ok_current_room [OF assms(1-3)])
  have user: "utf8_valid (message_user c m w)" by (rule wire_ok_message_user [OF assms(1) m])
  have "ce_unmarshal ?env raw = Inr m0" using Inr by (simp add: json_chat_env_def)
  then consider (join) "handleJoin ?env c m (h, w) = Return s'" | (message) "handleMessage ?env c m (h, w) = Return s'"
    | (leave) "handleLeave ?env c m (h, w) = Return s'"
    | (other) w' where "send_json ?env 0 (ChatValue (chat_message ''error'' [] [] (''unknown message type: '' @ cm_Type m))) c w = Return w'"
        "s' = (h, w')"
    using assms(4) by (auto simp: Chat_OnMessage_def Let_def m_def split: if_splits)
  then show ?thesis
  proof cases
    case join
    then show ?thesis by (rule wire_ok_join [OF assms(1) m])
  next
    case message
    have "utf8_valid (cm_Content m)" using m by (simp add: chat_utf8_def)
    then show ?thesis using message assms(1) room user
      by (auto simp: handleMessage_def Let_def chat_utf8_message phrases_utf8 split: if_splits dest: wire_ok_send_json wire_ok_broadcast)
  next
    case leave
    then show ?thesis using assms(1) user
      by (auto simp: handleLeave_def left_message_def Let_def chat_utf8_message phrases_utf8 utf8_valid_append split: if_splits
          dest: wire_ok_broadcast)
  next
    case other
    have "utf8_valid (cm_Type m)" using m by (simp add: chat_utf8_def)
    then have "utf8_valid (''unknown message type: '' @ cm_Type m)" by (rule utf8_valid_append [OF phrases_utf8(11)])
    then show ?thesis using wire_ok_send_json [OF other(1)] assms(1) other(2)
      by (simp add: chat_utf8_message phrases_utf8)
  qed
qed

lemma wire_ok_OnDisconnect:
  assumes "wire_ok w" and "Chat_OnDisconnect (json_chat_env choice ord md) c (h, w) = Return s'"
  shows "wire_ok (snd s')"
  using assms wire_ok_user [OF assms(1), of c]
  by (auto simp: Chat_OnDisconnect_def left_message_def Let_def chat_utf8_message phrases_utf8 utf8_valid_append
      split: if_splits option.splits dest: wire_ok_broadcast)

lemma wire_ok_step:
  assumes "wire_ok (snd s)" and "world_ok (snd s)" and "wire_call (env, x)" and "chat_step env x s = Return s'"
  shows "wire_ok (snd s')"
proof -
  obtain h w where s: "s = (h, w)" by (cases s)
  obtain choice ord md where env: "env = json_chat_env choice ord md" and md: "order_ok md"
    using assms(3) by (auto simp: wire_call_def call_ok_def json_chat_env_def)
  show ?thesis
  proof (cases x)
    case (CallConnect c)
    then obtain w' e where w': "conn_SendJSON chat_marshal (ce_choice env 0) (ChatValue (chat_message ''system'' [] [] ''Welcome to the chat!'')) c w =
        Return (w', e)" and s': "s' = (h, w')"
      using assms(4) s env by (auto simp: Chat_OnConnect_def json_chat_env_def)
    then show ?thesis using wire_ok_SendJSON [OF w'] assms(1) s by (simp add: chat_utf8_message phrases_utf8)
  next
    case (CallMessage c raw)
    then show ?thesis using assms(1,2,4) s env wire_ok_OnMessage [OF _ _ md] by auto
  next
    case (CallDisconnect c)
    then show ?thesis using assms(1,4) s env wire_ok_OnDisconnect by simp
  next
    case (CallOthers f)
    then show ?thesis using assms(1,3,4) s by (fastforce simp: wire_call_def call_ok_def wire_ok_def list_all_iff)
  qed
qed

lemma wire_ok_run:
  "chat_run xs s = Return s' \<Longrightarrow> wire_ok (snd s) \<Longrightarrow> chat_ok s \<Longrightarrow> list_all wire_call xs \<Longrightarrow> wire_ok (snd s')"
proof (induction xs arbitrary: s)
  case (Cons ex xs)
  obtain env x where ex: "ex = (env, x)" by (cases ex)
  then obtain s1 where s1: "chat_step env x s = Return s1" "chat_run xs s1 = Return s'" using Cons.prems(1) by auto
  have call: "call_ok (env, x)" "wire_call (env, x)" "list_all wire_call xs"
    using Cons.prems(4) ex by (simp_all add: wire_call_def [of "(env, x)"])
  have "world_ok (snd s)" using Cons.prems(3) by (simp add: chat_ok_def)
  then show ?case
    using Cons.IH [OF s1(2)] wire_ok_step [OF Cons.prems(2) _ call(2) s1(1)] chat_ok_step [OF Cons.prems(3) call(1) s1(1)] call(3)
    by simp
qed simp

section \<open>Examples\<close>

definition plain_chat_env :: chat_env where
  "plain_chat_env = json_chat_env (\<lambda>_. 0) (\<lambda>i xs. xs) (\<lambda>i xs. xs)"

text \<open>One user in one room.\<close>

definition bob_handler :: ChatHandler where
  "bob_handler = \<lparr>ch_rooms = [(''r1'', [(''bob'', WsConn 0)])], ch_userToRoom = [(''bob'', ''r1'')]\<rparr>"

definition bob_world :: world where
  "bob_world = conn_SetMetadata ''roomId'' (AnyString ''r1'') (WsConn 0) (conn_SetUserID ''bob'' (WsConn 0) sample_chat_world)"

lemma order_id: "order_ok (\<lambda>i xs. xs)"
  by simp

lemma plain_chat_env_facts: "order_ok (ce_ord plain_chat_env)" "order_ok (ce_meta plain_chat_env)"
  by (simp_all add: plain_chat_env_def json_chat_env_def)

lemma sample_chat_world_fresh:
  "conn_UserID sample_chat_world c = []" "conn_queue sample_chat_world c = []" "conn_meta sample_chat_world c = Map.empty"
  "\<not> conn_closed sample_chat_world c"
  by (cases c; simp add: sample_chat_world_def ws_NewConnection_def wt_NewConnection_def ws_UserID_def wt_UserID_def)+

lemma bob_members: "members bob_handler r = (if r = ''r1'' then [''bob'' \<mapsto> WsConn 0] else Map.empty)"
  by (auto simp: members_def user_view_def conns_of_def bob_handler_def fun_eq_iff)

lemma bob_facts:
  "conn_UserID bob_world (WsConn 0) = ''bob''" "conn_queue bob_world c = []" "\<not> conn_closed bob_world c"
  "conn_meta bob_world (WsConn 0) ''roomId'' = Some (AnyString ''r1'')" "world_ok bob_world"
  using sample_chat_world_fresh world_ok_sample_chat
  by (simp_all add: bob_world_def del: conn_SetMetadata.simps conn_SetUserID.simps conn_UserID.simps conn_queue.simps conn_closed.simps conn_meta.simps)

lemma bob_ok: "chat_ok (bob_handler, bob_world)"
proof -
  have m: "ch_userToRoom bob_handler = [(''bob'', ''r1'')]" "nested_ok (ch_rooms bob_handler)"
    by (simp_all add: bob_handler_def nested_ok_def gomap_ok_def)
  then show ?thesis
    using bob_facts(1,5) by (auto simp: chat_ok_def bob_members gomap_ok_def simp del: conn_UserID.simps split: if_splits)
qed

lemma bob_utf8: "utf8_valid ''bob''" "utf8_valid ''r1''" "utf8_valid ''hi''"
  by (rule utf8_literal; simp)+

section \<open>Properties\<close>

text \<open>
  C27. Whatever the clients of the chat example send, every text it queues for a connection is the
  JSON of one of its messages. In any run from fresh connections, with any bytes as requests, any
  order of callbacks and any transport behaviour in between, each text in the queue of a connection
  is read by the decoder of the example without error, as a message of one of the six types it
  uses, all of whose strings are valid UTF-8.
\<close>

theorem chat_wire_typed:
  assumes "world_ok w" and "\<And>c. utf8_valid (conn_UserID w c) \<and> conn_queue w c = [] \<and> conn_meta w c ''roomId'' = None"
    and "list_all wire_call xs" and "chat_run xs (chat_NewHandler, w) = Return (h, w')" and "data \<in> set (conn_queue w' c)"
  shows "\<exists>m. chat_unmarshal data = Inr m \<and> cm_Type m \<in> {''system'', ''joined'', ''join'', ''message'', ''leave'', ''error''} \<and> chat_utf8 m"
proof -
  have "wire_ok w" using assms(2) by (simp add: wire_ok_def)
  then have "chat_text data"
    using wire_ok_run [OF assms(4) _ chat_ok_New [OF assms(1)] assms(3)] assms(5) by (auto simp: wire_ok_def list_all_iff)
  then show ?thesis by (auto simp: chat_text_def chat_kinds_def split: sum.splits)
qed

lemma chat_wire_typed_witness:
  "\<exists>h w' data. chat_run [(plain_chat_env, CallConnect (WsConn 0))] (chat_NewHandler, sample_chat_world) = Return (h, w') \<and>
     conn_queue w' (WsConn 0) = [data] \<and> (\<exists>m. chat_unmarshal data = Inr m)"
proof -
  let ?xs = "[(plain_chat_env, CallConnect (WsConn 0))]"
  obtain w' data where run: "chat_run ?xs (chat_NewHandler, sample_chat_world) = Return (chat_NewHandler, w')"
    and q: "conn_queue w' (WsConn 0) = [data]"
    by (simp add: plain_chat_env_def json_chat_env_def Chat_OnConnect_def conn_SendJSON_def chat_marshal_def JSON_Marshal_def
        sample_chat_world_def ws_send_at_def ws_Send_def send_ready_def go_select_def send_capacity_def context_Background_def
        ws_NewConnection_def)
  have "list_all wire_call ?xs" using plain_chat_env_facts by (auto simp: wire_call_def call_ok_def plain_chat_env_def)
  then have "\<exists>m. chat_unmarshal data = Inr m"
    using chat_wire_typed [OF world_ok_sample_chat _ _ run, of data "WsConn 0"] sample_chat_world_fresh q
    by (force simp del: conn_queue.simps conn_UserID.simps conn_meta.simps)
  then show ?thesis using run q by blast
qed

text \<open>
  C26. A chat message arrives as it was sent. When a client that has joined a room sends the JSON of
  a message, and the call returns, each open connection that is in the room under a name only, has
  got one more text, which is read as a message with the user ID of the sender's connection
  (whatever the sender put into the message), the room, and the text that was sent; open connections
  that are not in the room have got nothing, and the rooms are unchanged. The call does not panic,
  and waits only while an open connection has no space for its copies in its queue of 256.
\<close>

theorem chat_end_to_end:
  assumes "chat_ok (h, w)" and "order_ok ord" and "order_ok md" and "chat_utf8 m" and "cm_Type m = ''message''"
    and "conn_meta w c ''roomId'' = Some (AnyString r)" and "r \<noteq> []" and "utf8_valid r"
    and "conn_UserID w c \<noteq> []" and "utf8_valid (conn_UserID w c)"
  shows "case Chat_OnMessage (json_chat_env choice ord md) c (string_bytes (json_print (chat_json m))) (h, w) of
      Return ((h', w'), err) \<Rightarrow> h' = h \<and> err = None \<and>
        (\<forall>u d. members h r u = Some d \<longrightarrow> u \<noteq> [] \<longrightarrow> members h r [] \<noteq> Some d \<longrightarrow> \<not> conn_closed w d \<longrightarrow>
           (\<exists>data. conn_queue w' d = conn_queue w d @ [data] \<and>
              chat_unmarshal data = Inr (chat_message ''message'' (conn_UserID w c) r (cm_Content m)))) \<and>
        (\<forall>d. (\<forall>u. members h r u \<noteq> Some d) \<longrightarrow> \<not> conn_closed w d \<longrightarrow> conn_queue w' d = conn_queue w d)
    | Panics \<Rightarrow> False
    | Blocks \<Rightarrow> \<exists>d. \<not> conn_closed w d \<and> 256 < length (conn_queue w d) + card {u. members h r u = Some d}"
proof -
  let ?env = "json_chat_env choice ord md" and ?m = "chat_message ''message'' (conn_UserID w c) r (cm_Content m)"
  define raw where "raw = string_bytes (json_print (chat_json m))"
  define data where "data = string_bytes (json_print (chat_json ?m))"
  have un: "ce_unmarshal ?env raw = Inr m" using chat_roundtrip [OF assms(4)] by (simp add: json_chat_env_def raw_def)
  have ma: "ce_marshal ?env (ChatValue ?m) = Inr data"
    by (simp add: json_chat_env_def chat_marshal_def JSON_Marshal_def data_def)
  have "chat_utf8 ?m" using assms(4,8,10) by (simp add: chat_utf8_def phrases_utf8)
  then have dec: "chat_unmarshal data = Inr ?m" unfolding data_def by (rule chat_roundtrip)
  have orders: "order_ok (ce_ord ?env)" "order_ok (ce_meta ?env)" using assms(2,3) by (simp_all add: json_chat_env_def)
  have none: "card {u. members h r u = Some d} = 0" if "\<forall>u. members h r u \<noteq> Some d" for d using that by simp
  show ?thesis
    using chat_message_delivery [OF assms(1) orders un assms(5,6,7,9) ma] dec none unfolding raw_def [symmetric]
    by (cases "Chat_OnMessage ?env c raw (h, w)") (auto split: prod.splits)
qed

lemma chat_end_to_end_witness:
  "\<exists>w' data. Chat_OnMessage plain_chat_env (WsConn 0) (string_bytes (json_print (chat_json (chat_message ''message'' ''eve'' [] ''hi''))))
       (bob_handler, bob_world) = Return ((bob_handler, w'), None) \<and>
     conn_queue w' (WsConn 0) = [data] \<and> chat_unmarshal data = Inr (chat_message ''message'' ''bob'' ''r1'' ''hi'')"
proof -
  let ?m = "chat_message ''message'' ''eve'' [] ''hi''"
  let ?call = "Chat_OnMessage plain_chat_env (WsConn 0) (string_bytes (json_print (chat_json ?m))) (bob_handler, bob_world)"
  have "utf8_valid ''eve''" by (rule utf8_literal) simp
  then have m: "chat_utf8 ?m" by (simp add: chat_utf8_message phrases_utf8 bob_utf8)
  have card: "card {u. members bob_handler ''r1'' u = Some d} \<le> 1" for d
  proof -
    have "{u. members bob_handler ''r1'' u = Some d} \<subseteq> {''bob''}" by (auto simp: bob_members split: if_splits)
    then show ?thesis using card_mono [of "{''bob''}"] by fastforce
  qed
  have space: "\<not> 256 < length (conn_queue bob_world d) + card {u. members bob_handler ''r1'' u = Some d}" for d
    using card [of d] unfolding bob_facts(2) list.size by linarith
  have bob: "members bob_handler ''r1'' ''bob'' = Some (WsConn 0)" "members bob_handler ''r1'' [] \<noteq> Some (WsConn 0)"
    by (simp_all add: bob_members)
  have user: "conn_UserID bob_world (WsConn 0) \<noteq> []" "utf8_valid (conn_UserID bob_world (WsConn 0))"
    unfolding bob_facts(1) by (simp_all add: bob_utf8)
  note c = chat_end_to_end [OF bob_ok order_id order_id m _ bob_facts(4) _ bob_utf8(2) user, of "\<lambda>_. 0",
      folded plain_chat_env_def, unfolded bob_facts(1)]
  show ?thesis
  proof (cases ?call)
    case (Return x)
    then obtain h' w' err where x: "?call = Return ((h', w'), err)" by (cases x) auto
    then show ?thesis using c bob bob_facts(2,3) by (fastforce simp del: conn_queue.simps conn_closed.simps)
  qed (use c space in \<open>auto simp del: conn_queue.simps conn_closed.simps\<close>)
qed

end
