(* ===== verification/Wire_Notes.thy ===== *)
theory Wire_Notes
  imports Json_Messages
begin

text \<open>
  The notification example with its JSON library: a client that fetches can read what it gets,
  it gets every message of its room with the bytes that were stored, and what one client
  stores another one fetches.
\<close>

section \<open>Definitions\<close>

definition request_text :: "NotificationData \<Rightarrow> bytes" where
  "request_text d = string_bytes (json_print (request_json d))"

definition message_text :: "Message \<Rightarrow> bytes" where
  "message_text m = string_bytes (json_print (message_json m))"

definition message_utf8 :: "Message \<Rightarrow> bool" where
  "message_utf8 m \<longleftrightarrow> utf8_valid (msg_Type m) \<and> utf8_valid (msg_Topic m)"

definition plain_note_env :: note_env where
  "plain_note_env = json_note_env (\<lambda>_. 0) (\<lambda>i xs. xs) 7"

definition sample_note_request :: "string \<Rightarrow> string \<Rightarrow> NotificationData" where
  "sample_note_request ty text = \<lparr>nd_Type = ty, nd_RoomID = ''u'', nd_UserID = [], nd_Username = [], nd_Content = text, nd_SinceID = 0\<rparr>"

section \<open>Lemmas\<close>

lemma json_note_env_sel [simp]:
  "ne_meta (json_note_env choice md now) = md" "ne_now (json_note_env choice md now) = now"
  "ne_marshal (json_note_env choice md now) (NoteMessage m) = Inr (message_text m)"
  by (simp_all add: json_note_env_def note_marshal_def JSON_Marshal_def message_text_def)

lemma request_read: "request_utf8 d \<Longrightarrow> ne_unmarshal (json_note_env choice md now) (request_text d) = Inr d"
  by (simp add: json_note_env_def request_text_def request_roundtrip)

lemma message_texts_read:
  "list_all message_utf8 ms \<Longrightarrow> map message_unmarshal (map message_text ms) = map Inr ms"
  using message_codec.unmarshal_all [of ms "map message_text ms"]
  by (simp add: message_utf8_def [abs_def] note_marshal_def JSON_Marshal_def message_text_def)

text \<open>Storing: whatever becomes of the reply, the room has one message more.\<close>

lemma note_store_log:
  assumes "ne_unmarshal env raw = Inr d" and "nd_Type d = ''message''"
    and "Note_OnMessage env c raw (s, w) = Return ((s', w'), e)"
  shows "user_log s' (nd_RoomID d) = user_log s (nd_RoomID d) @
    [\<lparr>msg_ID = last_id s (nd_RoomID d) + 1, msg_Timestamp = ne_now env, msg_Type = ''text'', msg_Topic = nd_RoomID d,
      msg_Data = string_bytes (nd_Content d)\<rparr>]"
proof -
  let ?m = "\<lparr>msg_ID = 0, msg_Timestamp = 0, msg_Type = ''text'', msg_Topic = nd_RoomID d, msg_Data = string_bytes (nd_Content d)\<rparr>"
  have "s' = fst (Memory_Store (ne_now env) s (nd_RoomID d) ?m)"
    using assms by (auto simp: Note_OnMessage_def note_store_def Let_def split: prod.splits)
  then show ?thesis by (simp add: user_log_Store)
qed

lemma note_fetch_call:
  assumes "ne_unmarshal env raw = Inr d" and "nd_Type d = ''fetch''" and "Note_OnMessage env c raw (s, w) = Return ((s', w'), e)"
  shows "note_fetch env c d s w = Return w'"
  using assms by (auto simp: Note_OnMessage_def)

lemma sample_requests_utf8: "request_utf8 (sample_note_request ''fetch'' [])" "request_utf8 (sample_note_request ''message'' ''hi'')"
proof -
  have "utf8_valid ''fetch''" "utf8_valid ''message''" "utf8_valid ''u''" "utf8_valid ''hi''" by (rule utf8_literal; simp)+
  then show "request_utf8 (sample_note_request ''fetch'' [])" "request_utf8 (sample_note_request ''message'' ''hi'')"
    by (simp_all add: request_utf8_def sample_note_request_def)
qed

section \<open>Properties\<close>

text \<open>
  C28. A notification client misses nothing. A client on a connection that stays open, whose
  queue the write pump has drained to at most 156 messages before each request, and that fetches
  a room again and again with JSON requests without a number, gets an answer to every request; and
  the texts it gets in all are read as exactly the messages of the room above the number kept for
  the connection, each once, in the order of storage and with the stored bytes. As many fetches as
  there are messages are enough.
\<close>

theorem notification_polls_decoded:
  assumes "world_ok w" and "order_ok md" and "\<not> conn_closed w c"
    and "request_utf8 d" and "nd_Type d = ''fetch''" and "nd_SinceID d = 0"
    and "log = user_log (store_run NewMemoryStore ops) (nd_RoomID d)" and "length log < 2 ^ 63"
    and "length log \<le> length fs" and "list_all (quiet_step c) fs" and "list_all message_utf8 log"
  shows "\<exists>texts. note_polls (json_note_env choice md now) c (request_text d) fs (store_run NewMemoryStore ops, w) = Return texts \<and>
    map message_unmarshal texts = map Inr (filter (\<lambda>m. sint (any_int (conn_meta w c ''lastId'')) < sint (msg_ID m)) log)"
proof -
  let ?ms = "filter (\<lambda>m. sint (any_int (conn_meta w c ''lastId'')) < sint (msg_ID m)) log"
  have "note_polls (json_note_env choice md now) c (request_text d) fs (store_run NewMemoryStore ops, w) = Return (map message_text ?ms)"
    using notification_polls_complete [OF assms(1) _ assms(3) _ request_read [OF assms(4)] assms(5,6),
        where enc = message_text and ops = ops and fs = fs] assms(2,7-10)
    by simp
  moreover have "list_all message_utf8 ?ms" using assms(11) by (auto simp: list_all_iff)
  ultimately show ?thesis using message_texts_read by blast
qed

lemma notification_polls_decoded_witness:
  "\<exists>texts. note_polls plain_note_env (WsConn 0) (request_text (sample_note_request ''fetch'' [])) [drain_first, drain_first]
       (store_run NewMemoryStore sample_ops, sample_note_world) = Return texts \<and>
     map message_unmarshal texts = map Inr (user_log (store_run NewMemoryStore sample_ops) ''u'')"
proof -
  let ?log = "user_log (store_run NewMemoryStore sample_ops) ''u''"
  have "list_all message_utf8 ?log" by (simp add: user_log_sample sample_message_def message_utf8_def utf8_literal)
  moreover have "filter (\<lambda>m. sint (any_int (conn_meta sample_note_world (WsConn 0) ''lastId'')) < sint (msg_ID m)) ?log = ?log"
    unfolding sample_note_facts(5) by (simp add: user_log_sample)
  ultimately show ?thesis
    using notification_polls_decoded [OF sample_note_facts(1) _ sample_note_facts(3) sample_requests_utf8(1), of "\<lambda>i xs. xs" ?log sample_ops
        "[drain_first, drain_first]" "\<lambda>_. 0" 7, folded plain_note_env_def]
    by (simp add: sample_note_request_def quiet_drain user_log_sample del: conn_meta.simps)
qed

text \<open>
  C29. What one client stores, another one fetches. After a client has sent a message for a room as a
  JSON request, whatever becomes of the reply and of the connections, a fetch of the room by a
  client whose number is that of the last message before puts exactly one text into the queue of its
  open connection, and it is read as a message with the bytes of the text that was sent, the room as
  its topic, and the next number.
\<close>

theorem notification_store_fetch:
  assumes "request_utf8 d1" and "nd_Type d1 = ''message''" and "request_utf8 d2" and "nd_Type d2 = ''fetch''"
    and "nd_RoomID d2 = nd_RoomID d1" and "s = store_run NewMemoryStore ops" and "Suc (length (user_log s (nd_RoomID d1))) < 2 ^ 63"
    and "Note_OnMessage (json_note_env choice1 md1 now) c1 (request_text d1) (s, w) = Return ((s1, w1), e1)"
    and "world_ok w2" and "order_ok md2" and "\<not> conn_closed w2 c2"
    and "last_id s (nd_RoomID d1) = (if nd_SinceID d2 = 0 then any_int (conn_meta w2 c2 ''lastId'') else nd_SinceID d2)"
    and "Note_OnMessage (json_note_env choice2 md2 now2) c2 (request_text d2) (s1, w2) = Return ((s2, w3), e2)"
  shows "\<exists>data m. conn_queue w3 c2 = conn_queue w2 c2 @ [data] \<and> message_unmarshal data = Inr m \<and>
    msg_Data m = string_bytes (nd_Content d1) \<and> msg_Topic m = nd_RoomID d1 \<and> msg_ID m = last_id s (nd_RoomID d1) + 1"
proof -
  let ?u = "nd_RoomID d1" and ?id = "last_id s (nd_RoomID d1)"
  let ?m = "\<lparr>msg_ID = ?id + 1, msg_Timestamp = now, msg_Type = ''text'', msg_Topic = ?u, msg_Data = string_bytes (nd_Content d1)\<rparr>"
  have log: "user_log s1 ?u = user_log s ?u @ [?m]"
    using note_store_log [OF request_read [OF assms(1)] assms(2,8)] by simp
  have ok: "memory_ok s" unfolding assms(6) by (rule memory_ok_reached)
  have "after ?id (user_log s ?u) = []" using assms(7) by (intro after_last_id [OF ok]) simp
  moreover have "int64_less ?id (?id + 1)" by (rule last_id_next [OF ok assms(7)])
  ultimately have "after ?id (user_log s1 ?u) = [?m]" by (simp add: log) (simp add: after_def)
  then have ms: "[?m] = take 100 (after (if nd_SinceID d2 = 0 then cursor_of w2 c2 else nd_SinceID d2) (user_log s1 (nd_RoomID d2)))"
    using assms(12) by (simp only: assms(5) cursor_of_def) simp
  have fetch: "note_fetch (json_note_env choice2 md2 now2) c2 d2 s1 w2 = Return w3"
    by (rule note_fetch_call [OF request_read [OF assms(3)] assms(4,13)])
  have "conn_queue w3 c2 = conn_queue w2 c2 @ [message_text ?m]"
    using note_fetch_effect(1) [OF fetch assms(9) _ _ assms(11) ms, of message_text] assms(10) by simp
  moreover have "message_unmarshal (message_text ?m) = Inr ?m"
    using assms(1) by (simp add: message_text_def message_roundtrip request_utf8_def utf8_literal)
  ultimately show ?thesis by (intro exI [of _ "message_text ?m"] exI [of _ ?m]) simp
qed

lemma notification_store_fetch_witness:
  "\<exists>s1 w1 s2 w3 data m.
     Note_OnMessage plain_note_env (WsConn 0) (request_text (sample_note_request ''message'' ''hi'')) (NewMemoryStore, sample_note_world) =
       Return ((s1, w1), None) \<and>
     Note_OnMessage plain_note_env (WsConn 1) (request_text (sample_note_request ''fetch'' [])) (s1, sample_note_world) = Return ((s2, w3), None) \<and>
     conn_queue w3 (WsConn 1) = [data] \<and> message_unmarshal data = Inr m \<and> msg_Data m = [104, 105]"
proof -
  let ?d1 = "sample_note_request ''message'' ''hi''" and ?d2 = "sample_note_request ''fetch'' []"
  let ?s1 = "fst (Memory_Store 7 NewMemoryStore ''u'' \<lparr>msg_ID = 0, msg_Timestamp = 0, msg_Type = ''text'', msg_Topic = ''u'', msg_Data = [104, 105]\<rparr>)"
  note read = request_read [where choice = "\<lambda>_. 0" and md = "\<lambda>i xs. xs" and now = 7, folded plain_note_env_def]
  have hi: "string_bytes ''hi'' = [104, 105]" by (simp add: string_bytes_def)
  have fresh: "conn_queue sample_note_world (WsConn r) = []" "\<not> conn_closed sample_note_world (WsConn r)" for r
    by (simp_all add: sample_note_world_def ws_NewConnection_def)
  obtain w1 e where w1: "conn_SendJSON note_marshal 0 NoteAck (WsConn 0) sample_note_world = Return (w1, e)" "e = None"
    using send_returns [of sample_note_world "WsConn 0" 0] conn_out.send_open fresh
    unfolding conn_SendJSON_def note_marshal_def JSON_Marshal_def sum.case by (metis list.size(3) zero_less_numeral send_capacity_def)
  have "Note_OnMessage plain_note_env (WsConn 0) (request_text ?d1) (NewMemoryStore, sample_note_world) = Return ((?s1, w1), None)"
    using read [OF sample_requests_utf8(2)] w1 surjective_pairing [of "Memory_Store 7 NewMemoryStore ''u''
      \<lparr>msg_ID = 0, msg_Timestamp = 0, msg_Type = ''text'', msg_Topic = ''u'', msg_Data = [104, 105]\<rparr>"]
    by (auto simp: Note_OnMessage_def note_store_def sample_note_request_def plain_note_env_def json_note_env_def hi Let_def split: prod.split)
  note store = this [unfolded plain_note_env_def]
  let ?env = "json_note_env (\<lambda>_. 0) (\<lambda>i xs. xs) 7"
  have "note_fetch ?env (WsConn 1) ?d2 ?s1 sample_note_world \<noteq> Blocks"
    using note_fetch_blocks [OF _ sample_note_facts(1) _ _ fresh(2) refl, of ?env 1 ?d2 ?s1 message_text] fresh(1) [of 1]
    by (auto simp: send_capacity_def not_less intro: le_trans simp del: conn_queue.simps)
  then obtain w3 where w3: "note_fetch ?env (WsConn 1) ?d2 ?s1 sample_note_world = Return w3"
    using note_fetch_no_panic [of ?env "WsConn 1" ?d2 ?s1 sample_note_world]
    by (cases "note_fetch ?env (WsConn 1) ?d2 ?s1 sample_note_world") auto
  then have fetch: "Note_OnMessage ?env (WsConn 1) (request_text ?d2) (?s1, sample_note_world) = Return ((?s1, w3), None)"
    using read [OF sample_requests_utf8(1)] by (simp add: Note_OnMessage_def sample_note_request_def plain_note_env_def)
  have s0: "NewMemoryStore = store_run NewMemoryStore []" by (simp add: store_run_def)
  have "last_id NewMemoryStore ''u'' = 0" by (simp add: last_id_def NewMemoryStore_def)
  then have "\<exists>data m. conn_queue w3 (WsConn 1) = conn_queue sample_note_world (WsConn 1) @ [data] \<and> message_unmarshal data = Inr m \<and>
      msg_Data m = string_bytes (nd_Content ?d1) \<and> msg_Topic m = nd_RoomID ?d1 \<and> msg_ID m = last_id NewMemoryStore (nd_RoomID ?d1) + 1"
    using sample_note_facts(5)
    by (intro notification_store_fetch [OF sample_requests_utf8(2) _ sample_requests_utf8(1) _ _ s0 _ store sample_note_facts(1) _ fresh(2) _ fetch])
      (simp_all add: sample_note_request_def del: conn_meta.simps)
  then show ?thesis using store fetch fresh(1) [of 1] unfolding plain_note_env_def
    by (auto simp: sample_note_request_def hi simp del: conn_queue.simps)
qed

end
