(* ===== verification/Jwt_Token.thy ===== *)
theory Jwt_Token
  imports Authenticator Json Base64
begin

text \<open>
  The tokens of the authentication demo (\<^verbatim>\<open>example/authhook/main.go\<close>): \<^verbatim>\<open>genJWT\<close> against the
  authenticators of \<^verbatim>\<open>hybrid/authenticator.go\<close>. The HMAC function and the JWT library are
  code of other repositories and are arguments; \<open>jwt_verifier\<close> states what the documentation of the
  library and RFC 7519 promise about the tokens that it accepts.
\<close>

section \<open>Making a token\<close>

definition b64url :: "bytes \<Rightarrow> string" where
  "b64url data = base64_raw_url data"

definition jwt_header :: string where
  \<open>jwt_header = ''{"alg":"HS256","typ":"JWT"}''\<close>

text \<open>The format of the payload, in which the user ID is put between the quotes as it is.\<close>

definition jwt_payload :: "string \<Rightarrow> int64 \<Rightarrow> string" where
  \<open>jwt_payload userID now =
     ''{"sub":"'' @ userID @ ''","iat":'' @ show_int (sint now) @ '',"exp":'' @ show_int (sint (now + 86400)) @ ''}''\<close>

definition genJWT :: "(bytes \<Rightarrow> bytes \<Rightarrow> bytes) \<Rightarrow> int64 \<Rightarrow> string \<Rightarrow> string \<Rightarrow> string" where
  "genJWT hmac now secret userID =
     (let hB = b64url (string_bytes jwt_header);
          pB = b64url (string_bytes (jwt_payload userID now));
          input = hB @ ''.'' @ pB
      in input @ ''.'' @ b64url (hmac (string_bytes secret) (string_bytes input)))"

section \<open>The library\<close>

text \<open>The value of a member; of several members with one name the last one counts.\<close>

definition member :: "string \<Rightarrow> (string \<times> json) list \<Rightarrow> json option" where
  "member k ms = map_of (rev ms) k"

text \<open>The times of a token, when it is looked at at the time \<open>now\<close> (in seconds).\<close>

definition time_of :: "(string \<times> json) list \<Rightarrow> string \<Rightarrow> int option" where
  "time_of ms k = (case member k ms of Some (JNumber n) \<Rightarrow> if n = show_int (read_int n) then Some (read_int n) else None | _ \<Rightarrow> None)"

definition in_time :: "int \<Rightarrow> (string \<times> json) list \<Rightarrow> bool" where
  "in_time now ms \<longleftrightarrow>
     (case time_of ms ''exp'' of None \<Rightarrow> False | Some e \<Rightarrow> now < e) \<and>
     (case time_of ms ''iat'' of None \<Rightarrow> False | Some i \<Rightarrow> i \<le> now) \<and> member ''nbf'' ms = None"

text \<open>A token whose first segment is a header that names a method, and whose last one is its signature.\<close>

definition signed_by :: "(string \<rightharpoonup> (bytes \<Rightarrow> bytes \<Rightarrow> bytes)) \<Rightarrow> bytes \<Rightarrow> string \<Rightarrow> bool" where
  "signed_by macs key token \<longleftrightarrow>
     (\<exists>a b c hdr hms alg mac. token = a @ ''.'' @ b @ ''.'' @ c \<and> CHR ''.'' \<notin> set (a @ b @ c) \<and>
        base64_decode url_alphabet a = Some (string_bytes hdr) \<and> json_parse hdr = Some (JObject hms) \<and>
        member ''alg'' hms = Some (JString alg) \<and> macs alg = Some mac \<and>
        base64_decode url_alphabet c = Some (mac key (string_bytes (a @ ''.'' @ b))))"

text \<open>
  \<^verbatim>\<open>jwt.ParseWithClaims\<close> at the time \<open>now\<close>, with the HMAC methods \<open>macs\<close> and a key function that
  refuses the others: it accepts a token that is signed with the key, whose payload is an object
  and whose times fit, with the string members as claims; and it accepts no token that is not signed.
\<close>

definition jwt_verifier :: "jwt_parse \<Rightarrow> (string \<rightharpoonup> (bytes \<Rightarrow> bytes \<Rightarrow> bytes)) \<Rightarrow> int \<Rightarrow> bool" where
  "jwt_verifier parse macs now \<longleftrightarrow>
     (\<forall>a b payload c ms kf key. CHR ''.'' \<notin> set (a @ b @ c) \<longrightarrow> kf True = Inr key \<longrightarrow> signed_by macs key (a @ ''.'' @ b @ ''.'' @ c) \<longrightarrow>
        base64_decode url_alphabet b = Some (string_bytes payload) \<longrightarrow> json_parse payload = Some (JObject ms) \<longrightarrow> in_time now ms \<longrightarrow>
        (\<exists>cs. parse (a @ ''.'' @ b @ ''.'' @ c) kf = Inr \<lparr>jwt_Valid = True, jwt_Claims = cs\<rparr> \<and>
           (\<forall>k s. member k ms = Some (JString s) \<longrightarrow> map_of cs k = Some (ClaimString s)))) \<and>
     (\<forall>token kf t. parse token kf = Inr t \<longrightarrow> (\<forall>key. kf False \<noteq> Inr key) \<longrightarrow>
        (\<exists>key. kf True = Inr key \<and> signed_by macs key token))"

text \<open>A library that keeps the promise, for examples.\<close>

fun split_dots :: "string \<Rightarrow> string list" where
  "split_dots [] = [[]]"
| "split_dots (c # cs) = (if c = CHR ''.'' then [] # split_dots cs else (c # hd (split_dots cs)) # tl (split_dots cs))"

fun claim_of :: "json \<Rightarrow> claim" where
  "claim_of (JString s) = ClaimString s"
| "claim_of v = ClaimOther"

definition sample_verifier :: "(string \<rightharpoonup> (bytes \<Rightarrow> bytes \<Rightarrow> bytes)) \<Rightarrow> int \<Rightarrow> jwt_parse" where
  "sample_verifier macs now token kf =
     (let bad = Inl (ErrorString ''jwt'')
      in case (split_dots token, kf True) of
           ([a, b, c], Inr key) \<Rightarrow>
             (case (base64_decode url_alphabet a, base64_decode url_alphabet b, base64_decode url_alphabet c) of
                (Some h, Some p, Some sg) \<Rightarrow>
                  (case (json_parse (bytes_string h), json_parse (bytes_string p)) of
                     (Some (JObject hms), Some (JObject ms)) \<Rightarrow>
                       (case member ''alg'' hms of
                          Some (JString alg) \<Rightarrow>
                            (case macs alg of
                               Some mac \<Rightarrow>
                                 if sg = mac key (string_bytes (a @ ''.'' @ b)) \<and> in_time now ms
                                 then Inr \<lparr>jwt_Valid = True, jwt_Claims = map (map_prod id claim_of) (rev ms)\<rparr> else bad
                             | None \<Rightarrow> bad)
                        | _ \<Rightarrow> bad)
                   | _ \<Rightarrow> bad)
              | _ \<Rightarrow> bad)
         | _ \<Rightarrow> bad)"

text \<open>The only method, and a keyed function in place of HMAC.\<close>

definition sample_hmac :: "bytes \<Rightarrow> bytes \<Rightarrow> bytes" where
  "sample_hmac key msg = key @ msg"

definition sample_macs :: "string \<rightharpoonup> (bytes \<Rightarrow> bytes \<Rightarrow> bytes)" where
  "sample_macs alg = (if alg = ''HS256'' then Some sample_hmac else None)"

definition sample_jwt_request :: AuthRequest where
  "sample_jwt_request = \<lparr>ar_Protocol = ProtocolWebSocket, ar_HTTPRequest = Some \<lparr>req_Header = [],
     req_Query = [(''token'', [genJWT sample_hmac 1000 ''s3cret'' ''bob''])], req_Cookies = [], req_Host = []\<rparr>, ar_FirstMessage = []\<rparr>"

text \<open>User IDs that JSON writes without escapes.\<close>

definition plain_id :: "string \<Rightarrow> bool" where
  "plain_id u \<longleftrightarrow> utf8_valid u \<and> escape u = u"

section \<open>Lemmas\<close>

lemma jwt_payload_members:
  assumes "plain_id u"
  shows "json_parse (jwt_payload u now) = Some (JObject [(''sub'', JString u), (''iat'', JNumber (show_int (sint now))),
    (''exp'', JNumber (show_int (sint (now + 86400))))])"
proof -
  let ?v = "JObject [(''sub'', JString u), (''iat'', JNumber (show_int (sint now))), (''exp'', JNumber (show_int (sint (now + 86400))))]"
  have keys: "escape ''sub'' = ''sub''" "escape ''iat'' = ''iat''" "escape ''exp'' = ''exp''"
    by (simp_all add: escape_ascii_def code_def)
  have "jwt_payload u now = json_print ?v"
    using assms by (simp add: jwt_payload_def quote_def plain_id_def keys del: escape.simps)
  moreover have "utf8_valid ''sub''" "utf8_valid ''iat''" "utf8_valid ''exp''" by (rule utf8_literal; simp)+
  then have "json_ok ?v" using assms by (simp add: plain_id_def del: utf8_valid.simps)
  moreover have "depth ?v \<le> max_depth" by (simp add: max_depth_def)
  ultimately show ?thesis using json_parse_print by metis
qed

lemma jwt_header_members: "json_parse jwt_header = Some (JObject [(''alg'', JString ''HS256''), (''typ'', JString ''JWT'')])"
proof -
  let ?v = "JObject [(''alg'', JString ''HS256''), (''typ'', JString ''JWT'')]"
  have "json_print ?v = jwt_header" by (simp add: jwt_header_def quote_def escape_ascii_def code_def)
  moreover have "utf8_valid ''alg''" "utf8_valid ''HS256''" "utf8_valid ''typ''" "utf8_valid ''JWT''" by (rule utf8_literal; simp)+
  then have "json_ok ?v" by (simp del: utf8_valid.simps)
  moreover have "depth ?v \<le> max_depth" by (simp add: max_depth_def)
  ultimately show ?thesis using json_parse_print by metis
qed

lemma b64url_decode [simp]: "base64_decode url_alphabet (b64url data) = Some data"
  by (simp add: b64url_def base64_raw_url_decode)

lemma b64url_no_dot [simp]: "CHR ''.'' \<notin> set (b64url data)"
  using base64_raw_url_chars alphabets(6) by (auto simp: b64url_def)

text \<open>A token has one way to be split at its dots.\<close>

lemma split_at_dot:
  assumes "a @ CHR ''.'' # b = a' @ CHR ''.'' # b'" and "CHR ''.'' \<notin> set a" and "CHR ''.'' \<notin> set a'"
  shows "a = a' \<and> b = b'"
proof -
  have "takeWhile (\<lambda>c. c \<noteq> CHR ''.'') (x @ CHR ''.'' # y) = x" if "CHR ''.'' \<notin> set x" for x y
    using that by (subst takeWhile_append2) auto
  then have "a = a'" using assms by metis
  then show ?thesis using assms(1) by simp
qed

lemma genJWT_eq:
  "genJWT hmac now secret u =
     b64url (string_bytes jwt_header) @ ''.'' @ b64url (string_bytes (jwt_payload u now)) @ ''.'' @
       b64url (hmac (string_bytes secret) (string_bytes (b64url (string_bytes jwt_header) @ ''.'' @ b64url (string_bytes (jwt_payload u now)))))"
  by (simp add: genJWT_def Let_def)

text \<open>The text that is signed.\<close>

definition jwt_input :: "string \<Rightarrow> int64 \<Rightarrow> bytes" where
  "jwt_input u now = string_bytes (b64url (string_bytes jwt_header) @ ''.'' @ b64url (string_bytes (jwt_payload u now)))"

lemma signed_genJWT:
  assumes "macs ''HS256'' = Some hmac"
  shows "signed_by macs key (genJWT hmac now secret u) \<longleftrightarrow> hmac key (jwt_input u now) = hmac (string_bytes secret) (jwt_input u now)"
proof
  assume "signed_by macs key (genJWT hmac now secret u)"
  then obtain a b c hdr hms alg mac where t: "genJWT hmac now secret u = a @ ''.'' @ b @ ''.'' @ c" "CHR ''.'' \<notin> set (a @ b @ c)"
    "base64_decode url_alphabet a = Some (string_bytes hdr)" "json_parse hdr = Some (JObject hms)"
    "member ''alg'' hms = Some (JString alg)" "macs alg = Some mac"
    "base64_decode url_alphabet c = Some (mac key (string_bytes (a @ ''.'' @ b)))"
    unfolding signed_by_def by blast
  let ?a = "b64url (string_bytes jwt_header)" and ?b = "b64url (string_bytes (jwt_payload u now))"
    and ?c = "b64url (hmac (string_bytes secret) (jwt_input u now))"
  have "?a @ CHR ''.'' # ?b @ CHR ''.'' # ?c = a @ CHR ''.'' # b @ CHR ''.'' # c"
    using t(1) by (simp add: genJWT_eq jwt_input_def)
  from split_at_dot [OF this b64url_no_dot] have 1: "?a = a" "?b @ CHR ''.'' # ?c = b @ CHR ''.'' # c" using t(2) by simp_all
  have "?b = b \<and> ?c = c" using split_at_dot [OF 1(2) b64url_no_dot] t(2) by simp
  then have e: "a = ?a" "b = ?b" "c = ?c" using 1(1) by simp_all
  have "string_bytes hdr = string_bytes jwt_header" using t(3) e(1) by simp
  then have "hdr = jwt_header" by (metis bytes_string_string_bytes)
  then have "alg = ''HS256''" using t(4,5) jwt_header_members by (auto simp: member_def)
  then have "mac = hmac" using t(6) assms by simp
  then show "hmac key (jwt_input u now) = hmac (string_bytes secret) (jwt_input u now)"
    using t(7) e by (simp add: jwt_input_def)
next
  assume eq: "hmac key (jwt_input u now) = hmac (string_bytes secret) (jwt_input u now)"
  have "member ''alg'' [(''alg'', JString ''HS256''), (''typ'', JString ''JWT'')] = Some (JString ''HS256'')"
    by (simp add: member_def)
  then show "signed_by macs key (genJWT hmac now secret u)"
    unfolding signed_by_def genJWT_eq using jwt_header_members assms eq
    by (intro exI [of _ "b64url (string_bytes jwt_header)"] exI [of _ "b64url (string_bytes (jwt_payload u now))"] exI conjI)
      (auto simp: jwt_input_def)
qed

text \<open>What the library makes of a token.\<close>

lemma genJWT_parse:
  assumes "jwt_verifier parse macs t" and "macs ''HS256'' = Some hmac" and "plain_id u"
    and "sint now \<le> t" and "t < sint (now + 86400)"
  shows "\<exists>cs. parse (genJWT hmac now secret u) (hmac_key secret) = Inr \<lparr>jwt_Valid = True, jwt_Claims = cs\<rparr> \<and>
    map_of cs ''sub'' = Some (ClaimString u)"
proof -
  let ?ms = "[(''sub'', JString u), (''iat'', JNumber (show_int (sint now))), (''exp'', JNumber (show_int (sint (now + 86400))))]"
  have "in_time t ?ms" using assms(4,5) by (simp add: in_time_def time_of_def member_def)
  moreover have "signed_by macs (string_bytes secret) (genJWT hmac now secret u)" using signed_genJWT [of macs hmac, OF assms(2)] by simp
  moreover have "member ''sub'' ?ms = Some (JString u)" by (simp add: member_def)
  moreover have "hmac_key secret True = Inr (string_bytes secret)" by (simp add: hmac_key_def)
  moreover note assms(1) [unfolded jwt_verifier_def, THEN conjunct1, rule_format,
      of "b64url (string_bytes jwt_header)" "b64url (string_bytes (jwt_payload u now))" "b64url (hmac (string_bytes secret) (jwt_input u now))"
        "hmac_key secret" "string_bytes secret" "jwt_payload u now" ?ms]
  ultimately show ?thesis
    using jwt_payload_members [OF assms(3)] by (auto simp: genJWT_eq jwt_input_def)
qed

lemma genJWT_refused:
  assumes "jwt_verifier parse macs t" and "macs ''HS256'' = Some hmac"
    and "hmac (string_bytes secret') (jwt_input u now) \<noteq> hmac (string_bytes secret) (jwt_input u now)"
  shows "\<exists>e. parse (genJWT hmac now secret u) (hmac_key secret') = Inl e"
proof (cases "parse (genJWT hmac now secret u) (hmac_key secret')")
  case (Inr x)
  have "hmac_key secret' False \<noteq> Inr key" for key by (simp add: hmac_key_def)
  then obtain key where "hmac_key secret' True = Inr key" "signed_by macs key (genJWT hmac now secret u)"
    using assms(1) Inr unfolding jwt_verifier_def by blast
  then show ?thesis using assms(3) signed_genJWT [of macs hmac, OF assms(2)] by (simp add: hmac_key_def)
qed blast

lemma genJWT_nonempty [simp]: "genJWT hmac now secret u \<noteq> []"
  by (simp add: genJWT_eq)

lemma JWT_accepts:
  assumes "jwt_verifier parse macs t" and "macs ''HS256'' = Some hmac" and "plain_id u" and "sint now \<le> t" and "t < sint (now + 86400)"
    and "ar_HTTPRequest req = Some r" and "request_token (ja_tokenSource a) (ja_tokenName a) r = genJWT hmac now (ja_secret a) u"
  shows "JWT_Authenticate parse a req = Inr u"
  using assms(6,7) genJWT_parse [OF assms(1-5), of "ja_secret a"] by (auto simp: JWT_Authenticate_def)

lemma JWT_refuses:
  assumes "jwt_verifier parse macs t" and "macs ''HS256'' = Some hmac"
    and "hmac (string_bytes (ja_secret a)) (jwt_input u now) \<noteq> hmac (string_bytes secret) (jwt_input u now)"
    and "ar_HTTPRequest req = Some r" and "request_token (ja_tokenSource a) (ja_tokenName a) r = genJWT hmac now secret u"
  shows "JWT_Authenticate parse a req = Inl ErrInvalidToken"
  using assms(4,5) genJWT_refused [OF assms(1-3)] by (auto simp: JWT_Authenticate_def)

text \<open>The example keeps the promise.\<close>

lemma split_dots_plain: "CHR ''.'' \<notin> set a \<Longrightarrow> split_dots a = [a]"
  by (induction a) auto

lemma split_dots_append: "CHR ''.'' \<notin> set a \<Longrightarrow> split_dots (a @ CHR ''.'' # s) = a # split_dots s"
  by (induction a) auto

lemma split_dots_join:
  "split_dots s \<noteq> [] \<and> concat (map (\<lambda>a. CHR ''.'' # a) (split_dots s)) = CHR ''.'' # s \<and> (\<forall>a \<in> set (split_dots s). CHR ''.'' \<notin> set a)"
proof (induction s)
  case (Cons c s)
  then obtain a as where "split_dots s = a # as" by (cases "split_dots s") auto
  then show ?case using Cons by auto
qed simp

lemma split_dots_three: "split_dots s = [a, b, c] \<longleftrightarrow> s = a @ ''.'' @ b @ ''.'' @ c \<and> CHR ''.'' \<notin> set (a @ b @ c)"
proof
  assume "split_dots s = [a, b, c]"
  then show "s = a @ ''.'' @ b @ ''.'' @ c \<and> CHR ''.'' \<notin> set (a @ b @ c)" using split_dots_join [of s] by simp
qed (simp add: split_dots_append split_dots_plain)

lemma sample_verifier_accepts:
  assumes "CHR ''.'' \<notin> set (a @ b @ c)" and "kf True = Inr key" and "signed_by macs key (a @ ''.'' @ b @ ''.'' @ c)"
    and "base64_decode url_alphabet b = Some (string_bytes payload)" and "json_parse payload = Some (JObject ms)" and "in_time now ms"
  shows "sample_verifier macs now (a @ ''.'' @ b @ ''.'' @ c) kf =
    Inr \<lparr>jwt_Valid = True, jwt_Claims = map (map_prod id claim_of) (rev ms)\<rparr>"
proof -
  obtain a' b' c' hdr hms alg mac where s: "a @ ''.'' @ b @ ''.'' @ c = a' @ ''.'' @ b' @ ''.'' @ c'" "CHR ''.'' \<notin> set (a' @ b' @ c')"
    "base64_decode url_alphabet a' = Some (string_bytes hdr)" "json_parse hdr = Some (JObject hms)"
    "member ''alg'' hms = Some (JString alg)" "macs alg = Some mac"
    "base64_decode url_alphabet c' = Some (mac key (string_bytes (a' @ ''.'' @ b')))"
    using assms(3) unfolding signed_by_def by blast
  have "[a, b, c] = [a', b', c']"
    using s(1,2) assms(1) split_dots_three [of "a @ ''.'' @ b @ ''.'' @ c" a b c] split_dots_three [of "a @ ''.'' @ b @ ''.'' @ c" a' b' c']
    by metis
  moreover have "split_dots (a @ ''.'' @ b @ ''.'' @ c) = [a, b, c]" using assms(1) by (simp only: split_dots_three simp_thms)
  ultimately show ?thesis using s(3-7) assms(2,4-6) by (simp add: sample_verifier_def Let_def del: append.simps)
qed

lemma sample_verifier_sound:
  assumes "sample_verifier macs now token kf = Inr t"
  shows "\<exists>key. kf True = Inr key \<and> signed_by macs key token"
proof -
  obtain a b c key h p sg hms ms alg mac where s: "split_dots token = [a, b, c]" "kf True = Inr key"
    "base64_decode url_alphabet a = Some h" "json_parse (bytes_string h) = Some (JObject hms)" "member ''alg'' hms = Some (JString alg)"
    "macs alg = Some mac" "base64_decode url_alphabet c = Some (mac key (string_bytes (a @ ''.'' @ b)))"
    using assms by (auto simp: sample_verifier_def Let_def split: list.splits sum.splits option.splits json.splits if_splits)
  have "token = a @ ''.'' @ b @ ''.'' @ c \<and> CHR ''.'' \<notin> set (a @ b @ c)" by (rule iffD1 [OF split_dots_three s(1)])
  moreover have "base64_decode url_alphabet a = Some (string_bytes (bytes_string h))" using s(3) by simp
  ultimately show ?thesis using s(2,4-7) unfolding signed_by_def by blast
qed

lemma sample_verifier: "jwt_verifier (sample_verifier macs now) macs now"
proof -
  have m: "map_of (map (map_prod id claim_of) xs) k = map_option claim_of (map_of xs k)" for xs k
    by (induction xs) auto
  show ?thesis
    unfolding jwt_verifier_def
  proof (rule conjI; intro allI impI)
    fix a b payload c ms and kf :: key_func and key
    assume a: "CHR ''.'' \<notin> set (a @ b @ c)" "kf True = Inr key" "signed_by macs key (a @ ''.'' @ b @ ''.'' @ c)"
      "base64_decode url_alphabet b = Some (string_bytes payload)" "json_parse payload = Some (JObject ms)" "in_time now ms"
    show "\<exists>cs. sample_verifier macs now (a @ ''.'' @ b @ ''.'' @ c) kf = Inr \<lparr>jwt_Valid = True, jwt_Claims = cs\<rparr> \<and>
        (\<forall>k s. member k ms = Some (JString s) \<longrightarrow> map_of cs k = Some (ClaimString s))"
      by (rule exI, rule conjI, rule sample_verifier_accepts [of a b c kf key macs payload ms now, OF a]) (simp add: m member_def)
  next
    fix token and kf :: key_func and t
    assume "sample_verifier macs now token kf = Inr t"
    then show "\<exists>key. kf True = Inr key \<and> signed_by macs key token" by (rule sample_verifier_sound)
  qed
qed

lemma plain_idI:
  assumes "list_all (\<lambda>c. 0x20 \<le> code c \<and> code c < 0x80 \<and> c \<notin> {quote_char, backslash, CHR ''<'', CHR ''>'', CHR ''&''}) u"
  shows "plain_id u"
proof -
  have "escape u = u" using assms
  proof (induction u)
    case (Cons c u)
    have "c \<notin> {CHR 0x08, CHR 0x0C, CHR 0x0A, CHR 0x0D, CHR 0x09}"
    proof
      assume "c \<in> {CHR 0x08, CHR 0x0C, CHR 0x0A, CHR 0x0D, CHR 0x09}"
      then have "code c < 0x20" by (auto simp: code_def)
      then show False using Cons.prems by simp
    qed
    then have "escape_ascii c = [c]" using Cons.prems by (simp add: escape_ascii_def not_less)
    then show ?case using Cons by simp
  qed simp
  moreover have "utf8_valid u" using assms by (intro utf8_valid_ascii) (auto simp: list_all_iff)
  ultimately show ?thesis by (simp add: plain_id_def)
qed

lemma plain_id_bob: "plain_id ''bob''"
  by (rule plain_idI) (simp add: code_def)

section \<open>Properties\<close>

text \<open>
  C36. The tokens of the demo authenticate their user. If the JWT library accepts what is signed
  and nothing else, a request that carries the token made for a user with the server's secret, within
  a day of its making, is accepted by the JWT authenticator with exactly that user ID (if the ID needs
  no escapes in JSON); and a token made with a secret that signs it differently is refused as invalid.
\<close>

theorem gen_jwt_authenticates:
  assumes "jwt_verifier parse macs t" and "macs ''HS256'' = Some hmac" and "plain_id u"
    and "sint now \<le> t" and "t < sint (now + 86400)"
    and "ar_HTTPRequest req = Some r" and "request_token (ja_tokenSource a) (ja_tokenName a) r = genJWT hmac now secret u"
  shows "if ja_secret a = secret then JWT_Authenticate parse a req = Inr u
    else hmac (string_bytes (ja_secret a)) (jwt_input u now) \<noteq> hmac (string_bytes secret) (jwt_input u now) \<longrightarrow>
      JWT_Authenticate parse a req = Inl ErrInvalidToken"
  using JWT_accepts [OF assms(1-6)] JWT_refuses [OF assms(1,2) _ assms(6,7)] assms(7) by auto

lemma gen_jwt_authenticates_witness:
  "JWT_Authenticate (sample_verifier sample_macs 1000) (NewJWTAuthenticator ''query'' ''token'' ''s3cret'' 0) sample_jwt_request = Inr ''bob'' \<and>
   JWT_Authenticate (sample_verifier sample_macs 1000) (NewJWTAuthenticator ''query'' ''token'' ''other'' 0) sample_jwt_request =
     Inl ErrInvalidToken"
proof -
  have differ: "sample_hmac (string_bytes ''other'') m \<noteq> sample_hmac (string_bytes ''s3cret'') m" for m
    by (simp add: sample_hmac_def string_bytes_def)
  note g = gen_jwt_authenticates [OF sample_verifier [of sample_macs 1000] _ plain_id_bob, of sample_hmac 1000 sample_jwt_request,
      where secret = "''s3cret''"]
  show ?thesis
    using g [where a = "NewJWTAuthenticator ''query'' ''token'' ''s3cret'' 0"] g [where a = "NewJWTAuthenticator ''query'' ''token'' ''other'' 0"]
      differ by (simp add: sample_macs_def NewJWTAuthenticator_def request_token_def Query_Get_def first_value_def sample_jwt_request_def)
qed

text \<open>A user ID with a quote can name another user: the format does not escape it, and of two
  members with one name the last one counts.\<close>

lemma gen_jwt_injection:
  assumes "u = ''x'' @ [quote_char] @ '','' @ [quote_char] @ ''sub'' @ [quote_char] @ '':'' @ [quote_char] @ v"
  shows "jwt_payload u now = ''{'' @ quote ''sub'' @ '':'' @ quote ''x'' @ '','' @ drop 1 (jwt_payload v now)"
  by (simp add: jwt_payload_def assms quote_def escape_ascii_def code_def)

end
