(* ===== verification/Auth_Demo.thy ===== *)
theory Auth_Demo
  imports Ws_Session Jwt_Token
begin

text \<open>
  The authentication demo (\<^verbatim>\<open>example/authhook/main.go\<close>): a handler that records the users that
  connect and the messages they send, on a WebSocket server with an authenticator. Shown here: on
  the interleaved sessions of \<open>Ws_Session\<close> the handler records each session it is called for once,
  under the user ID that the authenticator returned for its request; and waiting for
  connections ends.
\<close>

section \<open>The recording handler\<close>

record recorder =
  rec_connects :: "string list"
  rec_messages :: "string list"

definition empty_recorder :: recorder where
  "empty_recorder = \<lparr>rec_connects = [], rec_messages = []\<rparr>"

definition demo_OnConnect :: "ws_connection \<Rightarrow> recorder \<Rightarrow> recorder \<times> go_error option" where
  "demo_OnConnect c h = (h\<lparr>rec_connects := rec_connects h @ [ws_UserID c]\<rparr>, None)"

definition demo_OnMessage :: "ws_connection \<Rightarrow> bytes \<Rightarrow> recorder \<Rightarrow> recorder \<times> go_error option" where
  "demo_OnMessage c m h = (h\<lparr>rec_messages := rec_messages h @ [bytes_string m]\<rparr>, None)"

definition demo_OnDisconnect :: "ws_connection \<Rightarrow> go_error \<Rightarrow> recorder \<Rightarrow> recorder" where
  "demo_OnDisconnect c err h = h"

definition lastUID :: "recorder \<Rightarrow> string" where
  "lastUID h = (if length (rec_connects h) = 0 then [] else rec_connects h ! (length (rec_connects h) - 1))"

text \<open>
  The loop of \<^verbatim>\<open>waitConn\<close>: \<open>clock i\<close> is the time at which its condition is tested for the \<open>i\<close>-th
  time, and \<open>got i\<close> the number of connects that are recorded then.
\<close>

partial_function (option) wait_loop :: "(nat \<Rightarrow> int) \<Rightarrow> (nat \<Rightarrow> int) \<Rightarrow> int \<Rightarrow> int \<Rightarrow> nat \<Rightarrow> bool option" where
  "wait_loop clock got n dl i =
     (if clock i < dl
      then if n \<le> got i then Some True else wait_loop clock got n dl (Suc i)
      else Some False)"

definition waitConn :: "(nat \<Rightarrow> int) \<Rightarrow> (nat \<Rightarrow> int) \<Rightarrow> int \<Rightarrow> int \<Rightarrow> int \<Rightarrow> bool option" where
  "waitConn clock got n now t = wait_loop clock got n (now + t) 0"

section \<open>The server\<close>

definition demo_conf :: WsConf where
  "demo_conf =
     \<lparr>ws_Name = [], ws_Addr = ''127.0.0.1:0'', ws_Path = ''/ws'', ws_ReadBufferSize = 1024, ws_WriteBufferSize = 1024,
      ws_MaxConnections = 100, ws_PingInterval = 30000000000, ws_PongWait = 60000000000, ws_MaxMessageSize = 65536,
      ws_WriteTimeout = 5000000000, ws_CertFile = [], ws_KeyFile = [],
      ws_Auth = \<lparr>auth_Enabled = True, auth_Mode = [], auth_Source = [], auth_TokenSource = [], auth_TokenName = [],
        auth_HeaderName = [], auth_JWTSecret = [], auth_Timeout = 0\<rparr>,
      ws_Stateless = \<lparr>sc_PollInterval = 0, sc_BatchSize = 0, sc_AckTimeout = 0\<rparr>\<rparr>"

definition serve :: "go_error option \<Rightarrow> authenticator \<Rightarrow> (go_error + ws_server) \<times> recorder" where
  "serve service_setup auth = (ws_NewServer service_setup demo_conf [WithAuthenticator auth], empty_recorder)"

section \<open>Sessions with the recording handler\<close>

text \<open>What an event of the sessions makes the handler do; the handler returns no error.\<close>

fun demo_observes :: "ws_event \<Rightarrow> ws_system \<Rightarrow> recorder \<Rightarrow> recorder" where
  "demo_observes (Connect t err) s h = fst (demo_OnConnect (sys_heap s t) h)"
| "demo_observes (ReadMessage t msg) s h = fst (demo_OnMessage (sys_heap s t) msg h)"
| "demo_observes (ReadError t err) s h = demo_OnDisconnect (sys_heap s t) err h"
| "demo_observes ev s h = h"

fun demo_event :: "ws_event \<Rightarrow> ws_system \<Rightarrow> recorder \<Rightarrow> bool" where
  "demo_event (Connect t err) s h = (err = snd (demo_OnConnect (sys_heap s t) h))"
| "demo_event ev s h = True"

inductive demo_reach :: "(ws_ref \<Rightarrow> ws_io) \<Rightarrow> ws_server \<Rightarrow> ws_system \<Rightarrow> recorder \<Rightarrow> bool" for io srv where
  start: "demo_reach io srv (initial_system srv) empty_recorder"
| step: "demo_reach io srv s h \<Longrightarrow> event_ok ev s \<Longrightarrow> demo_event ev s h \<Longrightarrow> session_exec io ev s = Some (Return s') \<Longrightarrow>
    demo_reach io srv s' (demo_observes ev s h)"

text \<open>The sessions for which the handler was called, and the messages of a session.\<close>

definition called_sessions :: "ws_system \<Rightarrow> ws_ref set" where
  "called_sessions s = {t. th_calls (sys_thread s t) \<noteq> []}"

fun call_text :: "callback \<Rightarrow> string list" where
  "call_text (OnMessage m) = [bytes_string m]"
| "call_text _ = []"

definition session_texts :: "ws_system \<Rightarrow> ws_ref \<Rightarrow> string list" where
  "session_texts s t = concat (map call_text (th_calls (sys_thread s t)))"

text \<open>The user for whom the authenticator takes a session.\<close>

definition session_user :: "ws_server \<Rightarrow> ws_system \<Rightarrow> ws_ref \<Rightarrow> string" where
  "session_user srv s t = (case auth_result srv (sys_thread s t) of Inl _ \<Rightarrow> [] | Inr u \<Rightarrow> u)"

section \<open>Lemmas\<close>

lemma demo_session: "demo_reach io srv s h \<Longrightarrow> session_reach io (initial_system srv) s"
  by (induction rule: demo_reach.induct) (auto intro: session_reach.intros)

lemma demo_inv: "demo_reach io srv s h \<Longrightarrow> fresh_server srv \<Longrightarrow> session_inv s"
  using session_inv_reach demo_session by blast

lemma idle_no_calls: "session_inv s \<Longrightarrow> th_pc (sys_thread s t) = Idle \<Longrightarrow> th_calls (sys_thread s t) = []"
  using session_invD(1) [of s t] by (auto simp: thread_ok_def split: option.splits)

text \<open>Sessions keep their request, and so their user, once the handler was called for them.\<close>

lemma called_keep:
  assumes "session_inv s" and "session_exec io ev s = Some (Return s')" and "t \<in> called_sessions s"
  shows "t \<in> called_sessions s'" and "session_user srv s' t = session_user srv s t"
proof -
  have "th_pc (sys_thread s t) \<noteq> Idle" using idle_no_calls [OF assms(1)] assms(3) by (auto simp: called_sessions_def)
  then have "th_request (sys_thread s' t) = th_request (sys_thread s t)" using exec_request [OF assms(2)] by simp
  then show "session_user srv s' t = session_user srv s t" by (simp add: session_user_def auth_result_def)
  show "t \<in> called_sessions s'" using exec_calls [OF assms(2), of t] assms(3) by (simp add: called_sessions_def)
qed

lemma serving_called: "session_inv s \<Longrightarrow> th_pc (sys_thread s t) = Serving w r \<Longrightarrow> t \<in> called_sessions s"
  using session_invD(1) [of s t] by (auto simp: thread_ok_def called_sessions_def session_calls_def split: if_splits)

definition records :: "ws_server \<Rightarrow> ws_system \<Rightarrow> recorder \<Rightarrow> bool" where
  "records srv s h \<longleftrightarrow> finite (called_sessions s) \<and>
     mset (rec_connects h) = (\<Sum>t\<in>called_sessions s. {#session_user srv s t#}) \<and>
     mset (rec_messages h) = (\<Sum>t\<in>called_sessions s. mset (session_texts s t))"

lemma records_same:
  assumes "records srv s h" and "session_inv s" and "session_exec io ev s = Some (Return s')"
    and "called_sessions s' = called_sessions s" and "\<And>t. session_texts s' t = session_texts s t"
  shows "records srv s' h"
  using assms(1,4,5) called_keep(2) [OF assms(2,3)] unfolding records_def by simp

lemma records_step:
  assumes rec: "records srv s h" and inv: "session_inv s" and conf: "auth_result srv = auth_result (sys_server s)"
    and ev: "demo_event ev s h" and exec: "session_exec io ev s = Some (Return s')"
  shows "records srv s' (demo_observes ev s h)"
proof -
  note calls = exec_calls [OF exec, unfolded event_calls_def]
  have same: "called_sessions s' = called_sessions s \<and> (\<forall>t. session_texts s' t = session_texts s t)"
    if "\<And>t. event_calls ev t = []"
    using calls that [unfolded event_calls_def] by (simp add: called_sessions_def session_texts_def)
  note quiet = records_same [OF rec inv exec]
  show ?thesis
  proof (cases ev)
    case (Connect t err)
    then have pc: "th_pc (sys_thread s t) = Joined" using exec by (auto split: if_splits)
    then have new: "t \<notin> called_sessions s" and user: "auth_result srv (sys_thread s t) = Inr (ws_UserID (sys_heap s t))"
      using session_invD(1) [OF inv, of t] conf by (auto simp: thread_ok_def called_sessions_def)
    have c: "called_sessions s' = insert t (called_sessions s)" using calls Connect by (auto simp: called_sessions_def split: if_splits)
    have "th_request (sys_thread s' t) = th_request (sys_thread s t)" using exec_request [OF exec] pc by simp
    then have "auth_result srv (sys_thread s' t) = auth_result srv (sys_thread s t)" by (simp add: auth_result_def)
    then have u: "session_user srv s' t = ws_UserID (sys_heap s t)" using user by (simp add: session_user_def)
    have texts: "session_texts s' t' = session_texts s t'" for t' using calls [of t'] Connect by (auto simp: session_texts_def)
    have "session_texts s t = []" using new by (simp add: called_sessions_def session_texts_def)
    moreover have "finite (called_sessions s)" using rec by (simp add: records_def)
    moreover have "(\<Sum>x\<in>called_sessions s. {#session_user srv s' x#}) = (\<Sum>x\<in>called_sessions s. {#session_user srv s x#})"
      using called_keep(2) [OF inv exec] by (intro sum.cong) simp_all
    ultimately show ?thesis using rec new c u texts Connect by (simp add: records_def demo_OnConnect_def)
  next
    case (ReadMessage t msg)
    then obtain w where "th_pc (sys_thread s t) = Serving w Reading" using exec by (auto split: ws_pc.splits read_pc.splits)
    then have t: "t \<in> called_sessions s" by (rule serving_called [OF inv])
    have c: "called_sessions s' = called_sessions s" using calls ReadMessage t by (auto simp: called_sessions_def split: if_splits)
    have texts: "mset (session_texts s' t') = mset (session_texts s t') + (if t = t' then {#bytes_string msg#} else {#})" for t'
      using calls [of t'] ReadMessage by (simp add: session_texts_def)
    have fin: "finite (called_sessions s)" using rec by (simp add: records_def)
    have "(\<Sum>x\<in>called_sessions s. mset (session_texts s' x)) =
        (\<Sum>x\<in>called_sessions s. mset (session_texts s x)) + {#bytes_string msg#}"
      unfolding texts sum.distrib sum.delta' [OF fin] using t by simp
    moreover have "(\<Sum>x\<in>called_sessions s. {#session_user srv s' x#}) = (\<Sum>x\<in>called_sessions s. {#session_user srv s x#})"
      using called_keep(2) [OF inv exec] by (intro sum.cong) simp_all
    ultimately show ?thesis using rec c t ReadMessage by (simp add: records_def demo_OnMessage_def)
  next
    case (ReadError t err)
    then obtain w where "th_pc (sys_thread s t) = Serving w Reading" using exec by (auto split: ws_pc.splits read_pc.splits)
    then have t: "t \<in> called_sessions s" by (rule serving_called [OF inv])
    have "called_sessions s' = called_sessions s" using calls ReadError t by (auto simp: called_sessions_def split: if_splits)
    moreover have "session_texts s' t' = session_texts s t'" for t' using calls [of t'] ReadError by (auto simp: session_texts_def)
    ultimately show ?thesis using quiet ReadError by (simp add: demo_OnDisconnect_def)
  qed (use quiet same in \<open>simp_all add: event_calls_def\<close>)
qed

lemma demo_records_inv:
  assumes "fresh_server srv"
  shows "demo_reach io srv s h \<Longrightarrow> records srv s h"
proof (induction rule: demo_reach.induct)
  case start
  then show ?case
    by (simp add: records_def called_sessions_def initial_system_def idle_thread_def empty_recorder_def)
next
  case (step s h ev s')
  have "auth_result srv = auth_result (sys_server s)"
    using reach_setup [OF demo_session [OF step.hyps(1)] assms] by (simp add: fun_eq_iff auth_result_def)
  then show ?case using records_step [OF step.IH demo_inv [OF step.hyps(1) assms] _ step.hyps(3,4)] by simp
qed

text \<open>Waiting: the clock advances by ten milliseconds at least in every round.\<close>

lemma wait_loop_returns:
  assumes "\<And>i. clock i + 10000000 \<le> clock (Suc i)"
  shows "\<exists>b. wait_loop clock got n dl i = Some b \<and> (b \<longleftrightarrow> (\<exists>j \<ge> i. clock j < dl \<and> n \<le> got j))"
proof (induction "nat (dl - clock i)" arbitrary: i rule: less_induct)
  case less
  have up: "clock i \<le> clock j" if "i \<le> j" for j
    using that by (induction j rule: dec_induct) (use assms in \<open>auto intro: order_trans [OF _ order_trans [OF _ assms]]\<close>)
  show ?case
  proof (cases "clock i < dl \<and> \<not> n \<le> got i")
    case True
    then have "nat (dl - clock (Suc i)) < nat (dl - clock i)" using assms [of i] by linarith
    then obtain b where b: "wait_loop clock got n dl (Suc i) = Some b" "b \<longleftrightarrow> (\<exists>j \<ge> Suc i. clock j < dl \<and> n \<le> got j)"
      using less by blast
    moreover have "wait_loop clock got n dl i = wait_loop clock got n dl (Suc i)" using True by (subst wait_loop.simps) simp
    moreover have "(\<exists>j \<ge> i. clock j < dl \<and> n \<le> got j) \<longleftrightarrow> (\<exists>j \<ge> Suc i. clock j < dl \<and> n \<le> got j)"
      using True by (metis Suc_leD le_antisym not_less_eq_eq)
    ultimately show ?thesis by simp
  next
    case False
    show ?thesis
    proof (cases "clock i < dl")
      case True
      then show ?thesis using False by (subst wait_loop.simps) auto
    next
      case late: False
      then have "\<not> clock j < dl" if "i \<le> j" for j using up [OF that] by simp
      then show ?thesis using late by (subst wait_loop.simps) auto
    qed
  qed
qed

section \<open>Properties\<close>

text \<open>
  C37. The demo records exactly the authenticated users. On the server that \<^verbatim>\<open>serve\<close> builds, in every
  interleaving of sessions, the user IDs that the handler has recorded are, with the number of times they
  occur, those of the sessions for which it was called, one each; for each of these sessions the
  authenticator has accepted the request with just this user ID; and the messages recorded are those
  read in these sessions.
\<close>

theorem demo_records:
  assumes "fst (serve service_setup auth) = Inr srv" and "demo_reach io srv s h"
  shows "mset (rec_connects h) = (\<Sum>t\<in>called_sessions s. {#session_user srv s t#}) \<and>
    mset (rec_messages h) = (\<Sum>t\<in>called_sessions s. mset (session_texts s t)) \<and>
    (\<forall>t\<in>called_sessions s. auth \<lparr>ar_Protocol = ProtocolWebSocket, ar_HTTPRequest = Some (th_request (sys_thread s t)), ar_FirstMessage = []\<rparr> =
       Inr (session_user srv s t))"
proof -
  have new: "ws_NewServer service_setup demo_conf [WithAuthenticator auth] = Inr srv" using assms(1) by (simp add: serve_def)
  then have srv: "wss_authenticator srv = auth" "wss_conf srv = demo_conf"
    by (auto simp: ws_NewServer_def split: option.splits)
  have fresh: "fresh_server srv" using fresh_NewServer [OF new] by simp
  have "\<exists>u. auth_result srv (sys_thread s t) = Inr u" if "t \<in> called_sessions s" for t
  proof -
    have "\<exists>u. auth_result (sys_server s) (sys_thread s t) = Inr u"
      using session_invD(1) [OF demo_inv [OF assms(2) fresh], of t] that by (auto simp: thread_ok_def called_sessions_def)
    moreover have "auth_result (sys_server s) = auth_result srv"
      using reach_setup [OF demo_session [OF assms(2)] fresh] by (simp add: fun_eq_iff auth_result_def)
    ultimately show ?thesis by simp
  qed
  moreover have "auth_result srv th = auth \<lparr>ar_Protocol = ProtocolWebSocket, ar_HTTPRequest = Some (th_request th), ar_FirstMessage = []\<rparr>" for th
    by (simp add: auth_result_def srv demo_conf_def)
  ultimately show ?thesis
    using demo_records_inv [OF fresh assms(2)] by (fastforce simp: records_def session_user_def)
qed

lemma demo_records_witness:
  "\<exists>srv s h. fst (serve None (\<lambda>_. Inr ''bob'')) = Inr srv \<and> demo_reach (\<lambda>_ _ _. None) srv s h \<and> rec_connects h = [''bob'']"
proof -
  let ?io = "\<lambda>_ _ _. None" and ?auth = "\<lambda>_. Inr ''bob''"
  obtain srv where srv: "fst (serve None ?auth) = Inr srv"
    by (simp add: serve_def ws_NewServer_def WsConf_SetUp_def)
  obtain s where run: "session_run ?io [Arrive 0 sample_request, Upgrade 0 None 7, Authenticate 0 8, Register 0] (initial_system srv) = Some s"
    and pc: "th_pc (sys_thread s 0) = Joined"
    using srv by (auto simp: serve_def ws_NewServer_def WsConf_SetUp_def session_defs initial_system_def idle_thread_def demo_conf_def
        ws_registry_defs Let_def ws_NewConnection_def)
  have quiet: "demo_reach ?io srv s' empty_recorder"
    if "session_run ?io evs s0 = Some s'" "demo_reach ?io srv s0 empty_recorder"
      "\<forall>ev \<in> set evs. \<forall>s h. demo_observes ev s h = h \<and> demo_event ev s h" for evs s0 s'
    using that
  proof (induction evs arbitrary: s0)
    case (Cons ev evs)
    then obtain s1 where s1: "event_ok ev s0" "session_exec ?io ev s0 = Some (Return s1)" "session_run ?io evs s1 = Some s'"
      by (auto split: option.splits outcome.splits if_splits)
    have "demo_reach ?io srv s1 (demo_observes ev s0 empty_recorder)"
      using demo_reach.step [OF Cons.prems(2) s1(1) _ s1(2)] Cons.prems(3) by simp
    then show ?case using Cons.IH [OF s1(3)] Cons.prems(3) by simp
  qed simp
  have s: "demo_reach ?io srv s empty_recorder" using quiet [OF run demo_reach.start] by simp
  let ?h = "demo_observes (Connect 0 None) s empty_recorder"
  obtain s' where s': "session_exec ?io (Connect 0 None) s = Some (Return s')" using pc by (simp add: handle_connect_def)
  have reach: "demo_reach ?io srv s' ?h" using demo_reach.step [OF s _ _ s'] by (simp add: demo_OnConnect_def)
  have one: "rec_connects ?h = [ws_UserID (sys_heap s 0)]" by (simp add: demo_OnConnect_def empty_recorder_def)
  have "0 \<in> called_sessions s'" using exec_calls [OF s', of 0] by (simp add: called_sessions_def event_calls_def)
  then have "session_user srv s' 0 = ''bob''" using demo_records [OF srv reach] by auto
  moreover have "finite (called_sessions s')"
    using demo_records_inv [OF _ reach] srv fresh_NewServer by (fastforce simp: serve_def records_def)
  ultimately have "''bob'' \<in># mset (rec_connects ?h)"
    using demo_records [OF srv reach] \<open>0 \<in> called_sessions s'\<close> by (auto simp: set_mset_sum intro: bexI [of _ 0])
  then have "rec_connects ?h = [''bob'']" using one by auto
  then show ?thesis using srv reach by blast
qed

text \<open>
  C38. Waiting for connections ends. As each round of the loop sleeps for ten milliseconds, \<^verbatim>\<open>waitConn\<close>
  returns; it returns true exactly when in some round before the deadline the handler had recorded
  as many connections as asked for.
\<close>

theorem waitConn_returns:
  assumes "\<And>i. clock i + 10000000 \<le> clock (Suc i)"
  shows "\<exists>b. waitConn clock got n now t = Some b \<and> (b \<longleftrightarrow> (\<exists>i. clock i < now + t \<and> n \<le> got i))"
  using wait_loop_returns [of clock got n "now + t" 0] assms by (simp add: waitConn_def)

lemma waitConn_returns_witness: "waitConn (\<lambda>i. 20000000 * int i) int 3 0 1000000000 = Some True"
proof -
  have "\<exists>i. 20000000 * int i < 0 + 1000000000 \<and> 3 \<le> int i" by (rule exI [of _ 3]) simp
  then show ?thesis using waitConn_returns [of "\<lambda>i. 20000000 * int i" int 3 0 1000000000] by auto
qed

end
