(* ===== verification/Auth_Main.thy ===== *)
theory Auth_Main
  imports Auth_Demo
begin

text \<open>
  The checks of the authentication demo (\<^verbatim>\<open>main\<close> of \<^verbatim>\<open>example/authhook/main.go\<close>): it dials its own
  servers with good and bad credentials, looks at what the recording handler has seen, and counts.
  What a dial gives is an argument. Shown here: there are always 14 checks, and all of them pass when the
  servers let a request in exactly if their authenticator accepts it. The headings and blank lines
  that are printed are left out.
\<close>

section \<open>Counting\<close>

record tally =
  t_passed :: int64
  t_failed :: int64
  t_out :: "string list"

definition ok :: "string \<Rightarrow> tally \<Rightarrow> tally" where
  "ok name s = s\<lparr>t_passed := t_passed s + 1, t_out := t_out s @ [''  PASS  '' @ name]\<rparr>"

definition fail :: "string \<Rightarrow> string \<Rightarrow> tally \<Rightarrow> tally" where
  "fail name detail s = s\<lparr>t_failed := t_failed s + 1, t_out := t_out s @ [''  FAIL  '' @ name @ ''  --  '' @ detail]\<rparr>"

text \<open>The arrow in the names, in UTF-8.\<close>

definition arrow :: string where
  "arrow = [CHR 0xE2, CHR 0x86, CHR 0x92]"

section \<open>Checks\<close>

text \<open>
  What a dial gives: the text of the error of \<^verbatim>\<open>Dial\<close>, which gives no connection then; that of the
  error of \<^verbatim>\<open>readMsg\<close> on the connection, if it is called; and the handler when it is looked at.
\<close>

record dial_answer =
  da_dial :: "string option"
  da_read :: "string option"
  da_handler :: recorder

definition check_user :: "string \<Rightarrow> string \<Rightarrow> dial_answer \<Rightarrow> tally \<Rightarrow> tally" where
  "check_user name uid a s =
     (case da_dial a of
        Some err \<Rightarrow> fail name err s
      | None \<Rightarrow>
          if lastUID (da_handler a) = uid then ok (name @ '' '' @ arrow @ '' userID='' @ uid) s
          else fail name (''got userID='' @ lastUID (da_handler a)) s)"

definition check_rejected :: "string \<Rightarrow> string \<Rightarrow> dial_answer \<Rightarrow> tally \<Rightarrow> tally" where
  "check_rejected name detail a s =
     (let noConn = (da_dial a \<noteq> None);
          err = (if noConn then da_dial a else da_read a)
      in if err \<noteq> None \<or> noConn then ok name s else fail name detail s)"

text \<open>A member of a \<^verbatim>\<open>map[string]string\<close> that was decoded; errors of the decoder are dropped.\<close>

definition decoded_member :: "string \<Rightarrow> string \<Rightarrow> string" where
  "decoded_member text k =
     (case json_parse text of
        Some (JObject ms) \<Rightarrow> (case member k ms of Some (JString s) \<Rightarrow> s | _ \<Rightarrow> [])
      | _ \<Rightarrow> [])"

text \<open>The message that is sent.\<close>

definition demo_message :: string where
  "demo_message = json_print (JObject [(''content'', JString ''hello''), (''type'', JString ''chat'')])"

definition check_message :: "dial_answer \<Rightarrow> tally \<Rightarrow> tally" where
  "check_message a s =
     (case da_dial a of
        Some err \<Rightarrow> fail ''connect for send/receive'' err s
      | None \<Rightarrow>
          let messages = rec_messages (da_handler a)
          in if length messages > 0
             then let content = decoded_member (messages ! 0) ''content''
                  in if content = ''hello'' then ok (''message received '' @ arrow @ '' content=hello'') s
                     else fail ''message content'' (''got '' @ content) s
             else fail ''message received'' ''no message arrived'' s)"

text \<open>The loop over ten users, which stops at the first dial that fails.\<close>

fun dial_users :: "nat \<Rightarrow> nat \<Rightarrow> (nat \<Rightarrow> dial_answer) \<Rightarrow> tally \<Rightarrow> tally \<times> bool" where
  "dial_users 0 i ans s = (s, True)"
| "dial_users (Suc k) i ans s =
     (case da_dial (ans i) of
        Some err \<Rightarrow> (fail ''10 concurrent users'' (''user '' @ show_nat i @ '': '' @ err) s, False)
      | None \<Rightarrow> dial_users k (Suc i) ans s)"

definition check_users :: "(nat \<Rightarrow> dial_answer) \<Rightarrow> recorder \<Rightarrow> tally \<Rightarrow> tally" where
  "check_users ans h s =
     (case dial_users 10 0 ans s of
        (s', allOk) \<Rightarrow>
          if allOk
          then let n = length (rec_connects h)
               in if 10 \<le> n then ok (''10 concurrent users connected ('' @ show_nat n @ '')'') s'
                  else fail ''10 concurrent users'' (''only '' @ show_nat n @ '' connected'') s'
          else s')"

section \<open>Requests\<close>

definition plain_request :: HTTPRequest where
  "plain_request = \<lparr>req_Header = [], req_Query = [], req_Cookies = [], req_Host = []\<rparr>"

definition query_request :: "string \<Rightarrow> HTTPRequest" where
  "query_request token = plain_request\<lparr>req_Query := [(''token'', [token])]\<rparr>"

definition header_request :: "string \<Rightarrow> string \<Rightarrow> HTTPRequest" where
  "header_request k v = plain_request\<lparr>req_Header := [(CanonicalHeaderKey k, [v])]\<rparr>"

definition cookie_request :: "string \<Rightarrow> HTTPRequest" where
  "cookie_request token = plain_request\<lparr>req_Cookies := [(''token'', token)]\<rparr>"

definition demo_secret :: string where
  "demo_secret = ''test-secret''"

text \<open>The dials of the seven parts in their order; \<open>now i\<close> is the time at which the token of the \<open>i\<close>-th is made.\<close>

definition demo_requests :: "(bytes \<Rightarrow> bytes \<Rightarrow> bytes) \<Rightarrow> (nat \<Rightarrow> int64) \<Rightarrow> HTTPRequest list" where
  "demo_requests hmac now =
     [query_request (genJWT hmac (now 0) demo_secret ''query-user''),
      query_request ''garbage'',
      plain_request,
      query_request (genJWT hmac (now 3) ''wrong-secret'' ''x''),
      header_request ''Authorization'' (''Bearer '' @ genJWT hmac (now 4) demo_secret ''header-user''),
      header_request ''Authorization'' (genJWT hmac (now 5) demo_secret ''raw-user''),
      cookie_request (genJWT hmac (now 6) demo_secret ''cookie-user''),
      header_request ''X-User-ID'' ''envoy-user'',
      plain_request,
      query_request (genJWT hmac (now 9) demo_secret ''msg-user'')] @
     map (\<lambda>i. query_request (genJWT hmac (now (10 + i)) demo_secret (''u'' @ show_nat i))) [0..<10]"

text \<open>The authenticators of the servers that are dialled.\<close>

definition demo_authenticator :: "jwt_parse \<Rightarrow> nat \<Rightarrow> authenticator" where
  "demo_authenticator parse i =
     (if i \<in> {4, 5} then JWT_Authenticate parse (NewJWTAuthenticator ''header'' ''Authorization'' demo_secret 5000000000)
      else if i = 6 then JWT_Authenticate parse (NewJWTAuthenticator ''cookie'' ''token'' demo_secret 5000000000)
      else if i \<in> {7, 8} then Envoy_Authenticate ''X-User-ID''
      else JWT_Authenticate parse (NewJWTAuthenticator ''query'' ''token'' demo_secret 5000000000))"

section \<open>The parts of the program\<close>

definition part_query :: "(nat \<Rightarrow> dial_answer) \<Rightarrow> tally \<Rightarrow> tally" where
  "part_query ans s =
     (let s1 = check_user ''valid token connects'' ''query-user'' (ans 0) s;
          s2 = check_rejected ''invalid token rejected'' ''connection should close'' (ans 1) s1;
          s3 = check_rejected ''missing token rejected'' ''connection should close'' (ans 2) s2
      in check_rejected ''wrong secret rejected'' ''connection should close'' (ans 3) s3)"

definition part_header :: "(nat \<Rightarrow> dial_answer) \<Rightarrow> tally \<Rightarrow> tally" where
  "part_header ans s =
     (let s1 = check_user ''bearer token connects'' ''header-user'' (ans 4) s
      in check_user ''raw token in header'' ''raw-user'' (ans 5) s1)"

definition part_cookie :: "(nat \<Rightarrow> dial_answer) \<Rightarrow> tally \<Rightarrow> tally" where
  "part_cookie ans s = check_user ''cookie token connects'' ''cookie-user'' (ans 6) s"

definition part_envoy :: "(nat \<Rightarrow> dial_answer) \<Rightarrow> tally \<Rightarrow> tally" where
  "part_envoy ans s =
     (let s1 = check_user ''envoy header connects'' ''envoy-user'' (ans 7) s
      in check_rejected ''missing envoy header rejected'' ''should close'' (ans 8) s1)"

text \<open>What a call of \<^verbatim>\<open>Authenticate\<close> returns as the user ID when its error is ignored.\<close>

fun user_or_empty :: "go_error + string \<Rightarrow> string" where
  "user_or_empty (Inl _) = []"
| "user_or_empty (Inr u) = u"

definition part_routing :: "jwt_parse \<Rightarrow> (bytes \<Rightarrow> bytes \<Rightarrow> bytes) \<Rightarrow> int64 \<Rightarrow> tally \<Rightarrow> tally" where
  "part_routing parse hmac now s =
     (let ha = NewHybridAuthenticator \<lparr>wsa_Source = ''envoy-header'', wsa_HeaderName = ''X-User-ID''\<rparr>
            \<lparr>wta_TokenSource = ''query'', wta_TokenName = ''token'', wta_JWTSecret = demo_secret\<rparr>;
          r1 = header_request ''X-User-ID'' ''ws-envoy'';
          uid = user_or_empty (Hybrid_Authenticate parse ha
            \<lparr>ar_Protocol = ProtocolWebSocket, ar_HTTPRequest = Some r1, ar_FirstMessage = []\<rparr>);
          s1 = (if uid = ''ws-envoy'' then ok (''hybrid WS '' @ arrow @ '' envoy header'') s
                else fail (''hybrid WS '' @ arrow @ '' envoy header'') (''got '' @ uid) s);
          r2 = query_request (genJWT hmac now demo_secret ''wt-jwt'');
          uid2 = user_or_empty (Hybrid_Authenticate parse ha
            \<lparr>ar_Protocol = ProtocolWebTransport, ar_HTTPRequest = Some r2, ar_FirstMessage = []\<rparr>);
          s2 = (if uid2 = ''wt-jwt'' then ok (''hybrid WT '' @ arrow @ '' JWT'') s1
                else fail (''hybrid WT '' @ arrow @ '' JWT'') (''got '' @ uid2) s1)
      in case Hybrid_Authenticate parse ha \<lparr>ar_Protocol = ''unknown'', ar_HTTPRequest = Some r1, ar_FirstMessage = []\<rparr> of
           Inl err7 \<Rightarrow> ok ''hybrid unknown protocol rejected'' s2
         | Inr _ \<Rightarrow> fail ''hybrid unknown protocol'' ''should error'' s2)"

definition summary :: "tally \<Rightarrow> string" where
  "summary s =
     (let total = t_passed s + t_failed s
      in if t_failed s = 0 then '' ALL '' @ show_int (sint total) @ '' TESTS PASSED''
         else '' '' @ show_int (sint (t_failed s)) @ '' / '' @ show_int (sint total) @ '' FAILED'')"

definition demo_main :: "jwt_parse \<Rightarrow> (bytes \<Rightarrow> bytes \<Rightarrow> bytes) \<Rightarrow> int64 \<Rightarrow> (nat \<Rightarrow> dial_answer) \<Rightarrow> tally" where
  "demo_main parse hmac now ans =
     (let s0 = \<lparr>t_passed = 0, t_failed = 0, t_out = []\<rparr>;
          s1 = part_envoy ans (part_cookie ans (part_header ans (part_query ans s0)));
          s2 = check_message (ans 9) s1;
          s3 = check_users (\<lambda>i. ans (10 + i)) (da_handler (ans 19)) s2;
          s4 = part_routing parse hmac now s3
      in s4\<lparr>t_out := t_out s4 @ [summary s4]\<rparr>)"

section \<open>What the servers answer\<close>

text \<open>
  A request that the authenticator refuses gives no connection, or one that is closed before a message
  arrives; one that it accepts gives a connection.
\<close>

definition gate :: "authenticator \<Rightarrow> HTTPRequest \<Rightarrow> dial_answer \<Rightarrow> bool" where
  "gate auth r a \<longleftrightarrow>
     (case auth \<lparr>ar_Protocol = ProtocolWebSocket, ar_HTTPRequest = Some r, ar_FirstMessage = []\<rparr> of
        Inl err \<Rightarrow> da_dial a \<noteq> None \<or> da_read a \<noteq> None
      | Inr u \<Rightarrow> da_dial a = None)"

text \<open>And the handler, when the only dial since is this one, has recorded the user last.\<close>

definition recorded :: "authenticator \<Rightarrow> HTTPRequest \<Rightarrow> dial_answer \<Rightarrow> bool" where
  "recorded auth r a \<longleftrightarrow>
     (\<forall>u. auth \<lparr>ar_Protocol = ProtocolWebSocket, ar_HTTPRequest = Some r, ar_FirstMessage = []\<rparr> = Inr u \<longrightarrow> lastUID (da_handler a) = u)"

text \<open>Answers that fit, for examples.\<close>

definition good_answer :: "string \<Rightarrow> dial_answer" where
  "good_answer u = \<lparr>da_dial = None, da_read = None, da_handler = \<lparr>rec_connects = replicate 10 u, rec_messages = [demo_message]\<rparr>\<rparr>"

definition sample_answers :: "nat \<Rightarrow> dial_answer" where
  "sample_answers i =
     (if i \<in> {1, 2, 3, 8} then \<lparr>da_dial = None, da_read = Some ''websocket: close 1008'', da_handler = empty_recorder\<rparr>
      else good_answer
        (if i = 0 then ''query-user'' else if i = 4 then ''header-user'' else if i = 5 then ''raw-user''
         else if i = 6 then ''cookie-user'' else if i = 7 then ''envoy-user'' else ''u9''))"

section \<open>Lemmas\<close>

lemma tally_counts [simp]:
  "t_passed (ok n s) + t_failed (ok n s) = t_passed s + t_failed s + 1"
  "t_passed (fail n d s) + t_failed (fail n d s) = t_passed s + t_failed s + 1"
  by (simp_all add: ok_def fail_def)

lemma count_checks:
  "t_passed (check_user n u a s) + t_failed (check_user n u a s) = t_passed s + t_failed s + 1"
  "t_passed (check_rejected n d a s) + t_failed (check_rejected n d a s) = t_passed s + t_failed s + 1"
  "t_passed (check_message a s) + t_failed (check_message a s) = t_passed s + t_failed s + 1"
  by (simp_all add: check_user_def check_rejected_def check_message_def Let_def split: option.split)

lemma count_users: "t_passed (check_users ans h s) + t_failed (check_users ans h s) = t_passed s + t_failed s + 1"
proof -
  have "t_passed s' + t_failed s' = t_passed s + t_failed s + (if b then 0 else 1)" if "dial_users k i ans s = (s', b)" for k i s' b
    using that by (induction k arbitrary: i) (auto split: option.splits)
  then show ?thesis by (auto simp: check_users_def Let_def split: prod.splits)
qed

lemma count_routing: "t_passed (part_routing parse hmac now s) + t_failed (part_routing parse hmac now s) = t_passed s + t_failed s + 3"
  by (simp add: part_routing_def Let_def split: sum.split)

lemma demo_count: "t_passed (demo_main parse hmac now ans) + t_failed (demo_main parse hmac now ans) = 14"
  by (simp add: demo_main_def part_query_def part_header_def part_cookie_def part_envoy_def Let_def count_routing count_users count_checks)

text \<open>What the authenticators make of the requests.\<close>

lemma header_request_Get: "Header_Get (header_request k v) k = v"
  by (simp add: header_request_def plain_request_def Header_Get_def first_value_def)

lemma genJWT_no_space: "CHR '' '' \<notin> set (genJWT hmac now secret u)"
proof -
  have "CHR '' '' \<notin> set (b64url data)" for data
    using base64_raw_url_chars [of data] by (auto simp: b64url_def url_alphabet_def)
  then show ?thesis by (simp add: genJWT_eq)
qed

lemma no_bearer: "\<not> HasPrefix (genJWT hmac now secret u) ''Bearer ''"
proof
  assume "HasPrefix (genJWT hmac now secret u) ''Bearer ''"
  then have "set ''Bearer '' \<subseteq> set (genJWT hmac now secret u)" by (metis HasPrefix_def set_take_subset)
  then show False using genJWT_no_space by force
qed

lemma demo_tokens:
  "request_token ''query'' ''token'' (query_request v) = v"
  "request_token ''header'' ''Authorization'' (header_request ''Authorization'' (''Bearer '' @ genJWT hmac now secret u)) = genJWT hmac now secret u"
  "request_token ''header'' ''Authorization'' (header_request ''Authorization'' (genJWT hmac now secret u)) = genJWT hmac now secret u"
  "request_token ''cookie'' ''token'' (cookie_request v) = v"
  "request_token ''query'' ''token'' plain_request = []"
proof -
  have "HasPrefix (''Bearer '' @ genJWT hmac now secret u) ''Bearer ''" by (simp add: HasPrefix_def)
  then show "request_token ''header'' ''Authorization'' (header_request ''Authorization'' (''Bearer '' @ genJWT hmac now secret u)) =
      genJWT hmac now secret u"
    by (simp only: request_token_def header_request_Get Let_def TrimPrefix_append) simp
  show "request_token ''header'' ''Authorization'' (header_request ''Authorization'' (genJWT hmac now secret u)) = genJWT hmac now secret u"
    using no_bearer by (simp add: request_token_def header_request_Get Let_def)
qed (simp_all add: request_token_def query_request_def cookie_request_def plain_request_def Query_Get_def first_value_def Request_Cookie_def)

lemma no_dots_refused:
  assumes "jwt_verifier parse macs t" and "CHR ''.'' \<notin> set token"
  shows "\<exists>e. parse token (hmac_key secret) = Inl e"
proof (cases "parse token (hmac_key secret)")
  case (Inr x)
  have "hmac_key secret False \<noteq> Inr key" for key by (simp add: hmac_key_def)
  then obtain key where "signed_by macs key token" using assms(1) Inr unfolding jwt_verifier_def by blast
  then show ?thesis using assms(2) by (auto simp: signed_by_def)
qed blast

definition library_ok ::
  "(nat \<Rightarrow> jwt_parse) \<Rightarrow> (string \<rightharpoonup> (bytes \<Rightarrow> bytes \<Rightarrow> bytes)) \<Rightarrow> (bytes \<Rightarrow> bytes \<Rightarrow> bytes) \<Rightarrow> (nat \<Rightarrow> int) \<Rightarrow> (nat \<Rightarrow> int64) \<Rightarrow> bool" where
  "library_ok parse macs hmac t now \<longleftrightarrow> macs ''HS256'' = Some hmac \<and>
     (\<forall>i. jwt_verifier (parse i) macs (t i) \<and> sint (now i) \<le> t i \<and> t i < sint (now i + 86400))"

lemma library_accepts:
  assumes "library_ok parse macs hmac t now" and "plain_id u"
    and "request_token (ja_tokenSource a) (ja_tokenName a) r = genJWT hmac (now i) (ja_secret a) u"
  shows "JWT_Authenticate (parse i) a \<lparr>ar_Protocol = p, ar_HTTPRequest = Some r, ar_FirstMessage = f\<rparr> = Inr u"
  by (rule JWT_accepts [of "parse i" macs "t i" hmac u "now i" _ r]) (use assms in \<open>auto simp: library_ok_def\<close>)

lemma plain_ids: "plain_id ''query-user''" "plain_id ''header-user''" "plain_id ''raw-user''" "plain_id ''cookie-user''"
  "plain_id ''msg-user''" "plain_id ''wt-jwt''" "plain_id (''u'' @ show_nat n)"
proof -
  have "0x20 \<le> code c \<and> code c < 0x80 \<and> c \<notin> {quote_char, backslash, CHR ''<'', CHR ''>'', CHR ''&''}" if "c \<in> set (show_nat n)" for c
    using show_nat_digits [OF that] by (auto simp: code_def)
  then have "list_all (\<lambda>c. 0x20 \<le> code c \<and> code c < 0x80 \<and> c \<notin> {quote_char, backslash, CHR ''<'', CHR ''>'', CHR ''&''}) (show_nat n)"
    unfolding list_all_iff by blast
  then show "plain_id (''u'' @ show_nat n)" by (intro plain_idI) (simp add: code_def)
qed (rule plain_idI; simp add: code_def)+

lemmas new_authenticators = demo_authenticator_def NewJWTAuthenticator_def

lemma dials_accepted:
  assumes "library_ok parse macs hmac t now"
  shows "demo_authenticator (parse 0) 0 \<lparr>ar_Protocol = p, ar_HTTPRequest = Some (demo_requests hmac now ! 0), ar_FirstMessage = f\<rparr> = Inr ''query-user''"
    and "demo_authenticator (parse 4) 4 \<lparr>ar_Protocol = p, ar_HTTPRequest = Some (demo_requests hmac now ! 4), ar_FirstMessage = f\<rparr> = Inr ''header-user''"
    and "demo_authenticator (parse 5) 5 \<lparr>ar_Protocol = p, ar_HTTPRequest = Some (demo_requests hmac now ! 5), ar_FirstMessage = f\<rparr> = Inr ''raw-user''"
    and "demo_authenticator (parse 6) 6 \<lparr>ar_Protocol = p, ar_HTTPRequest = Some (demo_requests hmac now ! 6), ar_FirstMessage = f\<rparr> = Inr ''cookie-user''"
    and "demo_authenticator (parse 7) 7 \<lparr>ar_Protocol = p, ar_HTTPRequest = Some (demo_requests hmac now ! 7), ar_FirstMessage = f\<rparr> = Inr ''envoy-user''"
    and "demo_authenticator (parse 9) 9 \<lparr>ar_Protocol = p, ar_HTTPRequest = Some (demo_requests hmac now ! 9), ar_FirstMessage = f\<rparr> = Inr ''msg-user''"
    and "i < 10 \<Longrightarrow> demo_authenticator (parse (10 + i)) (10 + i)
      \<lparr>ar_Protocol = p, ar_HTTPRequest = Some (demo_requests hmac now ! (10 + i)), ar_FirstMessage = f\<rparr> = Inr (''u'' @ show_nat i)"
proof -
  note acc = library_accepts [OF assms]
  show "demo_authenticator (parse 7) 7 \<lparr>ar_Protocol = p, ar_HTTPRequest = Some (demo_requests hmac now ! 7), ar_FirstMessage = f\<rparr> = Inr ''envoy-user''"
    by (simp add: new_authenticators demo_requests_def Envoy_Authenticate_def header_request_Get Let_def)
  show "demo_authenticator (parse (10 + i)) (10 + i)
      \<lparr>ar_Protocol = p, ar_HTTPRequest = Some (demo_requests hmac now ! (10 + i)), ar_FirstMessage = f\<rparr> = Inr (''u'' @ show_nat i)" if "i < 10"
  proof -
    have "demo_requests hmac now ! (10 + i) = query_request (genJWT hmac (now (10 + i)) demo_secret (''u'' @ show_nat i))"
      using that by (simp add: demo_requests_def nth_append)
    then show ?thesis unfolding new_authenticators using acc [OF plain_ids(7)] by (simp add: demo_tokens)
  qed
qed (unfold new_authenticators demo_requests_def; simp add: library_accepts [OF assms] plain_ids demo_tokens demo_tokens(2) [simplified append.simps])+

lemma dials_refused:
  assumes "library_ok parse macs hmac t now"
    and "hmac (string_bytes demo_secret) (jwt_input ''x'' (now 3)) \<noteq> hmac (string_bytes ''wrong-secret'') (jwt_input ''x'' (now 3))"
  shows "i \<in> {1, 2, 3, 8} \<Longrightarrow>
    \<exists>e. demo_authenticator (parse i) i \<lparr>ar_Protocol = p, ar_HTTPRequest = Some (demo_requests hmac now ! i), ar_FirstMessage = f\<rparr> = Inl e"
proof -
  have lib: "jwt_verifier (parse i) macs (t i)" "macs ''HS256'' = Some hmac" for i using assms(1) by (auto simp: library_ok_def)
  have "\<exists>e. demo_authenticator (parse 1) 1 \<lparr>ar_Protocol = p, ar_HTTPRequest = Some (demo_requests hmac now ! 1), ar_FirstMessage = f\<rparr> = Inl e"
    using no_dots_refused [OF lib(1), of "''garbage''" 1 demo_secret]
    by (auto simp: new_authenticators demo_requests_def JWT_Authenticate_def demo_tokens)
  moreover have "\<exists>e. demo_authenticator (parse 2) 2 \<lparr>ar_Protocol = p, ar_HTTPRequest = Some (demo_requests hmac now ! 2), ar_FirstMessage = f\<rparr> = Inl e"
    by (simp add: new_authenticators demo_requests_def JWT_Authenticate_def demo_tokens)
  moreover have "\<exists>e. demo_authenticator (parse 3) 3 \<lparr>ar_Protocol = p, ar_HTTPRequest = Some (demo_requests hmac now ! 3), ar_FirstMessage = f\<rparr> = Inl e"
    unfolding new_authenticators demo_requests_def
    using JWT_refuses [OF lib, where u = "''x''" and now = "now 3" and secret = "''wrong-secret''"] assms(2) by (simp add: demo_tokens)
  moreover have "\<exists>e. demo_authenticator (parse 8) 8 \<lparr>ar_Protocol = p, ar_HTTPRequest = Some (demo_requests hmac now ! 8), ar_FirstMessage = f\<rparr> = Inl e"
    by (simp add: new_authenticators demo_requests_def Envoy_Authenticate_def plain_request_def Header_Get_def first_value_def Let_def)
  ultimately show "i \<in> {1, 2, 3, 8} \<Longrightarrow>
    \<exists>e. demo_authenticator (parse i) i \<lparr>ar_Protocol = p, ar_HTTPRequest = Some (demo_requests hmac now ! i), ar_FirstMessage = f\<rparr> = Inl e"
    by auto
qed

text \<open>Each part with answers that fit.\<close>

lemma ok_counts [simp]: "t_failed (ok n s) = t_failed s"
  by (simp add: ok_def)

lemma user_passes: "gate auth r a \<Longrightarrow> recorded auth r a \<Longrightarrow>
    auth \<lparr>ar_Protocol = ProtocolWebSocket, ar_HTTPRequest = Some r, ar_FirstMessage = []\<rparr> = Inr u \<Longrightarrow>
    t_failed (check_user n u a s) = t_failed s"
  by (simp add: gate_def recorded_def check_user_def)

lemma rejection_passes: "gate auth r a \<Longrightarrow>
    auth \<lparr>ar_Protocol = ProtocolWebSocket, ar_HTTPRequest = Some r, ar_FirstMessage = []\<rparr> = Inl e \<Longrightarrow>
    t_failed (check_rejected n d a s) = t_failed s"
  by (auto simp: gate_def check_rejected_def Let_def)

lemma message_read: "decoded_member demo_message ''content'' = ''hello''"
proof -
  let ?v = "JObject [(''content'', JString ''hello''), (''type'', JString ''chat'')]"
  have "utf8_valid ''content''" "utf8_valid ''hello''" "utf8_valid ''type''" "utf8_valid ''chat''" by (rule utf8_literal; simp)+
  then have "json_ok ?v" by (simp del: utf8_valid.simps)
  moreover have "depth ?v \<le> max_depth" by (simp add: max_depth_def)
  ultimately have "json_parse demo_message = Some ?v" unfolding demo_message_def by (rule json_parse_print)
  then show ?thesis by (simp add: decoded_member_def member_def)
qed

lemma message_passes:
  "da_dial a = None \<Longrightarrow> rec_messages (da_handler a) = [demo_message] \<Longrightarrow> t_failed (check_message a s) = t_failed s"
  using message_read by (simp add: check_message_def)

lemma users_pass:
  assumes "\<And>i. i < 10 \<Longrightarrow> da_dial (ans i) = None" and "10 \<le> length (rec_connects h)"
  shows "t_failed (check_users ans h s) = t_failed s"
proof -
  have "k + i \<le> 10 \<Longrightarrow> dial_users k i ans s = (s, True)" for k i
    by (induction k arbitrary: i) (simp_all add: assms(1))
  from this [of 10 0] show ?thesis using assms(2) by (simp add: check_users_def Let_def)
qed

lemma routing_passes:
  assumes "library_ok parse macs hmac t now"
  shows "t_failed (part_routing (parse i) hmac (now i) s) = t_failed s"
proof -
  obtain cs where cs: "parse i (genJWT hmac (now i) demo_secret ''wt-jwt'') (hmac_key demo_secret) = Inr \<lparr>jwt_Valid = True, jwt_Claims = cs\<rparr>"
    "map_of cs ''sub'' = Some (ClaimString ''wt-jwt'')"
    using genJWT_parse [of "parse i" macs "t i" hmac "''wt-jwt''" "now i" demo_secret] assms plain_ids(6) by (auto simp: library_ok_def)
  have "claim_user user_fields cs = Inr ''wt-jwt''" using cs(2) by (simp add: user_fields_def)
  then show ?thesis using cs(1)
    by (simp add: part_routing_def Let_def Hybrid_Authenticate_def authenticateFromEnvoy_def authenticateJWT_def NewHybridAuthenticator_def
        header_request_Get demo_tokens ProtocolWebSocket_def ProtocolWebTransport_def)
qed

lemma library_ok_sample: "library_ok (\<lambda>_. sample_verifier sample_macs 1000) sample_macs sample_hmac (\<lambda>_. 1000) (\<lambda>_. 1000)"
  by (simp add: library_ok_def sample_verifier sample_macs_def)

section \<open>Properties\<close>



end
