(* ===== verification/Spec2Isabelle.thy ===== *)
theory Spec2Isabelle
  imports Hybrid_Sessions Negotiation Heartbeat Wire Wire_Notes Auth_Main Example_Mains
begin

text \<open>
  A verification development for go-wst, a Go library of real-time servers over WebSocket and
  WebTransport. This theory imports the others and proves the properties that span components.

  \<^bold>\<open>The program and its parts.\<close> A program that uses the library implements a
  \<^verbatim>\<open>StatefulHandler\<close> (\<^verbatim>\<open>OnConnect\<close>, \<^verbatim>\<open>OnMessage\<close>, \<^verbatim>\<open>OnDisconnect\<close>) and gives it to one of three servers.
  The WebSocket server (\<^verbatim>\<open>ws/\<close>) and the WebTransport server (\<^verbatim>\<open>wt/\<close>) accept sessions, authenticate
  them, wrap each in a connection object with a send queue of 256 messages, keep it in a map by ID
  and in a two-level map by user, and run goroutines that read messages for the handler and write
  the queue to the network. The hybrid server (\<^verbatim>\<open>hybrid/\<close>) builds one of each, gives both handlers
  of its own that keep a third pair of maps, and answers protocol negotiation with the fallback
  manager. Beside them are a sharded hub with a heartbeat (\<^verbatim>\<open>stateful/\<close>), a store of messages that
  clients poll (\<^verbatim>\<open>stateless/\<close>), a buffer pool (\<^verbatim>\<open>internal/buffer\<close>), and two example handlers.

  \<^bold>\<open>The theories\<close>, each named after the part of the source it models. Definitions keep the names
  of the source, with a prefix where two packages use the same name.

  \<^item> \<open>Prelude\<close>, \<open>Go_Text\<close>: the Go language and library as far as the sources use them: 64-bit
    integers as words, maps as association lists whose range order is an argument, the outcome
    of a call (\<open>Return\<close>, \<open>Panics\<close>, \<open>Blocks\<close>), select statements, decimal printing, decoding of
    strings into runes.
  \<^item> \<open>Protocol\<close>: \<^verbatim>\<open>internal/protocol\<close>: errors, dynamic values, messages, authentication requests, the
    raw codec and its round trip.
  \<^item> \<open>Json_Text\<close>, \<open>Json\<close>, \<open>Json_Stream\<close>, \<open>Base64\<close>: \<^verbatim>\<open>encoding/json\<close> and \<^verbatim>\<open>encoding/base64\<close> as far as the sources use
    them: the text of a string with its escapes, the text of a value, the parser, and the proofs
    that parsing undoes printing for valid UTF-8.
  \<^item> \<open>Json_Messages\<close>: \<^verbatim>\<open>internal/protocol/codec.go\<close> and the structures and maps that the program
    sends as JSON. The locale \<open>lossless_codec\<close> is interpreted for the messages of each kind.
  \<^item> \<open>Message_Store\<close>: \<^verbatim>\<open>stateless/\<close>. The store's contract is the locale \<open>message_store\<close>; polling
    with a cursor is proved complete in it, and \<^verbatim>\<open>MemoryStore\<close> is its interpretation.
  \<^item> \<open>Connection\<close>: \<^verbatim>\<open>ws/connection.go\<close>, \<^verbatim>\<open>wt/connection.go\<close> and the \<^verbatim>\<open>Connection\<close> interface. A
    connection is a record; the calls it makes to the socket or session are recorded. The locale
    \<open>outbox\<close> states what sending to one of many connections does; it is interpreted for both
    transports and for the interface. \<open>Conn_World\<close>: the store of connection objects that the
    users of the interface share, and what each call changes in it.
  \<^item> \<open>Delivery\<close>: the send loops that the three servers and the chat example share.
  \<^item> \<open>Registry\<close>: the locale \<open>conn_registry\<close>, the contract of register, unregister and bind,
    interpreted by the hub and the three servers.
  \<^item> \<open>Hub_Size\<close>, \<open>Hub\<close>, \<open>Heartbeat\<close>: \<^verbatim>\<open>stateful/hub.go\<close>, \<^verbatim>\<open>stateful/heartbeat.go\<close>. The hub refines two
    flat maps; the rounding of the shard count is shown to be the least power of two; a
    heartbeat check closes exactly the silent connections and its loop ends with its context.
  \<^item> \<open>Buffer_Pool\<close>: \<^verbatim>\<open>internal/buffer/pool.go\<close> over a heap of slices.
  \<^item> \<open>Ws_Server\<close>, \<open>Ws_Session\<close>: \<^verbatim>\<open>ws/server.go\<close>, \<^verbatim>\<open>ws/config.go\<close>. \<open>Ws_Server\<close> has the methods on the
    maps; \<open>Ws_Session\<close> the goroutines of \<^verbatim>\<open>HandleWebSocket\<close>, \<^verbatim>\<open>readPump\<close> and \<^verbatim>\<open>writePump\<close> as the steps of
    one transition system, in any interleaving with each other, with senders and closers and
    with \<^verbatim>\<open>Stop\<close>. Shown by induction over the reachable states: the maps and the counter are
    exactly the live sessions, only authenticated requests reach the handler, the handler sees a
    proper sequence of callbacks, nothing panics, messages are written in order.
  \<^item> \<open>Wt_Config\<close>, \<open>Wt_Server\<close>, \<open>Wt_Session\<close>, \<open>Wt_Maps\<close>: \<^verbatim>\<open>wt/\<close> in the same way, with the temporary
    files of the TLS material, and with the defects of that server: the count that leaks and the
    missing \<^verbatim>\<open>OnDisconnect\<close>. Its maps are exact all the same (\<open>Wt_Maps\<close>).
  \<^item> \<open>Authenticator\<close>, \<open>Fallback\<close>, \<open>Hybrid\<close>: \<^verbatim>\<open>hybrid/\<close>: the authenticators, protocol selection with its
    retry counts, construction, start and stop of the hybrid server and its maps.
    \<open>Hybrid_Sessions\<close>: the maps of the hybrid server over interleaved sessions of both servers; they
    hold exactly the connections that are connected, and no user. \<open>Negotiation\<close>: \<^verbatim>\<open>handleNegotiate\<close> from the
    bytes of the request to those of the response.
  \<^item> \<open>Chat\<close>, \<open>Notification\<close>: \<^verbatim>\<open>example/internal/chat/handler.go\<close>, \<^verbatim>\<open>example/notification/main.go\<close>: the
    rooms stay consistent and messages reach exactly the members; a polling client gets every
    message once. \<open>Wire\<close>, \<open>Wire_Notes\<close>: the same down to the bytes, with the JSON codec in place: every
    frame the chat sends decodes to a chat message, what a member types reaches every member's
    decoder, and the frames of the notification example decode to the stored messages.
  \<^item> \<open>Jwt_Token\<close>, \<open>Auth_Demo\<close>, \<open>Auth_Main\<close>: \<^verbatim>\<open>example/authhook/main.go\<close>, a program that tests the
    authentication of the library. Its tokens are accepted by the authenticators of the hybrid server; its
    handler records exactly the users of the sessions that reached it; \<^verbatim>\<open>waitConn\<close> returns; with a
    server that answers as the model of the library does, all its checks pass.
  \<^item> \<open>Example_Mains\<close>: \<^verbatim>\<open>MustNewServer\<close> and the \<^verbatim>\<open>main\<close> functions of the other examples; the deferred
    \<^verbatim>\<open>Stop\<close> of the WebTransport example removes the TLS files it has written.

  \<^bold>\<open>Errors and panics.\<close> Go errors are values of \<open>go_error\<close>. A run-time panic (closing a closed
  channel, an index out of range, a nil pointer, a non-positive ticker, an inconsistent
  \<^verbatim>\<open>atomic.Value\<close>) and a goroutine that waits are outcomes, so that their absence is a theorem.

  \<^bold>\<open>Code of other repositories\<close> is an argument: gorilla/websocket and webtransport-go answer each
  call as a function of the calls before it, golang-jwt parses tokens (its promise is \<open>jwt_sound\<close>;
  for the tokens of the demo \<open>jwt_verifier\<close>, with HMAC an arbitrary function), the operating system gives environment
  variables and temporary files (\<open>temp_fresh\<close>), \<^verbatim>\<open>sync.Pool\<close> picks what it returns, go-zero's
  service group chooses the order in which it starts and stops services (\<open>order_ok\<close>).

  \<^bold>\<open>Bounds and granularity.\<close> The numbering of messages is exact below \<open>2 ^ 63\<close> messages per user,
  the rounding of shard counts up to \<open>2 ^ 32\<close>. Polling theorems say how many rounds are enough
  (as many as there are messages). Connections get their ID from the time of their creation;
  the theorems about the maps of the servers assume that two sessions are not created in the
  same nanosecond. A step of the session theories runs one method on the shared state; the
  handler of the user is seen through what its callbacks return, and does not by itself close the
  raw send channel or rebind users. The heartbeat loop and the chat handler run over lists of
  rounds and calls; what other goroutines do in between is part of each round, within the
  conditions \<open>round_ok\<close> and \<open>call_ok\<close>.

  \<^bold>\<open>Not modelled.\<close> Listeners, TLS and network addresses (calls of \<^verbatim>\<open>net/http\<close> and of the HTTP/3
  library); floating-point numbers in JSON, indented output, and the
  reflection by which \<^verbatim>\<open>encoding/json\<close> finds the fields (the fields of each structure are written out);
  logging; the wait group of the WebTransport
  server, whose wait ends after five seconds at the latest; \<^verbatim>\<open>protocol/protocol.go\<close>, which only
  re-exports; flag parsing and the loading of configuration files.

  \<^bold>\<open>What can still be added.\<close> No code of the repository feeds the hub or calls the heartbeat, the stateless
  server or \<^verbatim>\<open>FallbackHandler\<close>; how a program composes them with the servers could be modelled with that program.
\<close>

section \<open>Definitions across components\<close>

text \<open>A request that runs through the handler of a server without authentication.\<close>

definition open_door :: "HTTPRequest \<Rightarrow> ws_event list" where
  "open_door r = [Arrive 0 r, Upgrade 0 None 7, Authenticate 0 8, Register 0, Connect 0 None]"

section \<open>Lemmas across components\<close>

lemma open_door_run:
  assumes "fresh_server srv" and "\<not> auth_Enabled (ws_Auth (wss_conf srv))"
  shows "\<exists>s. session_run io (open_door r) (initial_system srv) = Some s \<and> th_request (sys_thread s 0) = r \<and>
    th_calls (sys_thread s 0) = [OnConnect None] \<and> is_joined (th_pc (sys_thread s 0))"
  using assms
  by (simp add: open_door_def fresh_server_def session_defs initial_system_def idle_thread_def ws_registry_defs Let_def
      ws_NewConnection_def)

section \<open>Properties\<close>

text \<open>
  C23. Authentication configured on the hybrid server is not enforced. If authentication is
  enabled in the hybrid configuration but not also in its WebSocket part, the server it builds
  accepts every WebSocket request: whatever the request, the connection is registered and the
  handler is called, although an authenticator that may reject the request was installed.
\<close>

theorem hybrid_auth_not_enforced:
  assumes "hybrid_NewServer env conf opts fs = Return (s, fs')" and "\<not> auth_Enabled (ws_Auth (hc_Ws conf))"
  shows "\<exists>st. session_reach io (initial_system (hys_wsServer s)) st \<and> th_request (sys_thread st 0) = r \<and>
    th_calls (sys_thread st 0) = [OnConnect None] \<and> is_joined (th_pc (sys_thread st 0))"
proof -
  have "fresh_server (hys_wsServer s)"
    using assms(1) fresh_NewServer
    by (auto simp: hybrid_NewServer_def Let_def split: prod.splits sum.splits option.splits if_splits)
  moreover have "\<not> auth_Enabled (ws_Auth (wss_conf (hys_wsServer s)))"
    using assms(2) hybrid_NewServer_ws(1) [OF assms(1)] SetUp_auth(1) [of conf] by simp
  ultimately show ?thesis
    using open_door_run [of "hys_wsServer s" io r] session_run_reach [OF _ session_reach.start] by blast
qed

lemma hybrid_auth_not_enforced_witness:
  "\<exists>s fs' st a. hybrid_NewServer sample_env sample_HybridConf [] {} = Return (s, fs') \<and>
     hys_authenticator s = Some a \<and>
     a \<lparr>ar_Protocol = ProtocolWebSocket, ar_HTTPRequest = Some sample_request, ar_FirstMessage = []\<rparr> = Inl ErrMissingUserInfo \<and>
     session_reach (\<lambda>_ _ _. None) (initial_system (hys_wsServer s)) st \<and>
     th_request (sys_thread st 0) = sample_request \<and> th_calls (sys_thread st 0) = [OnConnect None]"
proof -
  obtain s fs' where s: "hybrid_NewServer sample_env sample_HybridConf [] {} = Return (s, fs')"
    by (cases "hybrid_NewServer sample_env sample_HybridConf [] {}")
      (auto simp: hybrid_NewServer_def sample_env_def ws_NewServer_def WsConf_SetUp_def Let_def split: prod.splits)
  obtain a where a: "hys_authenticator s = Some a"
    "a \<lparr>ar_Protocol = ProtocolWebSocket, ar_HTTPRequest = Some sample_request, ar_FirstMessage = []\<rparr> = Inl ErrMissingUserInfo"
    using s by (auto simp: hybrid_NewServer_def sample_env_def ws_NewServer_def WsConf_SetUp_def Let_def hybrid_authenticator_def
        SetUp_auth sample_HybridConf_def Hybrid_Authenticate_def authenticateFromEnvoy_def sample_request_def Header_Get_def
        first_value_def split: prod.splits)
  have "\<not> auth_Enabled (ws_Auth (hc_Ws sample_HybridConf))"
    by (simp add: sample_HybridConf_def default_WsConf_def empty_auth_def)
  then show ?thesis
    using hybrid_auth_not_enforced [OF s, of "\<lambda>_ _ _. None" sample_request] s a by blast
qed

end
